(* ===== verification/Adb_Prelude.thy ===== *)
theory Adb_Prelude
  imports Main "HOL-Library.Word" "HOL-Library.Monad_Syntax"
begin

unbundle bit_operations_syntax

text \<open>
  Shared vocabulary of the development: the machine types of the C++ sources, the error values
  of \<open>include/adbcpp/error.hpp\<close>, the two sequencing combinators the components are written
  with, and generic lemmas on words, lists and strings.

  \<^item> \<open>std::byte\<close> and \<open>std::uint8_t\<close> are 8-bit words, \<open>std::uint32_t\<close> and
    \<open>std::uint64_t\<close> are 32- and 64-bit words, and \<open>std::size_t\<close>, which only ever counts the
    elements of a buffer that exists, is \<open>nat\<close>.
  \<^item> \<open>tl::expected<T, Error>\<close> is the sum \<open>error + 'a\<close> (\<open>Inl\<close> the error).
  \<^item> An operation on a mutable object is a function from the object's state to the outcome and
    the new state: an error leaves the object in the state it had reached, exactly as an early
    \<open>return tl::unexpected(...)\<close> does. Operations with a loop that need not end return that pair
    as an option, \<open>None\<close> being a call that never returns.
\<close>

section \<open>Machine types\<close>

type_synonym byte = "8 word"
type_synonym u16 = "16 word"
type_synonym u32 = "32 word"
type_synonym u64 = "64 word"

section \<open>Errors (error.hpp)\<close>

datatype ErrorCode = InvalidArgument | Transport | Protocol | Device | Crypto | Io

record Error =
  err_code :: ErrorCode
  err_message :: string

type_synonym 'a Result = "Error + 'a"
type_synonym Status = "unit Result"

definition mk_error :: "ErrorCode \<Rightarrow> string \<Rightarrow> Error" where
  "mk_error c m = \<lparr>err_code = c, err_message = m\<rparr>"

lemma mk_error_sel [simp]: "err_code (mk_error c m) = c" "err_message (mk_error c m) = m"
  by (simp_all add: mk_error_def)

lemma mk_error_inject [simp]: "mk_error c m = mk_error c' m' \<longleftrightarrow> c = c' \<and> m = m'"
  by (auto simp: mk_error_def)

section \<open>Sequencing\<close>

text \<open>
  \<open>bind_st\<close> runs an operation that always returns and, unless it failed, the rest;
  \<open>bind_io\<close> does the same for an operation that may not return.
  Both are the pattern \<open>if (const auto r = op(); !r) { return tl::unexpected(r.error()); }\<close>.
\<close>

type_synonym ('s, 'a) st = "'s \<Rightarrow> 'a Result \<times> 's"
type_synonym ('s, 'a) io = "'s \<Rightarrow> ('a Result \<times> 's) option"

definition ok_st :: "'a \<Rightarrow> ('s, 'a) st" where
  "ok_st a s = (Inr a, s)"

definition fail_st :: "Error \<Rightarrow> ('s, 'a) st" where
  "fail_st e s = (Inl e, s)"

definition bind_st :: "('s, 'a) st \<Rightarrow> ('a \<Rightarrow> ('s, 'b) st) \<Rightarrow> ('s, 'b) st" where
  "bind_st m f s = (case m s of (Inl e, s') \<Rightarrow> (Inl e, s') | (Inr a, s') \<Rightarrow> f a s')"

definition ok_io :: "'a \<Rightarrow> ('s, 'a) io" where
  "ok_io a s = Some (Inr a, s)"

definition fail_io :: "Error \<Rightarrow> ('s, 'a) io" where
  "fail_io e s = Some (Inl e, s)"

definition lift_io :: "('s, 'a) st \<Rightarrow> ('s, 'a) io" where
  "lift_io m s = Some (m s)"

definition bind_io :: "('s, 'a) io \<Rightarrow> ('a \<Rightarrow> ('s, 'b) io) \<Rightarrow> ('s, 'b) io" where
  "bind_io m f s =
     (case m s of
        None \<Rightarrow> None
      | Some (Inl e, s') \<Rightarrow> Some (Inl e, s')
      | Some (Inr a, s') \<Rightarrow> f a s')"

named_theorems seq_simps "evaluation of the sequencing combinators"

lemma ok_st_eval [seq_simps]: "ok_st a s = (Inr a, s)"
  by (simp add: ok_st_def)

lemma fail_st_eval [seq_simps]: "fail_st e s = (Inl e, s)"
  by (simp add: fail_st_def)

lemma ok_io_eval [seq_simps]: "ok_io a s = Some (Inr a, s)"
  by (simp add: ok_io_def)

lemma fail_io_eval [seq_simps]: "fail_io e s = Some (Inl e, s)"
  by (simp add: fail_io_def)

lemma lift_io_eval [seq_simps]: "lift_io m s = Some (m s)"
  by (simp add: lift_io_def)

lemma bind_st_eval [seq_simps]:
  "m s = (Inl e, s') \<Longrightarrow> bind_st m f s = (Inl e, s')"
  "m s = (Inr a, s') \<Longrightarrow> bind_st m f s = f a s'"
  by (simp_all add: bind_st_def)

lemma bind_io_eval [seq_simps]:
  "m s = None \<Longrightarrow> bind_io m f s = None"
  "m s = Some (Inl e, s') \<Longrightarrow> bind_io m f s = Some (Inl e, s')"
  "m s = Some (Inr a, s') \<Longrightarrow> bind_io m f s = f a s'"
  by (simp_all add: bind_io_def)

text \<open>Inversion: what a sequence that came back did.\<close>

lemma bind_st_InrE:
  assumes "bind_st m f s = (Inr b, s'')"
  obtains a s' where "m s = (Inr a, s')" "f a s' = (Inr b, s'')"
  using assms by (auto simp: bind_st_def split: prod.splits sum.splits)

lemma bind_io_SomeE:
  assumes "bind_io m f s = Some r"
  obtains (err) e s' where "m s = Some (Inl e, s')" "r = (Inl e, s')"
    | (ok) a s' where "m s = Some (Inr a, s')" "f a s' = Some r"
  using assms by (auto simp: bind_io_def split: option.splits prod.splits sum.splits)

lemma bind_io_InrE:
  assumes "bind_io m f s = Some (Inr b, s'')"
  obtains a s' where "m s = Some (Inr a, s')" "f a s' = Some (Inr b, s'')"
  using assms by (auto elim: bind_io_SomeE)

text \<open>
  A sequence of calls that return, returns: the combinator never adds divergence. Used with
  \<^theory_text>\<open>intro\<close> by the termination arguments of the stream and sync loops.
\<close>

lemma bind_io_returns:
  assumes "m s \<noteq> None" and "\<And>a s'. m s = Some (Inr a, s') \<Longrightarrow> f a s' \<noteq> None"
  shows "bind_io m f s \<noteq> None"
  using assms by (auto simp: bind_io_def split: option.splits sum.splits)

text \<open>Monotonicity, so that \<^theory_text>\<open>partial_function\<close> accepts loops written with \<open>bind_io\<close>.\<close>

abbreviation mono_opt :: "(('a \<Rightarrow> 'b option) \<Rightarrow> 'c option) \<Rightarrow> bool" where
  "mono_opt \<equiv> monotone (fun_ord option_ord) option_ord"

lemma bind_io_mono [partial_function_mono]:
  fixes B :: "('p \<Rightarrow> 'q option) \<Rightarrow> ('s, 'a) io"
    and C :: "'a \<Rightarrow> ('p \<Rightarrow> 'q option) \<Rightarrow> ('s, 'b) io"
  assumes B: "\<And>t. mono_opt (\<lambda>f. B f t)" and C: "\<And>y t. mono_opt (\<lambda>f. C y f t)"
  shows "mono_opt (\<lambda>f. bind_io (B f) (\<lambda>y. C y f) s)"
proof (rule monotoneI)
  fix f g :: "'p \<Rightarrow> 'q option"
  assume fg: "fun_ord option_ord f g"
  have b: "option_ord (B f s) (B g s)"
    using B [of s] fg by (auto simp: monotone_def)
  have c: "option_ord (C y f t) (C y g t)" for y t
    using C [of y t] fg by (auto simp: monotone_def)
  show "option_ord (bind_io (B f) (\<lambda>y. C y f) s) (bind_io (B g) (\<lambda>y. C y g) s)"
  proof (cases "B f s")
    case None
    then show ?thesis by (simp add: bind_io_def flat_ord_def)
  next
    case (Some r)
    with b have "B g s = Some r" by (auto simp: flat_ord_def)
    with Some c show ?thesis
      by (cases r; cases "fst r") (auto simp: bind_io_def flat_ord_def)
  qed
qed

lemma if_app_mono [partial_function_mono]:
  assumes "mono_opt (\<lambda>f. F f s)" and "mono_opt (\<lambda>f. G f s)"
  shows "mono_opt (\<lambda>f. (if c then F f else G f) s)"
  using assms by (cases c) simp_all

lemma Let_app_mono [partial_function_mono]:
  assumes "mono_opt (\<lambda>f. F f v s)"
  shows "mono_opt (\<lambda>f. (let x = v in F f x) s)"
  using assms by (simp add: Let_def)

section \<open>Strings as bytes\<close>

text \<open>
  A \<open>std::string\<close> is a sequence of bytes, and so is an Isabelle \<open>string\<close>. The casts between
  \<open>char *\<close> and \<open>std::byte *\<close> are these two functions.
\<close>

definition bytes_of_string :: "string \<Rightarrow> byte list" where
  "bytes_of_string s = map (\<lambda>c. of_nat (of_char c)) s"

definition string_of_bytes :: "byte list \<Rightarrow> string" where
  "string_of_bytes bs = map (\<lambda>b. char_of (unat b)) bs"

lemma length_bytes_of_string [simp]: "length (bytes_of_string s) = length s"
  by (simp add: bytes_of_string_def)

lemma length_string_of_bytes [simp]: "length (string_of_bytes s) = length s"
  by (simp add: string_of_bytes_def)

lemma char_byte_char: "char_of (unat (of_nat (of_char c) :: byte)) = c"
proof -
  have "(of_char c :: nat) < 256"
    by (metis nat_of_char_less_256)
  then have "unat (of_nat (of_char c) :: byte) = of_char c"
    by (simp add: unat_of_nat)
  then show ?thesis by simp
qed

lemma byte_mod_256: "(of_nat (unat b mod 256) :: byte) = b"
proof -
  have "unat b < 256"
    using unsigned_less [of b] by simp
  then show ?thesis by simp
qed

lemma string_of_bytes_of_string [simp]: "string_of_bytes (bytes_of_string s) = s"
  by (simp add: bytes_of_string_def string_of_bytes_def char_byte_char comp_def)

lemma bytes_of_string_of_bytes [simp]: "bytes_of_string (string_of_bytes bs) = bs"
  by (simp add: bytes_of_string_def string_of_bytes_def byte_mod_256 comp_def)

lemma bytes_of_string_append [simp]:
  "bytes_of_string (s @ t) = bytes_of_string s @ bytes_of_string t"
  by (simp add: bytes_of_string_def)

lemma string_of_bytes_append [simp]:
  "string_of_bytes (s @ t) = string_of_bytes s @ string_of_bytes t"
  by (simp add: string_of_bytes_def)

lemma bytes_of_string_Nil [simp]: "bytes_of_string [] = []"
  by (simp add: bytes_of_string_def)

lemma string_of_bytes_Nil [simp]: "string_of_bytes [] = []"
  by (simp add: string_of_bytes_def)

section \<open>Decimal numbers (std::to_string)\<close>

fun to_string :: "nat \<Rightarrow> string" where
  "to_string n =
     (if n < 10 then [char_of (48 + n)] else to_string (n div 10) @ [char_of (48 + n mod 10)])"

declare to_string.simps [simp del]

section \<open>Searching strings (std::string::find)\<close>

text \<open>
  \<open>str_find needle hay\<close> is the position of the first occurrence, \<open>None\<close> being \<open>npos\<close>;
  \<open>str_find_from\<close> starts at a position, and finds nothing past the end.
\<close>

fun str_find :: "'a list \<Rightarrow> 'a list \<Rightarrow> nat option" where
  "str_find needle [] = (if needle = [] then Some 0 else None)"
| "str_find needle (c # cs) =
     (if take (length needle) (c # cs) = needle then Some 0
      else map_option Suc (str_find needle cs))"

definition str_find_from :: "'a list \<Rightarrow> 'a list \<Rightarrow> nat \<Rightarrow> nat option" where
  "str_find_from needle hay pos =
     (if pos \<le> length hay then map_option (\<lambda>i. pos + i) (str_find needle (drop pos hay)) else None)"

lemma str_find_Some:
  "str_find needle hay = Some i \<Longrightarrow>
     hay = take i hay @ needle @ drop (i + length needle) hay \<and> i + length needle \<le> length hay"
proof (induction hay arbitrary: i)
  case (Cons c cs)
  show ?case
  proof (cases "take (length needle) (c # cs) = needle")
    case True
    then have "length needle \<le> length (c # cs)"
      by (metis length_take min.cobounded1 min.commute)
    with True Cons.prems show ?thesis
      by (simp del: take_Cons') (metis append_take_drop_id)
  next
    case False
    with Cons show ?thesis by (auto simp del: take_Cons')
  qed
qed (auto split: if_splits)

lemma str_find_is_first:
  "str_find needle hay = Some i \<Longrightarrow> j < i \<Longrightarrow> take (length needle) (drop j hay) \<noteq> needle"
proof (induction hay arbitrary: i j)
  case (Cons c cs)
  then show ?case by (cases j) (auto split: if_splits simp del: take_Cons')
qed (auto split: if_splits)

lemma str_find_None:
  "str_find needle hay = None \<Longrightarrow> take (length needle) (drop j hay) \<noteq> needle"
proof (induction hay arbitrary: j)
  case (Cons c cs)
  then show ?case by (cases j) (auto split: if_splits simp del: take_Cons')
qed (auto split: if_splits)

lemma str_find_firstI:
  assumes "\<And>j. j < length pre \<Longrightarrow> take (length needle) (drop j (pre @ needle @ post)) \<noteq> needle"
  shows "str_find needle (pre @ needle @ post) = Some (length pre)"
  using assms
proof (induction pre)
  case Nil
  have "take (length needle) (needle @ post) = needle" by simp
  then show ?case by (cases "needle @ post") (auto simp del: take_Cons')
next
  case (Cons c pre)
  have "take (length needle) (c # pre @ needle @ post) \<noteq> needle"
    using Cons.prems [of 0] by simp
  moreover have "str_find needle (pre @ needle @ post) = Some (length pre)"
    using Cons.prems [of "Suc _"] by (intro Cons.IH) auto
  ultimately show ?case by (simp del: take_Cons')
qed

lemma str_find_char_None: "str_find [c] hay = None \<longleftrightarrow> c \<notin> set hay"
  by (induction hay) auto

lemma str_find_char_absent [simp]: "c \<notin> set hay \<Longrightarrow> str_find [c] hay = None"
  by (simp add: str_find_char_None)

lemma str_find_char_append [simp]:
  "c \<notin> set xs \<Longrightarrow> str_find [c] (xs @ c # ys) = Some (length xs)"
  by (induction xs) auto

lemma str_find_char_SomeE:
  assumes "str_find [c] hay = Some i"
  obtains "c \<notin> set (take i hay)" "hay = take i hay @ c # drop (Suc i) hay" "i < length hay"
proof -
  have "hay = take i hay @ c # drop (Suc i) hay" "i < length hay"
    using str_find_Some [OF assms] by auto
  moreover have "c \<notin> set (take i hay)"
  proof
    assume "c \<in> set (take i hay)"
    then obtain j where "j < i" "j < length hay" "hay ! j = c"
      by (auto simp: in_set_conv_nth)
    with str_find_is_first [OF assms, of j] show False
      by (simp add: take_Suc hd_drop_conv_nth)
  qed
  ultimately show thesis using that by blast
qed

section \<open>Lists\<close>

fun split_on :: "'a \<Rightarrow> 'a list \<Rightarrow> 'a list list" where
  "split_on c [] = [[]]"
| "split_on c (x # xs) =
     (if x = c then [] # split_on c xs
      else (case split_on c xs of [] \<Rightarrow> [[x]] | y # ys \<Rightarrow> (x # y) # ys))"

fun join_on :: "'a \<Rightarrow> 'a list list \<Rightarrow> 'a list" where
  "join_on c [] = []"
| "join_on c [x] = x"
| "join_on c (x # y # zs) = x @ c # join_on c (y # zs)"

lemma split_on_none [simp]: "c \<notin> set xs \<Longrightarrow> split_on c xs = [xs]"
  by (induction xs) auto

lemma split_on_append [simp]: "c \<notin> set xs \<Longrightarrow> split_on c (xs @ c # ys) = xs # split_on c ys"
  by (induction xs) auto

lemma split_on_join_on:
  "fs \<noteq> [] \<Longrightarrow> (\<And>f. f \<in> set fs \<Longrightarrow> c \<notin> set f) \<Longrightarrow> split_on c (join_on c fs) = fs"
  by (induction c fs rule: join_on.induct) auto

lemma set_join_on: "set (join_on c fs) \<subseteq> insert c (\<Union> (set ` set fs))"
  by (induction c fs rule: join_on.induct) auto

lemma take_drop_drop [simp]: "take n (drop i xs) @ drop (i + n) xs = drop i xs"
  by (metis add.commute append_take_drop_id drop_drop)

lemma take_eq_appendI: "n = length xs \<Longrightarrow> take n (xs @ ys) = xs"
  by simp

lemma drop_eq_appendI: "n = length xs \<Longrightarrow> drop n (xs @ ys) = ys"
  by simp

end
