(* ===== verification/Adb_Message.thy ===== *)
theory Adb_Message
  imports Adb_Prelude
begin

unbundle bit_operations_syntax

text \<open>
  The wire format: \<open>src/protocol/byte_order.hpp\<close> (little-endian words),
  \<open>include/adbcpp/protocol/commands.hpp\<close> (command words and protocol constants) and
  \<open>src/protocol/message.cpp\<close> (the 24-byte message header).
  The lemmas give both directions of every encoding, the integrity of the magic word and of the
  byte-sum checksum, and the one way a payload cannot be framed.
\<close>

section \<open>Little-endian words\<close>

definition write_u32_le :: "u32 \<Rightarrow> byte list" where
  "write_u32_le value =
     [ucast (value AND 0xFF),
      ucast (drop_bit 8 value AND 0xFF),
      ucast (drop_bit 16 value AND 0xFF),
      ucast (drop_bit 24 value AND 0xFF)]"

definition read_u32_le :: "byte list \<Rightarrow> u32" where
  "read_u32_le b =
     ucast (b ! 0) OR push_bit 8 (ucast (b ! 1)) OR push_bit 16 (ucast (b ! 2))
       OR push_bit 24 (ucast (b ! 3))"

lemma length_write_u32_le [simp]: "length (write_u32_le v) = 4"
  by (simp add: write_u32_le_def)

lemma write_u32_le_not_Nil [simp]: "write_u32_le v \<noteq> []"
  by (simp add: write_u32_le_def)

lemma and_255_eq: "(v :: 'a::len word) AND 255 = take_bit 8 v"
proof -
  have "(255 :: 'a word) = mask 8"
    by (simp add: mask_eq_exp_minus_1)
  then show ?thesis by (simp add: take_bit_eq_mask)
qed

lemma read_write_u32_le [simp]: "read_u32_le (write_u32_le v @ bs) = v"
proof (rule bit_word_eqI)
  fix n :: nat
  assume "n < LENGTH(32)"
  then have "n < 8 \<or> 8 \<le> n \<and> n < 16 \<or> 16 \<le> n \<and> n < 24 \<or> 24 \<le> n \<and> n < 32"
    by auto
  then show "bit (read_u32_le (write_u32_le v @ bs)) n \<longleftrightarrow> bit v n"
    by (auto simp: read_u32_le_def write_u32_le_def and_255_eq bit_simps)
qed

lemma read_write_u32_le_Nil [simp]: "read_u32_le (write_u32_le v) = v"
  using read_write_u32_le [of v "[]"] by simp

lemma length_4_cases:
  assumes "length bs = 4"
  obtains a b c d where "bs = [a, b, c, d]"
  using assms by (auto simp: numeral_eq_Suc length_Suc_conv)

lemma write_read_u32_le: "length bs = 4 \<Longrightarrow> write_u32_le (read_u32_le bs) = bs"
proof (erule length_4_cases)
  fix a b c d :: byte
  assume bs: "bs = [a, b, c, d]"
  note bits = read_u32_le_def bit_simps
  have "ucast (take_bit 8 (read_u32_le [a, b, c, d])) = a"
    "ucast (take_bit 8 (drop_bit 8 (read_u32_le [a, b, c, d]))) = b"
    "ucast (take_bit 8 (drop_bit 16 (read_u32_le [a, b, c, d]))) = c"
    "ucast (take_bit 8 (drop_bit 24 (read_u32_le [a, b, c, d]))) = d"
    by (rule bit_word_eqI; auto simp: bits dest: bit_imp_le_length)+
  then show "write_u32_le (read_u32_le bs) = bs"
    by (simp add: bs write_u32_le_def and_255_eq)
qed

lemma write_u32_le_inject [simp]: "write_u32_le v = write_u32_le w \<longleftrightarrow> v = w"
  using read_write_u32_le_Nil by metis

section \<open>Commands (commands.hpp)\<close>

definition make_command :: "char \<Rightarrow> char \<Rightarrow> char \<Rightarrow> char \<Rightarrow> u32" where
  "make_command a b c d =
     (of_nat (of_char a) OR push_bit 8 (of_nat (of_char b)) OR push_bit 16 (of_nat (of_char c))
        OR push_bit 24 (of_nat (of_char d)))"

definition kCnxn :: u32 where "kCnxn = make_command CHR ''C'' CHR ''N'' CHR ''X'' CHR ''N''"
definition kAuth :: u32 where "kAuth = make_command CHR ''A'' CHR ''U'' CHR ''T'' CHR ''H''"
definition kOpen :: u32 where "kOpen = make_command CHR ''O'' CHR ''P'' CHR ''E'' CHR ''N''"
definition kOkay :: u32 where "kOkay = make_command CHR ''O'' CHR ''K'' CHR ''A'' CHR ''Y''"
definition kClse :: u32 where "kClse = make_command CHR ''C'' CHR ''L'' CHR ''S'' CHR ''E''"
definition kWrte :: u32 where "kWrte = make_command CHR ''W'' CHR ''R'' CHR ''T'' CHR ''E''"
definition kSync :: u32 where "kSync = make_command CHR ''S'' CHR ''Y'' CHR ''N'' CHR ''C''"

definition kVersion :: u32 where "kVersion = 0x01000001"
definition kMaxData :: u32 where "kMaxData = 1024 * 1024"
definition kAuthToken :: u32 where "kAuthToken = 1"
definition kAuthSignature :: u32 where "kAuthSignature = 2"
definition kAuthPublicKey :: u32 where "kAuthPublicKey = 3"
definition kInitialDelayedAckBytes :: u32 where "kInitialDelayedAckBytes = 256 * 1024"

lemma kCnxn_eq: "kCnxn = 0x4e584e43"
  by (simp add: kCnxn_def make_command_def push_bit_eq_mult)

lemma kAuth_eq: "kAuth = 0x48545541"
  by (simp add: kAuth_def make_command_def push_bit_eq_mult)

lemma kOpen_eq: "kOpen = 0x4e45504f"
  by (simp add: kOpen_def make_command_def push_bit_eq_mult)

lemma kOkay_eq: "kOkay = 0x59414b4f"
  by (simp add: kOkay_def make_command_def push_bit_eq_mult)

lemma kClse_eq: "kClse = 0x45534c43"
  by (simp add: kClse_def make_command_def push_bit_eq_mult)

lemma kWrte_eq: "kWrte = 0x45545257"
  by (simp add: kWrte_def make_command_def push_bit_eq_mult)

lemma kSync_eq: "kSync = 0x434e5953"
  by (simp add: kSync_def make_command_def push_bit_eq_mult)

lemmas command_eqs = kCnxn_eq kAuth_eq kOpen_eq kOkay_eq kClse_eq kWrte_eq kSync_eq

lemma commands_distinct [simp]:
  "kOkay \<noteq> kWrte" "kWrte \<noteq> kOkay" "kOkay \<noteq> kClse" "kClse \<noteq> kOkay" "kWrte \<noteq> kClse" "kClse \<noteq> kWrte"
  "kCnxn \<noteq> kAuth" "kAuth \<noteq> kCnxn" "kClse \<noteq> kOpen" "kOpen \<noteq> kOkay" "kOkay \<noteq> kOpen"
  by (simp_all add: command_eqs)

lemma unat_kMaxData [simp]: "unat kMaxData = 1048576"
  by (simp add: kMaxData_def)

section \<open>The message header (message.hpp, message.cpp)\<close>

definition kMessageHeaderSize :: nat where "kMessageHeaderSize = 24"

record Message =
  command :: u32
  arg0 :: u32
  arg1 :: u32
  data_length :: u32
  data_check :: u32
  magic :: u32

definition empty_Message :: Message where
  "empty_Message =
     \<lparr>command = 0, arg0 = 0, arg1 = 0, data_length = 0, data_check = 0, magic = 0\<rparr>"

definition compute_magic :: "u32 \<Rightarrow> u32" where
  "compute_magic c = c XOR 0xFFFFFFFF"

definition compute_checksum :: "byte list \<Rightarrow> u32" where
  "compute_checksum data = foldl (\<lambda>sum value. sum + ucast value) 0 data"

definition data_length_of :: "byte list \<Rightarrow> u32 Result" where
  "data_length_of payload =
     (if 0xFFFFFFFF < length payload
      then Inl (mk_error InvalidArgument ''the payload is too large for the ADB header'')
      else Inr (of_nat (length payload)))"

definition encode :: "Message \<Rightarrow> byte list" where
  "encode m =
     write_u32_le (command m) @ write_u32_le (arg0 m) @ write_u32_le (arg1 m)
       @ write_u32_le (data_length m) @ write_u32_le (data_check m) @ write_u32_le (magic m)"

definition decode :: "byte list \<Rightarrow> Message" where
  "decode bytes =
     \<lparr>command = read_u32_le (drop 0 bytes),
      arg0 = read_u32_le (drop 4 bytes),
      arg1 = read_u32_le (drop 8 bytes),
      data_length = read_u32_le (drop 12 bytes),
      data_check = read_u32_le (drop 16 bytes),
      magic = read_u32_le (drop 20 bytes)\<rparr>"

lemma length_encode [simp]: "length (encode m) = kMessageHeaderSize"
  by (simp add: encode_def kMessageHeaderSize_def)

lemma encode_not_Nil [simp]: "encode m \<noteq> []"
  by (simp add: encode_def)

lemma decode_encode_append [simp]: "decode (encode m @ bs) = m"
  by (simp add: decode_def encode_def)

lemma decode_encode_eq [simp]: "decode (encode m) = m"
  using decode_encode_append [of m "[]"] by simp

lemma read_u32_le_take: "4 \<le> n \<Longrightarrow> read_u32_le (take n bs) = read_u32_le bs"
  by (simp add: read_u32_le_def)

lemma encode_decode_eq:
  assumes "length bs = kMessageHeaderSize"
  shows "encode (decode bs) = bs"
proof -
  have word: "write_u32_le (read_u32_le (drop k bs)) = take 4 (drop k bs)" if "k + 4 \<le> 24" for k
    using write_read_u32_le [of "take 4 (drop k bs)"] that assms
    by (simp add: read_u32_le_take kMessageHeaderSize_def)
  have split: "drop k bs = take 4 (drop k bs) @ drop (k + 4) bs" for k
    by (rule take_drop_drop [symmetric])
  have "bs = take 4 (drop 0 bs) @ take 4 (drop 4 bs) @ take 4 (drop 8 bs) @ take 4 (drop 12 bs)
      @ take 4 (drop 16 bs) @ take 4 (drop 20 bs)"
    using split [of 0] split [of 4] split [of 8] split [of 12] split [of 16] split [of 20] assms
    by (simp add: kMessageHeaderSize_def)
  then show ?thesis
    using word [of 0] word [of 4] word [of 8] word [of 12] word [of 16] word [of 20]
    by (simp add: encode_def decode_def)
qed

lemma compute_magic_eq_NOT: "compute_magic c = NOT c"
proof -
  have "(0xFFFFFFFF :: u32) = - 1" by simp
  then show ?thesis unfolding compute_magic_def by (simp only: bit.xor_one_right)
qed

lemma compute_magic_inject [simp]: "compute_magic c = compute_magic c' \<longleftrightarrow> c = c'"
  by (simp add: compute_magic_eq_NOT)

lemma compute_checksum_Nil [simp]: "compute_checksum [] = 0"
  by (simp add: compute_checksum_def)

lemma foldl_checksum: "foldl (\<lambda>sum value. sum + ucast value) a data = a + compute_checksum data"
  unfolding compute_checksum_def
proof (induction data arbitrary: a)
  case (Cons b data)
  show ?case
    using Cons.IH [of "a + ucast b"] Cons.IH [of "ucast b"] by (simp add: algebra_simps)
qed simp

lemma compute_checksum_Cons [simp]: "compute_checksum (b # bs) = ucast b + compute_checksum bs"
  using foldl_checksum [of "ucast b" bs] by (simp add: compute_checksum_def)

lemma compute_checksum_append [simp]:
  "compute_checksum (xs @ ys) = compute_checksum xs + compute_checksum ys"
  by (induction xs) (simp_all add: algebra_simps)

lemma unat_compute_checksum:
  "unat (compute_checksum data) = sum_list (map unat data) mod 2 ^ 32"
proof (induction data)
  case (Cons b data)
  have "unat b < 2 ^ 32"
    using unsigned_less [of b, where 'a = nat] by simp
  then have "unat (ucast b :: u32) = unat b"
    by (simp add: unsigned_ucast_eq take_bit_nat_eq_self)
  with Cons show ?case
    by (simp add: unat_word_ariths mod_simps)
qed simp

section \<open>Properties\<close>

text \<open>
  The header codec is a bijection between headers and the byte sequences of length 24: a
  header is recovered from its encoding whatever bytes follow it, and every 24 bytes are the
  encoding of the header they decode to.
\<close>

theorem header_codec_bijection:
  "length (encode m) = 24 \<and> decode (encode m @ rest) = m
     \<and> (length bytes = 24 \<longrightarrow> encode (decode bytes) = bytes)"
  using encode_decode_eq [of bytes] by (simp add: kMessageHeaderSize_def)

theorem header_codec_bijection_witness:
  "encode (decode (replicate 24 7)) = replicate 24 7
     \<and> decode (encode (empty_Message\<lparr>command := kWrte, arg0 := 5\<rparr>) @ [1, 2]) =
         empty_Message\<lparr>command := kWrte, arg0 := 5\<rparr>"
  using header_codec_bijection [of "empty_Message\<lparr>command := kWrte, arg0 := 5\<rparr>" "[1, 2]" "replicate 24 7"]
  by (simp add: kMessageHeaderSize_def)

text \<open>
  The payload checksum is the sum of the payload's bytes modulo \<open>2\<^sup>3\<^sup>2\<close>, wrap-around included,
  so it does not depend on how the payload is cut into pieces; the magic is the complement of the
  command, so it determines the command.
\<close>

theorem checksum_and_magic:
  "unat (compute_checksum data) = sum_list (map unat data) mod 2 ^ 32
     \<and> compute_checksum (xs @ ys) = compute_checksum xs + compute_checksum ys
     \<and> compute_magic c = NOT c \<and> compute_magic (compute_magic c) = c"
  by (simp add: unat_compute_checksum compute_magic_eq_NOT)

end
