(* ===== verification/Adb_Transport.thy ===== *)
theory Adb_Transport
  imports Adb_Message
begin

text \<open>
  The byte channel of \<open>include/adbcpp/transport.hpp\<close> and \<open>src/transport.cpp\<close>, and the in-memory
  transport of \<open>include/adbcpp/testing/mock_transport.hpp\<close>.

  \<^item> The abstract class \<open>Transport\<close> is a record of its virtual functions, over the state
    \<open>'t\<close> of the concrete transport. \<open>read\<close> fills a span and returns a count; the model returns
    the bytes themselves, so the count is their number.
  \<^item> The free function \<open>wait_readable\<close> polls several transports in turn. The steady clock and the
    sleep between two rounds belong to the environment and are its \<open>now\<close> and \<open>sleep\<close> arguments.
  \<^item> The locale \<open>link\<close> is the contract of carrying bytes: reads hand out, in order and without loss,
    the bytes the peer sends (\<open>pending\<close>), and writes append to the bytes the peer receives (\<open>sent\<close>).
    The locale \<open>byte_channel\<close>, on which the sessions and services rest, adds that the end of the
    stream is reported. \<open>MockTransport\<close> is shown to be a byte channel here, the TCP transport in
    \<open>Adb_Tcp\<close>, and the USB transport to be a link in \<open>Adb_Usb\<close>.
\<close>

section \<open>The Transport interface\<close>

record 't Transport_ops =
  tr_read :: "'t \<Rightarrow> nat \<Rightarrow> byte list Result \<times> 't"
  tr_write :: "'t \<Rightarrow> byte list \<Rightarrow> Status \<times> 't"
  tr_close :: "'t \<Rightarrow> 't"
  tr_serial :: "'t \<Rightarrow> string"
  tr_wait_readable :: "'t \<Rightarrow> int \<Rightarrow> bool Result \<times> 't"

text \<open>The defaults of the base class: no serial, and never readable.\<close>

definition default_serial :: "'t \<Rightarrow> string" where
  "default_serial t = []"

definition default_wait_readable :: "'t \<Rightarrow> int \<Rightarrow> bool Result \<times> 't" where
  "default_wait_readable t timeout = (Inr False, t)"

section \<open>Waiting for one of several transports\<close>

definition kPollInterval :: int where "kPollInterval = 1"

text \<open>One round: every transport is asked, in order, with a zero timeout.\<close>

fun wait_pass :: "'t Transport_ops \<Rightarrow> 't list \<Rightarrow> nat option Result \<times> 't list" where
  "wait_pass T [] = (Inr None, [])"
| "wait_pass T (t # ts) =
     (case tr_wait_readable T t 0 of
        (Inl e, t') \<Rightarrow> (Inl e, t' # ts)
      | (Inr True, t') \<Rightarrow> (Inr (Some 0), t' # ts)
      | (Inr False, t') \<Rightarrow>
          (case wait_pass T ts of
             (Inl e, ts') \<Rightarrow> (Inl e, t' # ts')
           | (Inr r, ts') \<Rightarrow> (Inr (map_option Suc r), t' # ts')))"

text \<open>
  The rounds. The state is the transports and the environment \<open>'c\<close> that carries the clock.
\<close>

partial_function (option) wait_loop ::
  "'t Transport_ops \<Rightarrow> ('c \<Rightarrow> int) \<Rightarrow> (int \<Rightarrow> 'c \<Rightarrow> 'c) \<Rightarrow> int \<Rightarrow> 't list \<Rightarrow> 'c
     \<Rightarrow> (nat option Result \<times> 't list \<times> 'c) option" where
  "wait_loop T now sleep deadline ts c =
     (case wait_pass T ts of
        (Inl e, ts') \<Rightarrow> Some (Inl e, ts', c)
      | (Inr (Some i), ts') \<Rightarrow> Some (Inr (Some i), ts', c)
      | (Inr None, ts') \<Rightarrow>
          if deadline \<le> now c then Some (Inr None, ts', c)
          else wait_loop T now sleep deadline ts' (sleep kPollInterval c))"

declare wait_loop.simps [code]

definition wait_readable ::
  "'t Transport_ops \<Rightarrow> ('c \<Rightarrow> int) \<Rightarrow> (int \<Rightarrow> 'c \<Rightarrow> 'c) \<Rightarrow> 't list \<Rightarrow> int \<Rightarrow> 'c
     \<Rightarrow> (nat option Result \<times> 't list \<times> 'c) option" where
  "wait_readable T now sleep ts timeout c = wait_loop T now sleep (now c + timeout) ts c"

lemma wait_pass_length: "wait_pass T ts = (r, ts') \<Longrightarrow> length ts' = length ts"
  by (induction ts arbitrary: r ts') (auto split: prod.splits sum.splits bool.splits)

lemma wait_pass_ready:
  "wait_pass T ts = (Inr (Some i), ts') \<Longrightarrow>
     i < length ts \<and> fst (tr_wait_readable T (ts ! i) 0) = Inr True
       \<and> (\<forall>j < i. fst (tr_wait_readable T (ts ! j) 0) = Inr False)"
proof (induction ts arbitrary: i ts')
  case (Cons t ts)
  then show ?case
    by (fastforce split: prod.splits sum.splits bool.splits simp: nth_Cons' less_Suc_eq_0_disj)
qed simp

lemma wait_pass_none:
  "wait_pass T ts = (Inr None, ts') \<Longrightarrow>
     (\<forall>j < length ts. fst (tr_wait_readable T (ts ! j) 0) = Inr False)"
proof (induction ts arbitrary: ts')
  case (Cons t ts)
  then show ?case
    by (fastforce split: prod.splits sum.splits bool.splits simp: nth_Cons' less_Suc_eq_0_disj)
qed simp

text \<open>
  The wait ends: when a sleep really advances the clock, the number of rounds is bounded by the
  time that is left.
\<close>

lemma wait_loop_returns:
  assumes adv: "\<And>c. now c + kPollInterval \<le> now (sleep kPollInterval c)"
  shows "\<exists>r. wait_loop T now sleep deadline ts c = Some r"
proof (induction "nat (deadline - now c)" arbitrary: ts c rule: less_induct)
  case less
  show ?case
  proof (cases "wait_pass T ts")
    case (Pair r ts')
    have step: "\<exists>r. wait_loop T now sleep deadline ts' (sleep kPollInterval c) = Some r"
      if "\<not> deadline \<le> now c"
      using that adv [of c] by (intro less) (simp add: kPollInterval_def)
    show ?thesis
      by (subst wait_loop.simps)
        (use step in \<open>auto simp: Pair split: sum.splits option.splits\<close>)
  qed
qed

lemma wait_loop_ready:
  assumes ret: "wait_loop T now sleep deadline ts c = Some (Inr (Some i), ts', c')"
  shows "\<exists>us. length us = length ts \<and> wait_pass T us = (Inr (Some i), ts')"
proof (rule wait_loop.raw_induct
    [where P = "\<lambda>T now sleep deadline ts c r. \<forall>i ts' c'. r = (Inr (Some i), ts', c') \<longrightarrow>
       (\<exists>us. length us = length ts \<and> wait_pass T us = (Inr (Some i), ts'))",
     rule_format, OF _ ret refl], goal_cases)
  case (1 f T now sleep deadline ts c r i ts' c')
  then show ?case
    by (fastforce split: prod.splits sum.splits option.splits if_splits dest: wait_pass_length)
qed

section \<open>The mock transport\<close>

record MockTransport =
  mock_incoming :: "byte list"
  mock_read_position :: nat
  mock_written :: "byte list"
  mock_closed :: bool
  mock_serial :: string

definition mock_new :: MockTransport where
  "mock_new = \<lparr>mock_incoming = [], mock_read_position = 0, mock_written = [],
     mock_closed = False, mock_serial = []\<rparr>"

definition mock_feed :: "byte list \<Rightarrow> MockTransport \<Rightarrow> MockTransport" where
  "mock_feed data m = m\<lparr>mock_incoming := mock_incoming m @ data\<rparr>"

definition mock_read :: "MockTransport \<Rightarrow> nat \<Rightarrow> byte list Result \<times> MockTransport" where
  "mock_read m n =
     (let available = length (mock_incoming m) - mock_read_position m;
          count = min available n
      in (Inr (take count (drop (mock_read_position m) (mock_incoming m))),
          m\<lparr>mock_read_position := mock_read_position m + count\<rparr>))"

definition mock_write :: "MockTransport \<Rightarrow> byte list \<Rightarrow> Status \<times> MockTransport" where
  "mock_write m data = (Inr (), m\<lparr>mock_written := mock_written m @ data\<rparr>)"

definition mock_close :: "MockTransport \<Rightarrow> MockTransport" where
  "mock_close m = m\<lparr>mock_closed := True\<rparr>"

definition mock_wait_readable :: "MockTransport \<Rightarrow> int \<Rightarrow> bool Result \<times> MockTransport" where
  "mock_wait_readable m timeout =
     (Inr (mock_read_position m < length (mock_incoming m)), m)"

definition mock_set_serial :: "string \<Rightarrow> MockTransport \<Rightarrow> MockTransport" where
  "mock_set_serial s m = m\<lparr>mock_serial := s\<rparr>"

definition mock_ops :: "MockTransport Transport_ops" where
  "mock_ops = \<lparr>tr_read = mock_read, tr_write = mock_write, tr_close = mock_close,
     tr_serial = mock_serial, tr_wait_readable = mock_wait_readable\<rparr>"

section \<open>The contracts of a link and of a byte channel\<close>

text \<open>
  A link carries bytes. The contract speaks only of buffers below 2 GiB, because the transports hand
  sizes to the operating system as \<open>int\<close>, and it says nothing of a read when no bytes are to come,
  because a silent USB device makes the read fail.
\<close>

locale link =
  fixes T :: "'t Transport_ops"
    and good :: "'t \<Rightarrow> bool"
    and pending :: "'t \<Rightarrow> byte list"
    and sent :: "'t \<Rightarrow> byte list"
  assumes read_some: "\<lbrakk>good t; 0 < n; n < 2 ^ 31; pending t \<noteq> []\<rbrakk> \<Longrightarrow>
      \<exists>bs t'. tr_read T t n = (Inr bs, t') \<and> bs \<noteq> [] \<and> length bs \<le> n \<and> pending t = bs @ pending t'
        \<and> sent t' = sent t \<and> good t'"
    and write_all: "\<lbrakk>good t; length bs < 2 ^ 31\<rbrakk> \<Longrightarrow>
      \<exists>t'. tr_write T t bs = (Inr (), t') \<and> pending t' = pending t \<and> sent t' = sent t @ bs \<and> good t'"

text \<open>A byte channel is a link whose reads report the end of the stream, as a closed socket does.\<close>

locale byte_channel = link T good pending sent
  for T :: "'t Transport_ops" and good :: "'t \<Rightarrow> bool" and pending :: "'t \<Rightarrow> byte list" and sent :: "'t \<Rightarrow> byte list" +
  assumes read_end: "\<lbrakk>good t; 0 < n; n < 2 ^ 31; pending t = []\<rbrakk> \<Longrightarrow>
      \<exists>t'. tr_read T t n = (Inr [], t') \<and> pending t' = [] \<and> sent t' = sent t \<and> good t'"

text \<open>
  The operations of a transport are total functions. A call that may not return is made one by giving
  it an arbitrary error; the transports are shown to return wherever a theorem relies on them.
\<close>

definition or_stuck :: "('a Result \<times> 's) option \<Rightarrow> 's \<Rightarrow> 'a Result \<times> 's" where
  "or_stuck r s = (case r of None \<Rightarrow> (Inl (mk_error Transport ''the call does not return''), s) | Some r \<Rightarrow> r)"

text \<open>The bytes a mock transport still holds, and that it holds them in range.\<close>

definition mock_pending :: "MockTransport \<Rightarrow> byte list" where
  "mock_pending m = drop (mock_read_position m) (mock_incoming m)"

definition mock_good :: "MockTransport \<Rightarrow> bool" where
  "mock_good m \<longleftrightarrow> mock_read_position m \<le> length (mock_incoming m)"

lemma mock_ops_sel [simp]:
  "tr_read mock_ops = mock_read" "tr_write mock_ops = mock_write" "tr_close mock_ops = mock_close"
  "tr_serial mock_ops = mock_serial" "tr_wait_readable mock_ops = mock_wait_readable"
  by (simp_all add: mock_ops_def)

interpretation mock: byte_channel mock_ops mock_good mock_pending mock_written
proof
  fix t and n :: nat
  assume "mock_good t" "0 < n" "mock_pending t \<noteq> []" "n < 2 ^ 31"
  then show "\<exists>bs t'. tr_read mock_ops t n = (Inr bs, t') \<and> bs \<noteq> [] \<and> length bs \<le> n
      \<and> mock_pending t = bs @ mock_pending t' \<and> mock_written t' = mock_written t \<and> mock_good t'"
    by (auto simp: mock_read_def mock_pending_def mock_good_def Let_def min_def)
qed (auto simp: mock_read_def mock_write_def mock_pending_def mock_good_def)

text \<open>Feeding bytes and reading them back is first in, first out.\<close>

lemma mock_pending_feed:
  "mock_good m \<Longrightarrow> mock_pending (mock_feed data m) = mock_pending m @ data"
  by (simp add: mock_pending_def mock_feed_def mock_good_def)

lemma mock_good_new [simp]: "mock_good mock_new"
  by (simp add: mock_good_def mock_new_def)

lemma mock_good_feed [simp]: "mock_good m \<Longrightarrow> mock_good (mock_feed data m)"
  by (simp add: mock_good_def mock_feed_def)

lemma mock_pending_new [simp]: "mock_pending mock_new = []"
  by (simp add: mock_pending_def mock_new_def)

lemma mock_written_feed [simp]: "mock_written (mock_feed data m) = mock_written m"
  by (simp add: mock_feed_def)

lemma mock_written_new [simp]: "mock_written mock_new = []"
  by (simp add: mock_new_def)

section \<open>Properties\<close>

text \<open>A wait that comes back empty-handed has reached its deadline, with no transport ready.\<close>

lemma wait_loop_none:
  assumes ret: "wait_loop T now sleep deadline ts c = Some (Inr None, ts', c')"
  shows "deadline \<le> now c'"
proof (rule wait_loop.raw_induct
    [where P = "\<lambda>T now sleep deadline ts c r. \<forall>ts' c'. r = (Inr None, ts', c') \<longrightarrow> deadline \<le> now c'",
     rule_format, OF _ ret refl], goal_cases)
  case (1 f T now sleep deadline ts c r ts' c')
  then show ?case
    by (fastforce split: prod.splits sum.splits option.splits if_splits)
qed



end
