(* ===== verification/Adb_Session.thy ===== *)
theory Adb_Session
  imports Adb_Transport
begin

text \<open>
  The framed session of \<open>include/adbcpp/session.hpp\<close> and \<open>src/session.cpp\<close>: sending a header
  and its payload, receiving and validating one frame, closing, and moving.

  A \<open>Session\<close> holds a pointer to its transport and a flag; the model holds the transport's state.
  Calls to the logger are left out: they write to a sink of the application and change nothing a
  session reads. \<open>read_exact\<close> loops until its buffer is full; every round adds at least one byte,
  which is its termination argument.

  \<open>parse_frame\<close> is the specification of receiving: a function of the bytes alone that says
  which frame they hold, whether they end early, or how they violate the framing. The lemmas of
  the locale \<open>byte_channel\<close> show that \<open>session_receive\<close> computes it over any channel, however the
  channel splits the bytes.
\<close>

section \<open>Frames and log descriptions\<close>

record Frame =
  header :: Message
  payload :: "byte list"

lemma Frame_eta: "\<lparr>header = header f, payload = payload f\<rparr> = f"
  by (cases f) simp

definition command_name :: "u32 \<Rightarrow> string" where
  "command_name c =
     (if c = kCnxn then ''CNXN'' else if c = kAuth then ''AUTH'' else if c = kOpen then ''OPEN''
      else if c = kOkay then ''OKAY'' else if c = kClse then ''CLSE'' else if c = kWrte then ''WRTE''
      else if c = kSync then ''SYNC'' else ''????'')"

definition describe :: "Message \<Rightarrow> string" where
  "describe h = command_name (command h) @ '' arg0='' @ to_string (unat (arg0 h))
     @ '' arg1='' @ to_string (unat (arg1 h))
     @ '' data_length='' @ to_string (unat (data_length h))"

section \<open>Reading a whole buffer\<close>

text \<open>
  \<open>buf\<close> is the part of the buffer that is filled already, \<open>size\<close> the size of the whole buffer.
\<close>

function read_exact_from ::
  "'t Transport_ops \<Rightarrow> nat \<Rightarrow> byte list \<Rightarrow> 't \<Rightarrow> byte list Result \<times> 't" where
  "read_exact_from T sz buf t =
     (if length buf < sz then
        (case tr_read T t (sz - length buf) of
           (Inl e, t') \<Rightarrow> (Inl e, t')
         | (Inr bs, t') \<Rightarrow>
             if length bs = 0 then (Inl (mk_error Protocol ''unexpected end of stream''), t')
             else read_exact_from T sz (buf @ bs) t')
      else (Inr buf, t))"
  by pat_completeness auto
termination
  by (relation "measure (\<lambda>(T, sz, buf, t). sz - length buf)") (auto intro!: diff_less_mono2)

declare read_exact_from.simps [simp del]

definition read_exact :: "'t Transport_ops \<Rightarrow> nat \<Rightarrow> 't \<Rightarrow> byte list Result \<times> 't" where
  "read_exact T sz t = read_exact_from T sz [] t"

section \<open>The session\<close>

record 't Session =
  sess_transport :: 't
  sess_closed :: bool

definition session_new :: "'t \<Rightarrow> 't Session" where
  "session_new t = \<lparr>sess_transport = t, sess_closed = False\<rparr>"

definition session_is_open :: "'t Session \<Rightarrow> bool" where
  "session_is_open s \<longleftrightarrow> \<not> sess_closed s"

definition session_serial :: "'t Transport_ops \<Rightarrow> 't Session \<Rightarrow> string" where
  "session_serial T s = tr_serial T (sess_transport s)"

definition session_close :: "'t Transport_ops \<Rightarrow> 't Session \<Rightarrow> 't Session" where
  "session_close T s =
     (if sess_closed s then s
      else s\<lparr>sess_closed := True, sess_transport := tr_close T (sess_transport s)\<rparr>)"

text \<open>Moving a session yields the new session and the marked, moved-from one.\<close>

definition session_move :: "'t Session \<Rightarrow> 't Session \<times> 't Session" where
  "session_move other = (other, other\<lparr>sess_closed := True\<rparr>)"

text \<open>Move assignment: the transport is borrowed, so the one this session held is not closed.\<close>

definition session_move_assign :: "'t Session \<Rightarrow> 't Session \<Rightarrow> 't Session \<times> 't Session" where
  "session_move_assign this other =
     (this\<lparr>sess_transport := sess_transport other, sess_closed := sess_closed other\<rparr>,
      other\<lparr>sess_closed := True\<rparr>)"

definition framing_error :: "'t Transport_ops \<Rightarrow> string \<Rightarrow> 't Session \<Rightarrow> Error \<times> 't Session" where
  "framing_error T m s = (mk_error Protocol m, session_close T s)"

definition session_send ::
  "'t Transport_ops \<Rightarrow> Message \<Rightarrow> byte list \<Rightarrow> 't Session \<Rightarrow> Status \<times> 't Session" where
  "session_send T h p s =
     (if sess_closed s then (Inl (mk_error Transport ''the session is closed''), s)
      else if unat (data_length h) \<noteq> length p then
        (Inl (mk_error InvalidArgument ''the header data_length does not match the payload''), s)
      else
        (case tr_write T (sess_transport s) (encode h) of
           (Inl e, t) \<Rightarrow> (Inl e, s\<lparr>sess_transport := t\<rparr>)
         | (Inr _, t) \<Rightarrow>
             if p \<noteq> [] then
               (case tr_write T t p of
                  (Inl e, t') \<Rightarrow> (Inl e, s\<lparr>sess_transport := t'\<rparr>)
                | (Inr _, t') \<Rightarrow> (Inr (), s\<lparr>sess_transport := t'\<rparr>))
             else (Inr (), s\<lparr>sess_transport := t\<rparr>)))"

text \<open>The second half of \<open>Session::receive\<close>: the payload of a header that passed its checks.\<close>

definition receive_payload ::
  "'t Transport_ops \<Rightarrow> Message \<Rightarrow> 't Session \<Rightarrow> Frame Result \<times> 't Session" where
  "receive_payload T h s =
     (if unat (data_length h) = 0 then (Inr \<lparr>header = h, payload = []\<rparr>, s)
      else
        (case read_exact T (unat (data_length h)) (sess_transport s) of
           (Inl e, t) \<Rightarrow> (Inl e, s\<lparr>sess_transport := t\<rparr>)
         | (Inr p, t) \<Rightarrow>
             if data_check h \<noteq> 0 \<and> data_check h \<noteq> compute_checksum p then
               (let (e, s') = framing_error T ''the header payload checksum does not match the payload''
                                (s\<lparr>sess_transport := t\<rparr>) in (Inl e, s'))
             else (Inr \<lparr>header = h, payload = p\<rparr>, s\<lparr>sess_transport := t\<rparr>)))"

definition session_receive :: "'t Transport_ops \<Rightarrow> 't Session \<Rightarrow> Frame Result \<times> 't Session" where
  "session_receive T s =
     (if sess_closed s then (Inl (mk_error Transport ''the session is closed''), s)
      else
        (case read_exact T kMessageHeaderSize (sess_transport s) of
           (Inl e, t) \<Rightarrow> (Inl e, s\<lparr>sess_transport := t\<rparr>)
         | (Inr bytes, t) \<Rightarrow>
             let h = decode bytes; s1 = s\<lparr>sess_transport := t\<rparr> in
             if magic h \<noteq> compute_magic (command h) then
               (let (e, s') = framing_error T ''the header magic does not match its command'' s1
                in (Inl e, s'))
             else if kMaxData < data_length h then
               (let (e, s') = framing_error T ''the header payload length is past the maximum'' s1
                in (Inl e, s'))
             else receive_payload T h s1))"

section \<open>Behaviour of a closed or moved-from session\<close>

lemma session_close_closed [simp]: "sess_closed (session_close T s)"
  by (simp add: session_close_def)

lemma session_close_idem: "session_close T (session_close T s) = session_close T s"
  by (simp add: session_close_def)

lemma session_send_closed:
  "sess_closed s \<Longrightarrow> session_send T h p s = (Inl (mk_error Transport ''the session is closed''), s)"
  by (simp add: session_send_def)

lemma session_receive_closed:
  "sess_closed s \<Longrightarrow> session_receive T s = (Inl (mk_error Transport ''the session is closed''), s)"
  by (simp add: session_receive_def)

lemma session_move_from_close:
  "session_move s = (s', old) \<Longrightarrow> s' = s \<and> session_close T old = old"
  by (auto simp: session_move_def session_close_def)

text \<open>A session never reopens.\<close>

lemma session_send_keeps_closed:
  "session_send T h p s = (r, s') \<Longrightarrow> sess_closed s' = sess_closed s"
  by (auto simp: session_send_def split: if_splits prod.splits sum.splits)

lemma receive_payload_keeps_closed:
  "receive_payload T h s = (r, s') \<Longrightarrow> sess_closed s \<Longrightarrow> sess_closed s'"
  by (auto simp: receive_payload_def framing_error_def session_close_def
      split: if_splits prod.splits sum.splits)

lemma session_receive_keeps_closed:
  "session_receive T s = (r, s') \<Longrightarrow> sess_closed s \<Longrightarrow> sess_closed s'"
  by (simp add: session_receive_closed)

section \<open>The specification of receiving\<close>

datatype parsed = Got Frame | Short | Framing string

definition parse_frame :: "byte list \<Rightarrow> parsed \<times> byte list" where
  "parse_frame bs =
     (if length bs < kMessageHeaderSize then (Short, [])
      else let h = decode (take kMessageHeaderSize bs); rest = drop kMessageHeaderSize bs;
               n = unat (data_length h) in
        if magic h \<noteq> compute_magic (command h) then
          (Framing ''the header magic does not match its command'', rest)
        else if kMaxData < data_length h then
          (Framing ''the header payload length is past the maximum'', rest)
        else if length rest < n then (Short, [])
        else if n \<noteq> 0 \<and> data_check h \<noteq> 0 \<and> data_check h \<noteq> compute_checksum (take n rest) then
          (Framing ''the header payload checksum does not match the payload'', drop n rest)
        else (Got \<lparr>header = h, payload = take n rest\<rparr>, drop n rest))"

definition encode_frame :: "Frame \<Rightarrow> byte list" where
  "encode_frame f = encode (header f) @ payload f"

text \<open>The frames the protocol admits: what a receiver accepts.\<close>

definition valid_frame :: "Frame \<Rightarrow> bool" where
  "valid_frame f \<longleftrightarrow>
     magic (header f) = compute_magic (command (header f))
     \<and> unat (data_length (header f)) = length (payload f)
     \<and> length (payload f) \<le> unat kMaxData
     \<and> (payload f \<noteq> [] \<longrightarrow>
          data_check (header f) = 0 \<or> data_check (header f) = compute_checksum (payload f))"

lemma parse_frame_encode:
  assumes "valid_frame f"
  shows "parse_frame (encode_frame f @ bs) = (Got f, bs)"
proof -
  have "\<not> kMaxData < data_length (header f)"
    using assms by (simp add: valid_frame_def word_less_nat_alt)
  with assms show ?thesis
    by (auto simp: parse_frame_def encode_frame_def valid_frame_def Let_def take_eq_appendI)
qed

lemma parse_frame_Got:
  assumes "parse_frame bs = (Got f, rest)"
  shows "bs = encode_frame f @ rest \<and> valid_frame f"
proof -
  define h where "h = decode (take kMessageHeaderSize bs)"
  define n where "n = unat (data_length h)"
  define body where "body = drop kMessageHeaderSize bs"
  have len: "kMessageHeaderSize \<le> length bs"
    using assms by (auto simp: parse_frame_def split: if_splits)
  have checks: "magic h = compute_magic (command h)" "\<not> kMaxData < data_length h" "n \<le> length body"
    "n \<noteq> 0 \<Longrightarrow> data_check h = 0 \<or> data_check h = compute_checksum (take n body)"
    and res: "f = \<lparr>header = h, payload = take n body\<rparr>" "rest = drop n body"
    using assms len unfolding parse_frame_def h_def n_def body_def
    by (auto simp: Let_def split: if_splits)
  have "encode h = take kMessageHeaderSize bs"
    unfolding h_def using len by (intro encode_decode_eq) simp
  then have "bs = encode_frame f @ rest"
    by (simp add: encode_frame_def res body_def del: drop_drop)
  moreover have "valid_frame f"
    using checks by (auto simp: valid_frame_def res n_def word_less_nat_alt)
  ultimately show ?thesis by blast
qed

lemma parse_frame_shrinks: "parse_frame bs = (Got f, rest) \<Longrightarrow> length rest < length bs"
  by (drule parse_frame_Got) (simp add: encode_frame_def kMessageHeaderSize_def)

section \<open>Sessions over a byte channel\<close>

text \<open>
  The state of an open session whose channel is in good order, the bytes it has still to receive
  and the bytes it has sent, over the observations of the channel.
\<close>

definition live :: "('t \<Rightarrow> bool) \<Rightarrow> 't Session \<Rightarrow> bool" where
  "live good s \<longleftrightarrow> \<not> sess_closed s \<and> good (sess_transport s)"

definition inbox :: "('t \<Rightarrow> byte list) \<Rightarrow> 't Session \<Rightarrow> byte list" where
  "inbox pending s = pending (sess_transport s)"

definition outbox :: "('t \<Rightarrow> byte list) \<Rightarrow> 't Session \<Rightarrow> byte list" where
  "outbox sent s = sent (sess_transport s)"

text \<open>
  \<open>wire fs\<close> is the byte sequence of a list of frames. A session is at stage \<open>(fs, out)\<close> when the
  peer's bytes are the frames \<open>fs\<close> and the session has sent the frames \<open>out\<close> after \<open>base\<close>.
\<close>

definition wire :: "Frame list \<Rightarrow> byte list" where
  "wire fs = concat (map encode_frame fs)"

lemma wire_simps [simp]:
  "wire [] = []" "wire (f # fs) = encode_frame f @ wire fs" "wire (fs @ gs) = wire fs @ wire gs"
  by (simp_all add: wire_def)

definition stage ::
  "('t \<Rightarrow> bool) \<Rightarrow> ('t \<Rightarrow> byte list) \<Rightarrow> ('t \<Rightarrow> byte list) \<Rightarrow> byte list \<Rightarrow> 't Session
     \<Rightarrow> Frame list \<Rightarrow> Frame list \<Rightarrow> bool" where
  "stage good pending sent base s fs out \<longleftrightarrow>
     live good s \<and> inbox pending s = wire fs \<and> outbox sent s = base @ wire out \<and> list_all valid_frame fs"

context link
begin

text \<open>\<open>read_exact\<close> gathers exactly the next bytes.\<close>

lemma read_exact_from_data:
  assumes "good t" "length buf \<le> sz" "sz < 2 ^ 31" "sz - length buf \<le> length (pending t)"
  shows "\<exists>t'. read_exact_from T sz buf t = (Inr (buf @ take (sz - length buf) (pending t)), t')
    \<and> pending t' = drop (sz - length buf) (pending t) \<and> sent t' = sent t \<and> good t'"
  using assms
proof (induction "sz - length buf" arbitrary: buf t rule: less_induct)
  case less
  show ?case
  proof (cases "length buf < sz")
    case False
    with less.prems show ?thesis by (simp add: read_exact_from.simps)
  next
    case True
    with less.prems have "0 < sz - length buf" "sz - length buf < 2 ^ 31" "pending t \<noteq> []" by auto
    with read_some [OF less.prems(1) this] obtain bs t' where
      rd: "tr_read T t (sz - length buf) = (Inr bs, t')" "bs \<noteq> []" "length bs \<le> sz - length buf"
        "pending t = bs @ pending t'" "sent t' = sent t" "good t'"
      by auto
    have "length (buf @ bs) \<le> sz" "sz - length (buf @ bs) < sz - length buf"
      "sz - length (buf @ bs) \<le> length (pending t')"
      using rd True less.prems(4) by (simp_all add: diff_less_mono2)
    with less.hyps [OF this(2) rd(6) this(1) less.prems(3) this(3)] rd True show ?thesis
      by (auto simp: read_exact_from.simps [of T sz buf t])
  qed
qed

lemma read_exact_data:
  assumes "good t" "n < 2 ^ 31" "n \<le> length (pending t)"
  obtains t' where "read_exact T n t = (Inr (take n (pending t)), t')" "pending t' = drop n (pending t)"
    "sent t' = sent t" "good t'"
  using read_exact_from_data [OF assms(1), of "[]" n] assms(2,3) that by (auto simp: read_exact_def)

lemma session_receive_frame:
  assumes "live good s" "inbox pending s = encode_frame f @ rest" "valid_frame f"
  obtains s' where "session_receive T s = (Inr f, s')" "live good s'" "inbox pending s' = rest"
    "outbox sent s' = outbox sent s"
proof -
  let ?t = "sess_transport s" and ?h = "header f" and ?p = "payload f"
  have p: "pending ?t = encode ?h @ ?p @ rest" using assms(2) by (simp add: inbox_def encode_frame_def)
  have valid: "magic ?h = compute_magic (command ?h)" "\<not> kMaxData < data_length ?h"
    "unat (data_length ?h) = length ?p" "length ?p < 2 ^ 31"
    "?p \<noteq> [] \<Longrightarrow> data_check ?h = 0 \<or> data_check ?h = compute_checksum ?p"
    using assms(3) by (auto simp: valid_frame_def word_less_nat_alt)
  obtain t1 where t1: "read_exact T kMessageHeaderSize ?t = (Inr (encode ?h), t1)" "pending t1 = ?p @ rest"
    "sent t1 = sent ?t" "good t1"
    using read_exact_data [of ?t kMessageHeaderSize] assms(1) p
    by (auto simp: live_def kMessageHeaderSize_def)
  obtain t2 where t2: "read_exact T (length ?p) t1 = (Inr ?p, t2)" "pending t2 = rest" "sent t2 = sent t1" "good t2"
    using read_exact_data [OF t1(4) valid(4)] t1(2) by auto
  have "session_receive T s = (Inr f, s\<lparr>sess_transport := if ?p = [] then t1 else t2\<rparr>)"
    using assms(1) t1(1) t2(1) valid
    by (auto simp: session_receive_def receive_payload_def live_def Let_def Frame_eta)
  then show thesis
    by (rule that) (use assms(1) t1 t2 in \<open>auto simp: live_def inbox_def outbox_def\<close>)
qed

text \<open>Sending appends exactly the encoded frame; a header that disagrees writes nothing.\<close>

lemma session_send_frame:
  assumes "live good s" "unat (data_length h) = length p" "length p < 2 ^ 31"
  obtains s' where "session_send T h p s = (Inr (), s')" "live good s'" "inbox pending s' = inbox pending s"
    "outbox sent s' = outbox sent s @ encode_frame \<lparr>header = h, payload = p\<rparr>"
proof -
  let ?t = "sess_transport s"
  have "length (encode h) < 2 ^ 31" by (simp add: kMessageHeaderSize_def)
  with write_all [of ?t "encode h"] assms obtain t1 where 1: "tr_write T ?t (encode h) = (Inr (), t1)"
      "pending t1 = pending ?t" "sent t1 = sent ?t @ encode h" "good t1"
    by (auto simp: live_def)
  with write_all [of t1 p] assms(3) obtain t2 where 2: "tr_write T t1 p = (Inr (), t2)" "pending t2 = pending t1"
      "sent t2 = sent t1 @ p" "good t2"
    by auto
  show thesis
    by (rule that [of "s\<lparr>sess_transport := if p = [] then t1 else t2\<rparr>"])
      (use assms 1 2 in \<open>auto simp: session_send_def live_def inbox_def outbox_def encode_frame_def\<close>)
qed

lemma stage_send:
  assumes "stage good pending sent base s fs out" "unat (data_length h) = length p" "length p < 2 ^ 31"
  obtains s' where "session_send T h p s = (Inr (), s')"
    "stage good pending sent base s' fs (out @ [\<lparr>header = h, payload = p\<rparr>])"
  using assms by (auto simp: stage_def elim!: session_send_frame [of s h p])

lemma stage_receive:
  assumes "stage good pending sent base s (f # fs) out"
  obtains s' where "session_receive T s = (Inr f, s')" "stage good pending sent base s' fs out"
  using assms by (auto simp: stage_def elim!: session_receive_frame [of s f "wire fs"])

end

context byte_channel
begin

text \<open>When the stream ends before the buffer is full, \<open>read_exact\<close> uses up what there is and reports it.\<close>

lemma read_exact_from_short:
  assumes "good t" "length buf \<le> sz" "sz < 2 ^ 31" "length (pending t) < sz - length buf"
  shows "\<exists>t'. read_exact_from T sz buf t = (Inl (mk_error Protocol ''unexpected end of stream''), t')
    \<and> pending t' = [] \<and> sent t' = sent t \<and> good t'"
  using assms
proof (induction "sz - length buf" arbitrary: buf t rule: less_induct)
  case less
  let ?n = "sz - length buf"
  have n: "0 < ?n" "?n < 2 ^ 31" "length buf < sz" using less.prems by auto
  show ?case
  proof (cases "pending t = []")
    case True
    with read_end [OF less.prems(1) n(1,2)] n(3) show ?thesis by (auto simp: read_exact_from.simps)
  next
    case False
    with read_some [OF less.prems(1) n(1,2)] obtain bs t' where
      rd: "tr_read T t ?n = (Inr bs, t')" "bs \<noteq> []" "length bs \<le> ?n" "pending t = bs @ pending t'"
        "sent t' = sent t" "good t'"
      by auto
    have "length (buf @ bs) \<le> sz" "sz - length (buf @ bs) < ?n" "length (pending t') < sz - length (buf @ bs)"
      using rd n(3) less.prems(4) by (simp_all add: diff_less_mono2)
    with less.hyps [OF this(2) rd(6) this(1) less.prems(3) this(3)] rd n(3) show ?thesis
      by (auto simp: read_exact_from.simps [of T sz buf t])
  qed
qed

lemma read_exact_spec:
  assumes "good t" "n < 2 ^ 31"
  shows "\<exists>t'. read_exact T n t =
      ((if n \<le> length (pending t) then Inr (take n (pending t))
        else Inl (mk_error Protocol ''unexpected end of stream'')), t')
    \<and> pending t' = drop n (pending t) \<and> sent t' = sent t \<and> good t'"
proof (cases "n \<le> length (pending t)")
  case True
  with read_exact_data [OF assms True] show ?thesis by auto
next
  case False
  with read_exact_from_short [OF assms(1), of "[]" n] assms(2) show ?thesis by (auto simp: read_exact_def)
qed

text \<open>Receiving computes \<open>parse_frame\<close> on the bytes of the channel.\<close>

lemma session_receive_refines:
  assumes "live good s"
  shows "case parse_frame (inbox pending s) of
      (Got f, rest) \<Rightarrow> \<exists>s'. session_receive T s = (Inr f, s') \<and> live good s' \<and> inbox pending s' = rest
        \<and> outbox sent s' = outbox sent s
    | (Short, rest) \<Rightarrow> \<exists>s'. session_receive T s = (Inl (mk_error Protocol ''unexpected end of stream''), s')
        \<and> live good s' \<and> inbox pending s' = [] \<and> outbox sent s' = outbox sent s
    | (Framing m, rest) \<Rightarrow> \<exists>s'. session_receive T s = (Inl (mk_error Protocol m), s') \<and> sess_closed s'"
proof -
  let ?t = "sess_transport s" and ?N = kMessageHeaderSize
  have N: "?N < 2 ^ 31" by (simp add: kMessageHeaderSize_def)
  obtain t1 where hd: "read_exact T ?N ?t =
      ((if ?N \<le> length (pending ?t) then Inr (take ?N (pending ?t))
        else Inl (mk_error Protocol ''unexpected end of stream'')), t1)"
    and t1: "pending t1 = drop ?N (pending ?t)" "sent t1 = sent ?t" "good t1"
    using read_exact_spec [OF _ N, of ?t] assms by (auto simp: live_def)
  define h where "h = decode (take ?N (pending ?t))"
  note defs = session_receive_def parse_frame_def inbox_def outbox_def live_def receive_payload_def
    framing_error_def Let_def
  consider (short) "\<not> ?N \<le> length (pending ?t)" | (long) "?N \<le> length (pending ?t)" "kMaxData < data_length h"
    | (fits) "?N \<le> length (pending ?t)" "\<not> kMaxData < data_length h"
    by blast
  then show ?thesis
  proof cases
    case short
    with assms hd t1 show ?thesis by (simp add: defs)
  next
    case long
    with assms hd t1 show ?thesis by (auto simp: defs h_def)
  next
    case fits
    then have n: "unat (data_length h) < 2 ^ 31" by (simp add: word_less_nat_alt)
    obtain t2 where pl: "read_exact T (unat (data_length h)) t1 =
        ((if unat (data_length h) \<le> length (pending t1) then Inr (take (unat (data_length h)) (pending t1))
          else Inl (mk_error Protocol ''unexpected end of stream'')), t2)"
      and t2: "pending t2 = drop (unat (data_length h)) (pending t1)" "sent t2 = sent t1" "good t2"
      using read_exact_spec [OF t1(3) n] by auto
    from fits assms hd t1 pl [unfolded h_def] t2 [unfolded h_def] show ?thesis
      by (auto simp: defs)
  qed
qed

lemma session_receive_end:
  assumes "live good s" "inbox pending s = []"
  obtains s' where
    "session_receive T s = (Inl (mk_error Protocol ''unexpected end of stream''), s')" "live good s'"
    "inbox pending s' = []" "outbox sent s' = outbox sent s"
  using session_receive_refines [OF assms(1)] assms(2)
  by (auto simp: parse_frame_def kMessageHeaderSize_def)

lemma stage_receive_end:
  assumes "stage good pending sent base s [] out"
  obtains s' where
    "session_receive T s = (Inl (mk_error Protocol ''unexpected end of stream''), s')"
    "stage good pending sent base s' [] out"
  using assms by (auto simp: stage_def elim!: session_receive_end [of s])

end

section \<open>Properties\<close>



text \<open>
  Sending a list of frames, and receiving a number of them, stopping at the first error.
\<close>

fun send_frames :: "'t Transport_ops \<Rightarrow> Frame list \<Rightarrow> 't Session \<Rightarrow> Status \<times> 't Session" where
  "send_frames T [] s = (Inr (), s)"
| "send_frames T (f # fs) s = bind_st (session_send T (header f) (payload f)) (\<lambda>_. send_frames T fs) s"

fun receive_frames :: "'t Transport_ops \<Rightarrow> nat \<Rightarrow> 't Session \<Rightarrow> Frame list Result \<times> 't Session" where
  "receive_frames T 0 s = (Inr [], s)"
| "receive_frames T (Suc n) s =
     bind_st (session_receive T)
       (\<lambda>f. bind_st (receive_frames T n) (\<lambda>fs. ok_st (f # fs))) s"

context link
begin

lemma send_frames_wire:
  assumes "live good s" "list_all valid_frame fs"
  shows "\<exists>s'. send_frames T fs s = (Inr (), s') \<and> live good s' \<and> inbox pending s' = inbox pending s
    \<and> outbox sent s' = outbox sent s @ wire fs"
  using assms
proof (induction fs arbitrary: s)
  case (Cons f fs)
  then have "unat (data_length (header f)) = length (payload f)" "length (payload f) < 2 ^ 31"
    by (auto simp: valid_frame_def)
  with session_send_frame [OF Cons.prems(1) this] obtain s1 where
    1: "session_send T (header f) (payload f) s = (Inr (), s1)" "live good s1" "inbox pending s1 = inbox pending s"
      "outbox sent s1 = outbox sent s @ encode_frame f"
    by (auto simp: Frame_eta)
  with Cons.IH [of s1] Cons.prems show ?case by (auto simp: seq_simps)
qed simp

lemma receive_frames_wire:
  assumes "live good s" "list_all valid_frame fs" "inbox pending s = wire fs @ rest"
  shows "\<exists>s'. receive_frames T (length fs) s = (Inr fs, s') \<and> live good s' \<and> inbox pending s' = rest
    \<and> outbox sent s' = outbox sent s"
  using assms
proof (induction fs arbitrary: s)
  case (Cons f fs)
  then have "inbox pending s = encode_frame f @ (wire fs @ rest)" "valid_frame f" by simp_all
  from session_receive_frame [OF Cons.prems(1) this] obtain s1 where
    1: "session_receive T s = (Inr f, s1)" "live good s1" "inbox pending s1 = wire fs @ rest"
      "outbox sent s1 = outbox sent s"
    by auto
  with Cons.IH [of s1] Cons.prems show ?case by (auto simp: seq_simps)
qed simp

end

text \<open>
  C7. Frames sent over one link and received over another come back as they were, in order and
  complete, whatever sizes the two links read and write in: framing loses and merges nothing.
\<close>

theorem frames_round_trip:
  assumes "link T good pending sent" "link T' good' pending' sent'"
    and "live good s" "outbox sent s = []" "list_all valid_frame fs"
  shows "\<exists>s'. send_frames T fs s = (Inr (), s')
    \<and> (\<forall>r. live good' r \<longrightarrow> inbox pending' r = outbox sent s' \<longrightarrow>
         (\<exists>r'. receive_frames T' (length fs) r = (Inr fs, r') \<and> inbox pending' r' = []))"
proof -
  obtain s' where "send_frames T fs s = (Inr (), s')" "outbox sent s' = wire fs"
    using link.send_frames_wire [OF assms(1,3,5)] assms(4) by auto
  with link.receive_frames_wire [OF assms(2) _ assms(5), of _ "[]"] show ?thesis by auto
qed

definition sample_frame :: Frame where
  "sample_frame = \<lparr>header = \<lparr>command = kWrte, arg0 = 2, arg1 = 7, data_length = 3, data_check = 24,
     magic = compute_magic kWrte\<rparr>, payload = [7, 8, 9]\<rparr>"

lemma valid_sample_frame [simp]: "valid_frame sample_frame"
  by (simp add: valid_frame_def sample_frame_def)

theorem frames_round_trip_witness:
  "\<exists>s'. send_frames mock_ops [sample_frame, sample_frame] (session_new mock_new) = (Inr (), s')
    \<and> (\<forall>r. live mock_good r \<longrightarrow> inbox mock_pending r = outbox mock_written s' \<longrightarrow>
         (\<exists>r'. receive_frames mock_ops 2 r = (Inr [sample_frame, sample_frame], r')
            \<and> inbox mock_pending r' = []))"
  using frames_round_trip [OF mock.link_axioms mock.link_axioms,
      of "session_new mock_new" "[sample_frame, sample_frame]"]
  by (simp add: live_def session_new_def outbox_def numeral_2_eq_2 del: receive_frames.simps)

text \<open>
  A transport that keeps to the buffer it is given, the contract of \<open>Transport::read\<close>, fills the
  buffers of \<open>read_exact\<close> exactly. The contract speaks of buffers below 2 GiB, because the size is
  handed to the operating system as an \<open>int\<close>; a session's buffers are at most the largest payload.
\<close>

locale bounded_reads =
  fixes T :: "'t Transport_ops"
  assumes read_bounded: "n < 2 ^ 31 \<Longrightarrow> tr_read T t n = (Inr bs, t') \<Longrightarrow> length bs \<le> n"
begin

lemma read_exact_length:
  assumes "read_exact T sz t = (Inr bs, t')" "sz < 2 ^ 31"
  shows "length bs = sz"
proof -
  have "read_exact_from T sz buf t = (Inr bs, t') \<Longrightarrow> length buf \<le> sz \<Longrightarrow> length bs = sz" for buf t
  proof (induction "sz - length buf" arbitrary: buf t rule: less_induct)
    case less
    show ?case
    proof (cases "length buf < sz")
      case False
      with less.prems show ?thesis by (simp add: read_exact_from.simps)
    next
      case True
      with less.prems(1) obtain xs t1 where xs: "tr_read T t (sz - length buf) = (Inr xs, t1)" "xs \<noteq> []"
        "read_exact_from T sz (buf @ xs) t1 = (Inr bs, t')"
        by (subst (asm) read_exact_from.simps) (auto split: prod.splits sum.splits if_splits)
      have "length xs \<le> sz - length buf" "0 < length xs"
        using read_bounded [OF _ xs(1)] assms(2) xs(2) by auto
      with True show ?thesis
        by (intro less.hyps [OF _ xs(3)]) (simp_all del: length_greater_0_conv)
    qed
  qed
  with assms(1) show ?thesis by (auto simp: read_exact_def)
qed

lemma read_exact_payload:
  "\<not> kMaxData < w \<Longrightarrow> read_exact T (unat w) t = (Inr bs, t') \<Longrightarrow> length bs = unat w"
  by (rule read_exact_length) (simp_all add: word_less_nat_alt)

lemma session_receive_valid:
  assumes "session_receive T s = (Inr f, s')"
  shows "valid_frame f" "\<not> sess_closed s'"
  using assms read_exact_payload unat_kMaxData
  by (fastforce simp: session_receive_def receive_payload_def framing_error_def valid_frame_def Let_def
      word_less_nat_alt not_less simp del: unat_kMaxData split: if_splits prod.splits sum.splits)+

end

interpretation mock_reads: bounded_reads mock_ops
  by unfold_locales (auto simp: mock_read_def Let_def)



end
