(* ===== verification/Adb_Connection.thy ===== *)
theory Adb_Connection
  imports Adb_Session
begin

text \<open>
  The connection of \<open>include/adbcpp/connection.hpp\<close> and \<open>src/connection.cpp\<close>: the host banner,
  the parsing of the device banner, the CNXN/AUTH handshake, and the feature queries the services
  above select their protocol variants with.

  The preprocessor symbols of the build are the record \<open>Build\<close>. The signer is a function of the
  token (a \<open>std::function\<close>, empty when it is \<open>None\<close>). \<open>connect\<close> returns the status and the
  local \<open>connection\<close> object, which the C++ code hands to the caller when the status is a success.

  \<open>handshake\<close> specifies the exchange as a function of the frames the device sends: the frames
  the host answers with, and the outcome. The locale lemmas show that \<open>connect\<close> implements it.
\<close>

section \<open>The build and the host banner\<close>

record Build =
  has_zstd :: bool
  has_lz4 :: bool
  has_brotli :: bool

text \<open>\<open>ADBCPP_HAS_COMPRESSION\<close> is defined exactly when one of the codecs is built.\<close>

definition has_compression :: "Build \<Rightarrow> bool" where
  "has_compression b \<longleftrightarrow> has_zstd b \<or> has_lz4 b \<or> has_brotli b"

definition kSystemIdentity :: string where
  "kSystemIdentity = ''host::features=shell_v2,stat_v2,ls_v2''"

definition kDelayedAckFeature :: string where
  "kDelayedAckFeature = ''delayed_ack''"

definition host_identity :: "Build \<Rightarrow> bool \<Rightarrow> string" where
  "host_identity b advertise_delayed_ack =
     kSystemIdentity
     @ (if has_compression b then
          '',sendrecv_v2''
          @ (if has_zstd b then '',sendrecv_v2_zstd'' else [])
          @ (if has_lz4 b then '',sendrecv_v2_lz4'' else [])
          @ (if has_brotli b then '',sendrecv_v2_brotli'' else [])
        else [])
     @ (if advertise_delayed_ack then '','' @ kDelayedAckFeature else [])"

section \<open>Parsing the device banner\<close>

definition parse_property :: "string \<Rightarrow> string \<Rightarrow> string" where
  "parse_property banner key =
     (case str_find key banner of
        None \<Rightarrow> []
      | Some position \<Rightarrow>
          let val = drop (position + length key) banner in
          (case str_find '';'' val of None \<Rightarrow> val | Some e \<Rightarrow> take e val))"

text \<open>The loop of \<open>parse_features\<close>, from the index \<open>start\<close> of the list.\<close>

function parse_features_from :: "string \<Rightarrow> nat \<Rightarrow> string list" where
  "parse_features_from xs start =
     (if start \<le> length xs then
        (case str_find_from '','' xs start of
           None \<Rightarrow> if start < length xs then [drop start xs] else []
         | Some comma \<Rightarrow>
             (if start < comma then [take (comma - start) (drop start xs)] else [])
             @ parse_features_from xs (comma + 1))
      else [])"
  by pat_completeness auto
termination
  by (relation "measure (\<lambda>(xs, start). Suc (length xs) - start)")
    (auto simp: str_find_from_def elim!: str_find_char_SomeE split: if_splits)

declare parse_features_from.simps [simp del]

definition parse_features :: "string \<Rightarrow> string list" where
  "parse_features banner = parse_features_from (parse_property banner ''features='') 0"

definition parse_serial :: "string \<Rightarrow> string" where
  "parse_serial banner =
     (case str_find ''::'' banner of
        None \<Rightarrow> []
      | Some first \<Rightarrow>
          (case str_find_from ''::'' banner (first + 2) of
             None \<Rightarrow> []
           | Some second \<Rightarrow> take (second - first - 2) (drop (first + 2) banner)))"

section \<open>The connection\<close>

record 't Connection =
  conn_session :: "'t Session"
  device_version :: u32
  max_data :: u32
  next_local_id :: u32
  features :: "string list"
  banner_serial :: string
  delayed_ack :: bool
  requested_authorization :: bool

definition connection_new :: "'t \<Rightarrow> 't Connection" where
  "connection_new t =
     \<lparr>conn_session = session_new t, device_version = 0, max_data = 0, next_local_id = 2,
      features = [], banner_serial = [], delayed_ack = False, requested_authorization = False\<rparr>"

lemma conn_upd_swap:
  "c\<lparr>requested_authorization := a, conn_session := s\<rparr> = c\<lparr>conn_session := s, requested_authorization := a\<rparr>"
  by (cases c) simp

definition connection_send ::
  "'t Transport_ops \<Rightarrow> Message \<Rightarrow> byte list \<Rightarrow> ('t Connection, unit) st" where
  "connection_send T h p c =
     (case session_send T h p (conn_session c) of (r, s) \<Rightarrow> (r, c\<lparr>conn_session := s\<rparr>))"

definition connection_receive :: "'t Transport_ops \<Rightarrow> ('t Connection, Frame) st" where
  "connection_receive T c =
     (case session_receive T (conn_session c) of (r, s) \<Rightarrow> (r, c\<lparr>conn_session := s\<rparr>))"

definition connection_close :: "'t Transport_ops \<Rightarrow> 't Connection \<Rightarrow> 't Connection" where
  "connection_close T c = c\<lparr>conn_session := session_close T (conn_session c)\<rparr>"

definition connection_is_open :: "'t Connection \<Rightarrow> bool" where
  "connection_is_open c \<longleftrightarrow> session_is_open (conn_session c)"

definition allocate_local_id :: "'t Connection \<Rightarrow> u32 \<times> 't Connection" where
  "allocate_local_id c = (next_local_id c, c\<lparr>next_local_id := next_local_id c + 1\<rparr>)"

definition supports_feature :: "'t Connection \<Rightarrow> string \<Rightarrow> bool" where
  "supports_feature c feature \<longleftrightarrow> feature \<in> set (features c)"

definition device_serial :: "'t Transport_ops \<Rightarrow> 't Connection \<Rightarrow> string" where
  "device_serial T c =
     (if session_serial T (conn_session c) \<noteq> [] then session_serial T (conn_session c)
      else banner_serial c)"

section \<open>The handshake\<close>

definition make_auth :: "u32 \<Rightarrow> byte list \<Rightarrow> Message Result" where
  "make_auth ty p =
     (case data_length_of p of
        Inl e \<Rightarrow> Inl e
      | Inr n \<Rightarrow> Inr (empty_Message\<lparr>command := kAuth, arg0 := ty, data_length := n,
                     data_check := compute_checksum p, magic := compute_magic kAuth\<rparr>))"

definition cnxn_message :: "u32 \<Rightarrow> byte list \<Rightarrow> Message" where
  "cnxn_message n identity_bytes =
     empty_Message\<lparr>command := kCnxn, arg0 := kVersion, arg1 := kMaxData, data_length := n,
       data_check := compute_checksum identity_bytes, magic := compute_magic kCnxn\<rparr>"

type_synonym Signer = "byte list \<Rightarrow> byte list Result"

text \<open>AUTH type 2: the signed token, and the device's next frame.\<close>

definition answer_with_signature ::
  "'t Transport_ops \<Rightarrow> Signer \<Rightarrow> Frame \<Rightarrow> ('t Connection, Frame) st" where
  "answer_with_signature T signer frame =
     (case signer (payload frame) of
        Inl e \<Rightarrow> fail_st e
      | Inr signature \<Rightarrow>
          (case make_auth kAuthSignature signature of
             Inl e \<Rightarrow> fail_st e
           | Inr auth \<Rightarrow> bind_st (connection_send T auth signature) (\<lambda>_. connection_receive T)))"

text \<open>AUTH type 3: the null-terminated public key, and the device's next frame.\<close>

definition request_authorization ::
  "'t Transport_ops \<Rightarrow> byte list \<Rightarrow> ('t Connection, Frame) st" where
  "request_authorization T public_key c =
     (let c1 = c\<lparr>requested_authorization := True\<rparr> in
      if public_key = [] then
        (Inl (mk_error Crypto
           ''the device rejected the signature and no public key is available to request authorization''), c1)
      else let key = public_key @ [0] in
        (case make_auth kAuthPublicKey key of
           Inl e \<Rightarrow> (Inl e, c1)
         | Inr auth \<Rightarrow> bind_st (connection_send T auth key) (\<lambda>_. connection_receive T) c1))"

definition authenticate ::
  "'t Transport_ops \<Rightarrow> byte list \<Rightarrow> Signer option \<Rightarrow> Frame \<Rightarrow> ('t Connection, Frame) st" where
  "authenticate T public_key signer frame =
     (if command (header frame) = kAuth then
        bind_st (case signer of None \<Rightarrow> ok_st frame | Some sign \<Rightarrow> answer_with_signature T sign frame)
          (\<lambda>frame. if command (header frame) = kAuth then request_authorization T public_key
                   else ok_st frame)
      else ok_st frame)"

definition finish_connect :: "bool \<Rightarrow> Frame \<Rightarrow> ('t Connection, unit) st" where
  "finish_connect advertise_delayed_ack frame c =
     (if command (header frame) \<noteq> kCnxn then
        (Inl (mk_error Protocol ''unexpected response to the CNXN message''), c)
      else
        let banner = string_of_bytes (payload frame);
            c1 = c\<lparr>device_version := arg0 (header frame), max_data := arg1 (header frame),
                   features := parse_features banner, banner_serial := parse_serial banner\<rparr>
        in (Inr (), c1\<lparr>delayed_ack := advertise_delayed_ack \<and> supports_feature c1 kDelayedAckFeature\<rparr>))"

definition connect ::
  "Build \<Rightarrow> 't Transport_ops \<Rightarrow> 't \<Rightarrow> byte list \<Rightarrow> Signer option \<Rightarrow> bool \<Rightarrow> Status \<times> 't Connection" where
  "connect b T t public_key signer advertise_delayed_ack =
     (let identity_bytes = bytes_of_string (host_identity b advertise_delayed_ack) in
      case data_length_of identity_bytes of
        Inl e \<Rightarrow> (Inl e, connection_new t)
      | Inr n \<Rightarrow>
          bind_st (connection_send T (cnxn_message n identity_bytes) identity_bytes)
            (\<lambda>_. bind_st (connection_receive T)
              (\<lambda>frame. bind_st (authenticate T public_key signer frame)
                (finish_connect advertise_delayed_ack))) (connection_new t))"

section \<open>The banner\<close>

text \<open>The index loop computes the non-empty fields between the commas.\<close>

lemma parse_features_from_eq:
  "start \<le> length xs \<Longrightarrow>
     parse_features_from xs start = filter (\<lambda>f. f \<noteq> []) (split_on CHR '','' (drop start xs))"
proof (induction xs start rule: parse_features_from.induct)
  case (1 xs start)
  show ?case
  proof (cases "str_find '','' (drop start xs)")
    case None
    with "1.prems" show ?thesis
      by (simp add: parse_features_from.simps [of xs start] str_find_from_def str_find_char_None)
  next
    case (Some k)
    then have split: "drop start xs = take k (drop start xs) @ CHR '','' # drop (Suc k) (drop start xs)"
      and k: "CHR '','' \<notin> set (take k (drop start xs))" "k < length (drop start xs)"
      by (auto elim!: str_find_char_SomeE)
    have sf: "str_find_from '','' xs start = Some (start + k)"
      using Some "1.prems" by (simp add: str_find_from_def)
    have "parse_features_from xs (start + k + 1) =
        filter (\<lambda>f. f \<noteq> []) (split_on CHR '','' (drop (start + k + 1) xs))"
      using "1.IH" [OF "1.prems" sf] k by simp
    moreover have "split_on CHR '','' (drop start xs) =
        take k (drop start xs) # split_on CHR '','' (drop (start + k + 1) xs)"
      by (subst split, subst split_on_append [OF k(1)]) (simp add: add.commute)
    ultimately show ?thesis
      using "1.prems" sf k(2) by (auto simp: parse_features_from.simps [of xs start])
  qed
qed

lemma parse_features_eq:
  "parse_features banner = filter (\<lambda>f. f \<noteq> []) (split_on CHR '','' (parse_property banner ''features=''))"
  by (simp add: parse_features_def parse_features_from_eq)

lemma parse_property_found:
  assumes "\<And>j. j < length pre \<Longrightarrow> take (length key) (drop j (pre @ key @ val @ post)) \<noteq> key"
    and "CHR '';'' \<notin> set val" and "post = [] \<or> hd post = CHR '';''"
  shows "parse_property (pre @ key @ val @ post) key = val"
proof -
  have "str_find key (pre @ key @ val @ post) = Some (length pre)"
    using assms(1) by (rule str_find_firstI)
  with assms(2,3) show ?thesis
    by (cases post) (auto simp: parse_property_def)
qed

section \<open>The handshake as a function of the device's frames\<close>

definition cnxn_frame :: "Build \<Rightarrow> bool \<Rightarrow> Frame" where
  "cnxn_frame b adv =
     (let ib = bytes_of_string (host_identity b adv)
      in \<lparr>header = cnxn_message (of_nat (length ib)) ib, payload = ib\<rparr>)"

definition auth_frame :: "u32 \<Rightarrow> byte list \<Rightarrow> Frame" where
  "auth_frame ty p =
     \<lparr>header = empty_Message\<lparr>command := kAuth, arg0 := ty, data_length := of_nat (length p),
        data_check := compute_checksum p, magic := compute_magic kAuth\<rparr>, payload = p\<rparr>"

abbreviation eof_error :: Error where
  "eof_error \<equiv> mk_error Protocol ''unexpected end of stream''"

text \<open>
  \<open>handshake_key\<close> is the last round (the public key), \<open>handshake_auth\<close> the exchange from the
  device's first frame on, and \<open>handshake\<close> the whole of it. The result is the frame that ended
  the exchange or the error, the frames the host has sent, whether approval was requested, and the
  frames of the device that were not used.
\<close>

definition handshake_key ::
  "byte list \<Rightarrow> Frame list \<Rightarrow> Frame list \<Rightarrow> Frame Result \<times> Frame list \<times> bool \<times> Frame list" where
  "handshake_key pk out fs =
     (if pk = [] then
        (Inl (mk_error Crypto
           ''the device rejected the signature and no public key is available to request authorization''),
         out, True, fs)
      else (case fs of [] \<Rightarrow> Inl eof_error | f # _ \<Rightarrow> Inr f,
            out @ [auth_frame kAuthPublicKey (pk @ [0])], True, tl fs))"

definition handshake_auth ::
  "byte list \<Rightarrow> Signer option \<Rightarrow> Frame list \<Rightarrow> Frame \<Rightarrow> Frame list \<Rightarrow> Frame Result \<times> Frame list \<times> bool \<times> Frame list" where
  "handshake_auth pk signer out f fs =
     (if command (header f) \<noteq> kAuth then (Inr f, out, False, fs)
      else (case signer of
          None \<Rightarrow> handshake_key pk out fs
        | Some sign \<Rightarrow>
            (case sign (payload f) of
               Inl e \<Rightarrow> (Inl e, out, False, fs)
             | Inr sig \<Rightarrow>
                 let out2 = out @ [auth_frame kAuthSignature sig] in
                 (case fs of
                    [] \<Rightarrow> (Inl eof_error, out2, False, [])
                  | g # gs \<Rightarrow>
                      if command (header g) \<noteq> kAuth then (Inr g, out2, False, gs)
                      else handshake_key pk out2 gs))))"

definition handshake ::
  "Build \<Rightarrow> bool \<Rightarrow> byte list \<Rightarrow> Signer option \<Rightarrow> Frame list \<Rightarrow> Frame Result \<times> Frame list \<times> bool \<times> Frame list" where
  "handshake b adv pk signer fs =
     (case fs of
        [] \<Rightarrow> (Inl eof_error, [cnxn_frame b adv], False, [])
      | f # gs \<Rightarrow> handshake_auth pk signer [cnxn_frame b adv] f gs)"

text \<open>Keys and signatures that fit a frame; every real one is a few hundred bytes.\<close>

definition fits :: "byte list \<Rightarrow> Signer option \<Rightarrow> bool" where
  "fits pk signer \<longleftrightarrow> Suc (length pk) < 2 ^ 31
     \<and> (\<forall>sign. signer = Some sign \<longrightarrow> (\<forall>token sig. sign token = Inr sig \<longrightarrow> length sig < 2 ^ 31))"

lemma length_host_identity: "length (host_identity b adv) \<le> 200"
  by (simp add: host_identity_def kSystemIdentity_def kDelayedAckFeature_def)

lemma data_length_of_small:
  "length p < 2 ^ 31 \<Longrightarrow> data_length_of p = Inr (of_nat (length p))"
  by (simp add: data_length_of_def)

lemma make_auth_small:
  "length p < 2 ^ 31 \<Longrightarrow> make_auth ty p = Inr (header (auth_frame ty p))"
  by (simp add: make_auth_def data_length_of_small auth_frame_def)

lemma auth_frame_length [simp]:
  "length p < 2 ^ 31 \<Longrightarrow> unat (data_length (header (auth_frame ty p))) = length p"
  by (simp add: auth_frame_def unat_of_nat)

lemma auth_frame_sel [simp]:
  "payload (auth_frame ty p) = p" "\<lparr>header = header (auth_frame ty p), payload = p\<rparr> = auth_frame ty p"
  by (simp_all add: auth_frame_def)

text \<open>
  Where a connection stands in an exchange of frames, with a device whose maximum payload is below
  2 GiB.
\<close>

abbreviation conn_stage where
  "conn_stage good pending sent base c fs out \<equiv>
     stage good pending sent base (conn_session c) fs out \<and> unat (max_data c) < 2 ^ 31"

context byte_channel
begin

lemma connection_send_stage:
  assumes "conn_stage good pending sent base c fs out" "unat (data_length h) = length p" "length p < 2 ^ 31"
  obtains s' where "connection_send T h p c = (Inr (), c\<lparr>conn_session := s'\<rparr>)"
    "stage good pending sent base s' fs (out @ [\<lparr>header = h, payload = p\<rparr>])"
  by (rule stage_send [OF conjunct1 [OF assms(1)] assms(2,3)], rule that) (simp_all add: connection_send_def)

lemma connection_receive_stage:
  assumes "conn_stage good pending sent base c (f # fs) out"
  obtains s' where "connection_receive T c = (Inr f, c\<lparr>conn_session := s'\<rparr>)"
    "stage good pending sent base s' fs out"
  by (rule stage_receive [OF conjunct1 [OF assms]], rule that) (simp_all add: connection_receive_def)

lemma connection_receive_stage_end:
  assumes "conn_stage good pending sent base c [] out"
  obtains s' where "connection_receive T c = (Inl eof_error, c\<lparr>conn_session := s'\<rparr>)"
    "stage good pending sent base s' [] out"
  by (rule stage_receive_end [OF conjunct1 [OF assms]], rule that) (simp_all add: connection_receive_def)

text \<open>One round of the handshake: send a frame, read the next one.\<close>

lemma connection_round:
  assumes "conn_stage good pending sent base c fs out" "unat (data_length (header f)) = length (payload f)"
    and "length (payload f) < 2 ^ 31"
  obtains s' where
    "bind_st (connection_send T (header f) (payload f)) (\<lambda>_. connection_receive T) c =
       (case fs of [] \<Rightarrow> Inl eof_error | g # _ \<Rightarrow> Inr g, c\<lparr>conn_session := s'\<rparr>)"
    "stage good pending sent base s' (tl fs) (out @ [f])"
proof -
  obtain s1 where 1: "connection_send T (header f) (payload f) c = (Inr (), c\<lparr>conn_session := s1\<rparr>)"
      "stage good pending sent base s1 fs (out @ [f])"
    by (rule connection_send_stage [OF assms]) (simp add: Frame_eta)
  let ?c1 = "c\<lparr>conn_session := s1\<rparr>"
  show thesis
  proof (cases fs)
    case Nil
    with 1 assms(1) have "conn_stage good pending sent base ?c1 [] (out @ [f])" by simp
    then show ?thesis
      by (rule connection_receive_stage_end) (rule that, use 1 Nil in \<open>simp_all add: seq_simps\<close>)
  next
    case (Cons g gs)
    with 1 assms(1) have "conn_stage good pending sent base ?c1 (g # gs) (out @ [f])" by simp
    then show ?thesis
      by (rule connection_receive_stage) (rule that, use 1 Cons in \<open>simp_all add: seq_simps\<close>)
  qed
qed

text \<open>
  The steps of the handshake, each against its part of the specification. The connection that
  comes back differs from \<open>c\<close> in its session and in the flag \<open>requested_authorization\<close> only.
\<close>

lemma request_authorization_spec:
  assumes "conn_stage good pending sent base c fs out" "Suc (length pk) < 2 ^ 31"
    and "handshake_key pk out fs = (r, out', asked, gs)"
  shows "\<exists>s'. request_authorization T pk c = (r, c\<lparr>conn_session := s', requested_authorization := asked\<rparr>)
    \<and> stage good pending sent base s' gs out'"
proof (cases "pk = []")
  case True
  with assms show ?thesis
    by (intro exI [of _ "conn_session c"])
      (auto simp: request_authorization_def handshake_key_def Let_def)
next
  case False
  let ?f = "auth_frame kAuthPublicKey (pk @ [0])" and ?c1 = "c\<lparr>requested_authorization := True\<rparr>"
  have len: "length (pk @ [0]) < 2 ^ 31" using assms(2) by simp
  have "conn_stage good pending sent base ?c1 fs out" using assms(1) by simp
  from connection_round [OF this, of ?f] len obtain s' where
    "bind_st (connection_send T (header ?f) (pk @ [0])) (\<lambda>_. connection_receive T) ?c1 =
       (case fs of [] \<Rightarrow> Inl eof_error | g # _ \<Rightarrow> Inr g, ?c1\<lparr>conn_session := s'\<rparr>)"
    "stage good pending sent base s' (tl fs) (out @ [?f])"
    by auto
  with False assms(3) make_auth_small [OF len] show ?thesis
    by (auto simp: request_authorization_def handshake_key_def Let_def conn_upd_swap)
qed

lemma answer_with_signature_spec:
  assumes "conn_stage good pending sent base c fs out" "sign (payload f) = Inr sig" "length sig < 2 ^ 31"
  shows "\<exists>s'. answer_with_signature T sign f c =
      (case fs of [] \<Rightarrow> Inl eof_error | g # _ \<Rightarrow> Inr g, c\<lparr>conn_session := s'\<rparr>)
    \<and> stage good pending sent base s' (tl fs) (out @ [auth_frame kAuthSignature sig])"
proof -
  let ?f = "auth_frame kAuthSignature sig"
  from connection_round [OF assms(1), of ?f] assms(3) obtain s' where
    "bind_st (connection_send T (header ?f) sig) (\<lambda>_. connection_receive T) c =
       (case fs of [] \<Rightarrow> Inl eof_error | g # _ \<Rightarrow> Inr g, c\<lparr>conn_session := s'\<rparr>)"
    "stage good pending sent base s' (tl fs) (out @ [?f])"
    by auto
  with assms(2) make_auth_small [OF assms(3)] show ?thesis
    by (auto simp: answer_with_signature_def)
qed

lemma authenticate_spec:
  assumes "conn_stage good pending sent base c fs out" "fits pk signer" "\<not> requested_authorization c"
    and "handshake_auth pk signer out f fs = (r, out', asked, gs)"
  shows "\<exists>s'. authenticate T pk signer f c = (r, c\<lparr>conn_session := s', requested_authorization := asked\<rparr>)
    \<and> stage good pending sent base s' gs out'"
proof -
  have pk: "Suc (length pk) < 2 ^ 31" using assms(2) by (simp add: fits_def)
  have same: "c\<lparr>conn_session := s', requested_authorization := False\<rparr> = c\<lparr>conn_session := s'\<rparr>" for s'
    using assms(3) by (cases c) simp
  consider (other) "command (header f) \<noteq> kAuth" | (nokey) "command (header f) = kAuth" "signer = None"
    | (refused) sign e where "command (header f) = kAuth" "signer = Some sign" "sign (payload f) = Inl e"
    | (signed) sign sig where "command (header f) = kAuth" "signer = Some sign" "sign (payload f) = Inr sig"
    by (cases signer; cases "the signer (payload f)") auto
  then show ?thesis
  proof cases
    case other
    with assms same [of "conn_session c"] show ?thesis
      by (intro exI [of _ "conn_session c"])
        (auto simp: authenticate_def handshake_auth_def seq_simps)
  next
    case nokey
    with request_authorization_spec [OF assms(1) pk] assms(4) show ?thesis
      by (auto simp: authenticate_def handshake_auth_def seq_simps)
  next
    case refused
    with assms same [of "conn_session c"] show ?thesis
      by (intro exI [of _ "conn_session c"])
        (auto simp: authenticate_def handshake_auth_def answer_with_signature_def seq_simps)
  next
    case signed
    then have "length sig < 2 ^ 31" using assms(2) by (auto simp: fits_def)
    from answer_with_signature_spec [OF assms(1), of sign f, OF signed(3) this] obtain s1 where
      1: "answer_with_signature T sign f c =
           (case fs of [] \<Rightarrow> Inl eof_error | g # _ \<Rightarrow> Inr g, c\<lparr>conn_session := s1\<rparr>)"
      and st: "conn_stage good pending sent base (c\<lparr>conn_session := s1\<rparr>) (tl fs)
          (out @ [auth_frame kAuthSignature sig])"
      using assms(1) by auto
    show ?thesis
    proof (cases "fs \<noteq> [] \<and> command (header (hd fs)) = kAuth")
      case True
      then obtain g gs where "fs = g # gs" "command (header g) = kAuth" by (cases fs) auto
      with request_authorization_spec [OF st pk] 1 signed assms(4) show ?thesis
        by (auto simp: authenticate_def handshake_auth_def seq_simps Let_def)
    next
      case False
      with 1 st signed assms(4) show ?thesis
        by (intro exI [of _ s1], cases fs)
          (auto simp: authenticate_def handshake_auth_def seq_simps Let_def same)
    qed
  qed
qed

text \<open>The whole handshake.\<close>

lemma connect_spec:
  assumes "good t" "pending t = wire fs" "list_all valid_frame fs" "fits pk signer"
    and hs: "handshake b adv pk signer fs = (r, out, asked, gs)"
  shows "\<exists>s'. connect b T t pk signer adv =
      (case r of
         Inl e \<Rightarrow> (Inl e, (connection_new t)\<lparr>conn_session := s', requested_authorization := asked\<rparr>)
       | Inr f \<Rightarrow> finish_connect adv f ((connection_new t)\<lparr>conn_session := s', requested_authorization := asked\<rparr>))
    \<and> stage good pending sent (sent t) s' gs out"
proof -
  let ?c = "connection_new t" and ?f = "cnxn_frame b adv"
  let ?ib = "bytes_of_string (host_identity b adv)"
  have len: "length ?ib < 2 ^ 31" using length_host_identity [of b adv] by simp
  have st: "conn_stage good pending sent (sent t) ?c fs []"
    using assms by (simp add: stage_def connection_new_def session_new_def live_def inbox_def outbox_def)
  have f: "header ?f = cnxn_message (of_nat (length ?ib)) ?ib" "payload ?f = ?ib"
    by (simp_all add: cnxn_frame_def Let_def)
  have "unat (data_length (header ?f)) = length (payload ?f)"
    unfolding f using len by (simp add: cnxn_message_def unat_of_nat)
  from connection_round [OF st this] len obtain s1 where
    1: "bind_st (connection_send T (header ?f) ?ib) (\<lambda>_. connection_receive T) ?c =
         (case fs of [] \<Rightarrow> Inl eof_error | g # _ \<Rightarrow> Inr g, ?c\<lparr>conn_session := s1\<rparr>)"
    and st1: "conn_stage good pending sent (sent t) (?c\<lparr>conn_session := s1\<rparr>) (tl fs) [?f]"
    using f st by auto
  have body: "connect b T t pk signer adv =
      bind_st (bind_st (connection_send T (header ?f) ?ib) (\<lambda>_. connection_receive T))
        (\<lambda>frame. bind_st (authenticate T pk signer frame) (finish_connect adv)) ?c"
    using data_length_of_small [OF len]
    by (simp add: connect_def f Let_def bind_st_def split: prod.splits sum.splits)
  have new: "\<not> requested_authorization (?c\<lparr>conn_session := s1\<rparr>)"
    by (simp add: connection_new_def)
  show ?thesis
  proof (cases fs)
    case Nil
    with hs have "r = Inl eof_error" "out = [?f]" "\<not> asked" "gs = []" by (auto simp: handshake_def)
    moreover have "?c\<lparr>conn_session := s1\<rparr> = ?c\<lparr>conn_session := s1, requested_authorization := False\<rparr>"
      by (simp add: connection_new_def)
    ultimately show ?thesis
      using body 1 st1 Nil by (auto simp: seq_simps)
  next
    case (Cons g fs')
    with st1 have "conn_stage good pending sent (sent t) (?c\<lparr>conn_session := s1\<rparr>) fs' [?f]" by simp
    moreover have "handshake_auth pk signer [?f] g fs' = (r, out, asked, gs)"
      using hs Cons by (simp add: handshake_def)
    ultimately obtain s' where
      "authenticate T pk signer g (?c\<lparr>conn_session := s1\<rparr>) =
         (r, ?c\<lparr>conn_session := s', requested_authorization := asked\<rparr>)"
      "stage good pending sent (sent t) s' gs out"
      using authenticate_spec [OF _ assms(4) new] by fastforce
    then show ?thesis
      using body 1 Cons by (cases r) (auto simp: seq_simps)
  qed
qed

end

section \<open>Properties\<close>

text \<open>
  C2. Connecting over any byte channel carries out the ADB handshake: the host sends its CNXN, answers
  an AUTH with the signed token, offers the public key when the signature is rejected (or when there
  is no signer), and ends with the device's CNXN or the error of the exchange. It sends the frames
  of the specification and no others, leaves what the device sends after the handshake unread, and
  the flag \<open>requested_authorization\<close> says whether the user was asked.
\<close>

theorem connect_implements_handshake:
  assumes "byte_channel T good pending sent" "good t" "pending t = wire fs" "list_all valid_frame fs"
    and "fits pk signer" "handshake b adv pk signer fs = (r, out, asked, gs)"
  shows "\<exists>s'. connect b T t pk signer adv =
      (case r of
         Inl e \<Rightarrow> (Inl e, (connection_new t)\<lparr>conn_session := s', requested_authorization := asked\<rparr>)
       | Inr f \<Rightarrow> finish_connect adv f ((connection_new t)\<lparr>conn_session := s', requested_authorization := asked\<rparr>))
    \<and> stage good pending sent (sent t) s' gs out"
  by (rule byte_channel.connect_spec [OF assms])

definition sample_build :: Build where
  "sample_build = \<lparr>has_zstd = True, has_lz4 = False, has_brotli = False\<rparr>"

definition sample_banner :: Frame where
  "sample_banner =
     (let p = bytes_of_string ''device::features=cmd,shell_v2'' in
      \<lparr>header = \<lparr>command = kCnxn, arg0 = kVersion, arg1 = 4096, data_length = of_nat (length p),
         data_check = 0, magic = compute_magic kCnxn\<rparr>, payload = p\<rparr>)"

lemma valid_sample_banner [simp]: "valid_frame sample_banner"
  by (simp add: valid_frame_def sample_banner_def Let_def)

lemma sample_banner_sel [simp]:
  "command (header sample_banner) = kCnxn" "arg1 (header sample_banner) = 4096"
  by (simp_all add: sample_banner_def Let_def)

lemma sample_handshake:
  "handshake sample_build False [] None (sample_banner # fs) = (Inr sample_banner, [cnxn_frame sample_build False], False, fs)"
  by (simp add: handshake_def handshake_auth_def sample_banner_def Let_def)

theorem connect_implements_handshake_witness:
  "\<exists>s'. connect sample_build mock_ops (mock_feed (wire [sample_banner]) mock_new) [] None False =
      finish_connect False sample_banner
        ((connection_new (mock_feed (wire [sample_banner]) mock_new))
           \<lparr>conn_session := s', requested_authorization := False\<rparr>)
    \<and> stage mock_good mock_pending mock_written [] s' [] [cnxn_frame sample_build False]"
  using connect_implements_handshake [OF mock.byte_channel_axioms _ _ _ _ sample_handshake,
      of "mock_feed (wire [sample_banner]) mock_new" "[]"]
  by (simp add: mock_pending_feed fits_def)

text \<open>
  The feature list of a device banner is read field by field: for any list of non-empty features
  written with commas after the first \<open>features=\<close>, the connection supports exactly those features.
  A feature is matched as a whole, never as a part of a longer name.
\<close>

theorem features_are_exact:
  assumes "str_find ''features='' (pre @ ''features='' @ join_on CHR '','' fs @ post) = Some (length pre)"
    and "\<forall>f \<in> set fs. f \<noteq> [] \<and> CHR '','' \<notin> set f \<and> CHR '';'' \<notin> set f" "fs \<noteq> []"
    and "post = [] \<or> hd post = CHR '';''" "command (header frame) = kCnxn"
    and "payload frame = bytes_of_string (pre @ ''features='' @ join_on CHR '','' fs @ post)"
  shows "\<exists>c'. finish_connect adv frame c = (Inr (), c') \<and> features c' = fs
    \<and> (\<forall>f. supports_feature c' f \<longleftrightarrow> f \<in> set fs)
    \<and> max_data c' = arg1 (header frame)
    \<and> (delayed_ack c' \<longleftrightarrow> adv \<and> ''delayed_ack'' \<in> set fs)"
proof -
  let ?banner = "pre @ ''features='' @ join_on CHR '','' fs @ post"
  have "CHR '';'' \<notin> set (join_on CHR '','' fs)"
    using set_join_on [of "CHR '',''" fs] assms(2) by auto
  then have "parse_property ?banner ''features='' = join_on CHR '','' fs"
    using assms(1,4) by (cases post) (auto simp: parse_property_def)
  then have "parse_features ?banner = filter (\<lambda>f. f \<noteq> []) fs"
    using assms(2,3) by (simp add: parse_features_eq split_on_join_on)
  also have "\<dots> = fs"
    using assms(2) by (simp add: filter_id_conv)
  finally show ?thesis
    using assms(5,6) by (auto simp: finish_connect_def supports_feature_def kDelayedAckFeature_def)
qed

theorem features_are_exact_witness:
  "\<exists>c'. finish_connect True sample_banner (connection_new ()) = (Inr (), c')
    \<and> features c' = [''cmd'', ''shell_v2'']
    \<and> (\<forall>f. supports_feature c' f \<longleftrightarrow> f \<in> set [''cmd'', ''shell_v2'']) \<and> max_data c' = 4096
    \<and> (delayed_ack c' \<longleftrightarrow> True \<and> ''delayed_ack'' \<in> set [''cmd'', ''shell_v2''])"
  using features_are_exact [of "''device::''" "[''cmd'', ''shell_v2'']" "[]" sample_banner True "connection_new ()"]
  by (simp add: sample_banner_def Let_def)

text \<open>
  The host's banner tells the truth about the build: read back with the same parser, it names a
  compressed transfer variant exactly when its codec is built in, the v2 transfers exactly when some
  codec is, and delayed acknowledgements exactly when the caller asked for them.
\<close>

theorem host_banner_is_truthful:
  "parse_features (host_identity b adv) =
     [''shell_v2'', ''stat_v2'', ''ls_v2'']
     @ (if has_compression b then [''sendrecv_v2''] else [])
     @ (if has_zstd b then [''sendrecv_v2_zstd''] else [])
     @ (if has_lz4 b then [''sendrecv_v2_lz4''] else [])
     @ (if has_brotli b then [''sendrecv_v2_brotli''] else [])
     @ (if adv then [''delayed_ack''] else [])"
  by (cases "has_zstd b"; cases "has_lz4 b"; cases "has_brotli b"; cases adv)
    (simp_all add: parse_features_eq parse_property_def host_identity_def has_compression_def
      kSystemIdentity_def kDelayedAckFeature_def)

text \<open>
  Allocating \<open>n\<close> local stream ids, one after the other.
\<close>

fun allocate_ids :: "nat \<Rightarrow> 't Connection \<Rightarrow> u32 list" where
  "allocate_ids 0 c = []"
| "allocate_ids (Suc n) c = (case allocate_local_id c of (i, c') \<Rightarrow> i # allocate_ids n c')"

lemma allocate_ids_eq:
  "allocate_ids n c = map (\<lambda>i. next_local_id c + of_nat i) [0..<n]"
proof (induction n arbitrary: c)
  case (Suc n)
  then show ?case
    by (simp add: allocate_local_id_def upt_conv_Cons map_Suc_upt [symmetric] comp_def algebra_simps
        del: upt_Suc map_map)
      (simp add: comp_def algebra_simps del: upt_Suc)
qed simp

text \<open>
  Stream ids: the first \<open>2\<^sup>3\<^sup>2 - 2\<close> ids a connection allocates are pairwise distinct and never 0,
  which the protocol reserves. The counter then wraps and the next id is 0.
\<close>

theorem local_ids_unique_until_wrap:
  "(n \<le> 2 ^ 32 - 2 \<longrightarrow> distinct (allocate_ids n (connection_new t)) \<and> 0 \<notin> set (allocate_ids n (connection_new t)))
     \<and> last (allocate_ids (2 ^ 32 - 1) (connection_new t)) = 0"
proof -
  have inj: "i < 2 ^ 32 - 2 \<Longrightarrow> unat (2 + of_nat i :: u32) = i + 2" for i
    by (simp add: unat_word_ariths unat_of_nat)
  have eq: "allocate_ids n (connection_new t) = map (\<lambda>i. 2 + of_nat i) [0..<n]" for n
    by (simp add: allocate_ids_eq connection_new_def)
  have "distinct (map (\<lambda>i. 2 + of_nat i :: u32) [0..<n])" "0 \<notin> (\<lambda>i. 2 + of_nat i :: u32) ` {0..<n}"
    if n: "n \<le> 2 ^ 32 - 2"
  proof -
    have "unat (2 + of_nat i :: u32) = i + 2" if "i < n" for i using inj that n by simp
    then have "inj_on (\<lambda>i. 2 + of_nat i :: u32) {0..<n}"
      by (intro inj_onI) (metis add_right_cancel atLeastLessThan_iff)
    then show "distinct (map (\<lambda>i. 2 + of_nat i :: u32) [0..<n])" by (simp add: distinct_map)
    show "0 \<notin> (\<lambda>i. 2 + of_nat i :: u32) ` {0..<n}"
    proof
      assume "0 \<in> (\<lambda>i. 2 + of_nat i :: u32) ` {0..<n}"
      then obtain i where "i < n" "(2 + of_nat i :: u32) = 0" by auto
      with inj [of i] n show False by simp
    qed
  qed
  moreover have "last (map (\<lambda>i. 2 + of_nat i :: u32) [0..<2 ^ 32 - 1]) = 0"
    by (subst last_map) (simp_all add: last_upt)
  ultimately show ?thesis unfolding eq by auto
qed

theorem local_ids_unique_until_wrap_witness:
  "distinct (allocate_ids 3 (connection_new ())) \<and> 0 \<notin> set (allocate_ids 3 (connection_new ()))"
  using local_ids_unique_until_wrap [of 3 "()"] by simp

end
