(* ===== verification/Adb_Stream.thy ===== *)
theory Adb_Stream
  imports Adb_Connection
begin

text \<open>
  The multiplexed stream of \<open>include/adbcpp/stream.hpp\<close> and \<open>src/stream.cpp\<close>: opening, writing,
  reading an exact number of bytes, reading to the end, closing, moving and destroying.

  A \<open>Stream\<close> points to its connection; the operations of the model work on the pair of the
  stream's own fields and the connection. The loops that wait for a frame of this stream skip
  frames for other streams and may skip for ever, so they are partial functions: \<open>None\<close> is a call
  that never returns. A local \<open>Stream\<close> is destroyed on every way out of the function that owns
  it; \<open>stream_open\<close> and \<open>with_stream\<close> include that call of the destructor.

  The specification is by frames: \<open>next_event\<close> says what the next frame for a stream is, and
  \<open>stream_data\<close> which bytes the frames carry for it.
\<close>

section \<open>Messages\<close>

definition make_empty_message :: "u32 \<Rightarrow> u32 \<Rightarrow> u32 \<Rightarrow> Message" where
  "make_empty_message c a0 a1 =
     empty_Message\<lparr>command := c, arg0 := a0, arg1 := a1, magic := compute_magic c\<rparr>"

definition make_message :: "u32 \<Rightarrow> u32 \<Rightarrow> u32 \<Rightarrow> byte list \<Rightarrow> Message Result" where
  "make_message c a0 a1 p =
     (case data_length_of p of
        Inl e \<Rightarrow> Inl e
      | Inr n \<Rightarrow> Inr (empty_Message\<lparr>command := c, arg0 := a0, arg1 := a1, data_length := n,
                     data_check := compute_checksum p, magic := compute_magic c\<rparr>))"

section \<open>The stream\<close>

record Stream =
  service :: string
  local_id :: u32
  remote_id :: u32
  stream_closed :: bool
  incoming :: "byte list"
  incoming_offset :: nat

type_synonym 't streaming = "Stream \<times> 't Connection"

definition stream_new :: "string \<Rightarrow> 't Connection \<Rightarrow> 't streaming" where
  "stream_new svc c =
     (let (lid, c1) = allocate_local_id c in
      (\<lparr>service = svc, local_id = lid, remote_id = 0, stream_closed = False, incoming = [],
        incoming_offset = 0\<rparr>, c1))"

definition close_now :: "'t Transport_ops \<Rightarrow> 't streaming \<Rightarrow> 't streaming" where
  "close_now T S =
     (case S of (st, c) \<Rightarrow>
        if stream_closed st then (st, c)
        else (st\<lparr>stream_closed := True\<rparr>,
              snd (connection_send T (make_empty_message kClse (local_id st) (remote_id st)) [] c)))"

text \<open>The destructor: what it leaves is the connection.\<close>

definition stream_destroy :: "'t Transport_ops \<Rightarrow> 't streaming \<Rightarrow> 't Connection" where
  "stream_destroy T S = snd (close_now T S)"

text \<open>The move constructor: the new stream and the moved-from one.\<close>

definition stream_move :: "Stream \<Rightarrow> Stream \<times> Stream" where
  "stream_move other = (other, other\<lparr>stream_closed := True, service := [], incoming := []\<rparr>)"

text \<open>The move assignment: the stream this one owns is closed before it is replaced.\<close>

definition stream_move_assign ::
  "'t Transport_ops \<Rightarrow> Stream \<Rightarrow> 't streaming \<Rightarrow> Stream \<times> 't streaming" where
  "stream_move_assign T other S =
     (let c = snd (close_now T S); (new, old) = stream_move other in (old, (new, c)))"

section \<open>Opening\<close>

partial_function (option) open_wait ::
  "'t Transport_ops \<Rightarrow> u32 \<Rightarrow> 't Connection \<Rightarrow> (u32 Result \<times> 't Connection) option" where
  "open_wait T lid c =
     (case connection_receive T c of
        (Inl e, c') \<Rightarrow> Some (Inl e, c')
      | (Inr frame, c') \<Rightarrow>
          if arg1 (header frame) \<noteq> lid then open_wait T lid c'
          else if command (header frame) \<noteq> kOkay then
            Some (Inl (mk_error Protocol ''failed to open the stream''), c')
          else Some (Inr (arg0 (header frame)), c'))"

declare open_wait.simps [code]

definition open_request ::
  "'t Transport_ops \<Rightarrow> string \<Rightarrow> 't streaming \<Rightarrow> (u32 Result \<times> 't Connection) option" where
  "open_request T svc S =
     (case S of (st, c) \<Rightarrow>
        let destination = bytes_of_string svc @ [0];
            send_buffer = (if delayed_ack c then kInitialDelayedAckBytes else 0) in
        (case make_message kOpen (local_id st) send_buffer destination of
           Inl e \<Rightarrow> Some (Inl e, c)
         | Inr message \<Rightarrow>
             (case connection_send T message destination c of
                (Inl e, c') \<Rightarrow> Some (Inl e, c')
              | (Inr _, c') \<Rightarrow> open_wait T (local_id st) c')))"

definition stream_open ::
  "'t Transport_ops \<Rightarrow> string \<Rightarrow> 't Connection \<Rightarrow> (Stream Result \<times> 't Connection) option" where
  "stream_open T svc c =
     (case stream_new svc c of (st, c1) \<Rightarrow>
        (case open_request T svc (st, c1) of
           None \<Rightarrow> None
         | Some (Inl e, c2) \<Rightarrow> Some (Inl e, stream_destroy T (st, c2))
         | Some (Inr rid, c2) \<Rightarrow> Some (Inr (st\<lparr>remote_id := rid\<rparr>), c2)))"

section \<open>Writing and reading\<close>

definition stream_write :: "'t Transport_ops \<Rightarrow> byte list \<Rightarrow> ('t streaming, unit) st" where
  "stream_write T data S =
     (case S of (st, c) \<Rightarrow>
        if unat (max_data c) < length data then
          (Inl (mk_error InvalidArgument ''the write is larger than the negotiated maximum payload''), S)
        else
          (case make_message kWrte (local_id st) (remote_id st) data of
             Inl e \<Rightarrow> (Inl e, S)
           | Inr message \<Rightarrow>
               (case connection_send T message data c of (r, c') \<Rightarrow> (r, (st, c')))))"

partial_function (option) receive_more ::
  "'t Transport_ops \<Rightarrow> 't streaming \<Rightarrow> (bool Result \<times> 't streaming) option" where
  "receive_more T S =
     (case S of (st, c) \<Rightarrow>
        (case connection_receive T c of
           (Inl e, c') \<Rightarrow> Some (Inl e, (st, c'))
         | (Inr frame, c') \<Rightarrow>
             if arg1 (header frame) \<noteq> local_id st then receive_more T (st, c')
             else if command (header frame) = kWrte then
               (case connection_send T (make_empty_message kOkay (local_id st) (remote_id st)) [] c' of
                  (Inl e, c'') \<Rightarrow>
                    Some (Inl e, (st\<lparr>incoming := payload frame, incoming_offset := 0\<rparr>, c''))
                | (Inr _, c'') \<Rightarrow>
                    Some (Inr True, (st\<lparr>incoming := payload frame, incoming_offset := 0\<rparr>, c'')))
             else if command (header frame) = kOkay then receive_more T (st, c')
             else if command (header frame) = kClse then
               Some (Inr False, (st\<lparr>stream_closed := True\<rparr>, c'))
             else Some (Inl (mk_error Protocol ''unexpected message on the stream''), (st, c'))))"

declare receive_more.simps [code]

text \<open>One pass of the loop in \<open>Stream::read\<close> first makes sure that bytes are buffered.\<close>

definition ensure_buffered :: "'t Transport_ops \<Rightarrow> ('t streaming, unit) io" where
  "ensure_buffered T S =
     (if length (incoming (fst S)) \<le> incoming_offset (fst S) then
        bind_io (receive_more T)
          (\<lambda>more. if more then ok_io () else fail_io (mk_error Protocol ''the device closed the stream'')) S
      else ok_io () S)"

partial_function (option) stream_read_from ::
  "'t Transport_ops \<Rightarrow> nat \<Rightarrow> byte list \<Rightarrow> 't streaming \<Rightarrow> (byte list Result \<times> 't streaming) option" where
  "stream_read_from T sz buf S =
     (if length buf < sz then
        bind_io (ensure_buffered T)
          (\<lambda>_ S1. case S1 of (st, c) \<Rightarrow>
             (let available = length (incoming st) - incoming_offset st;
                  count = min available (sz - length buf) in
              stream_read_from T sz (buf @ take count (drop (incoming_offset st) (incoming st)))
                (st\<lparr>incoming_offset := incoming_offset st + count\<rparr>, c))) S
      else Some (Inr buf, S))"

declare stream_read_from.simps [code]

definition stream_read :: "'t Transport_ops \<Rightarrow> nat \<Rightarrow> ('t streaming, byte list) io" where
  "stream_read T sz S = stream_read_from T sz [] S"

partial_function (option) read_all_from ::
  "'t Transport_ops \<Rightarrow> byte list \<Rightarrow> 't streaming \<Rightarrow> (byte list Result \<times> 't streaming) option" where
  "read_all_from T output S =
     bind_io (receive_more T)
       (\<lambda>more S1. case S1 of (st, c) \<Rightarrow>
          if \<not> more then Some (Inr output, (st, c))
          else read_all_from T (output @ incoming st)
                 (st\<lparr>incoming := [], incoming_offset := 0\<rparr>, c)) S"

declare read_all_from.simps [code]

definition read_all :: "'t Transport_ops \<Rightarrow> ('t streaming, byte list) io" where
  "read_all T S =
     (case S of (st, c) \<Rightarrow>
        read_all_from T (drop (incoming_offset st) (incoming st))
          (st\<lparr>incoming := [], incoming_offset := 0\<rparr>, c))"

text \<open>
  The life of a local stream: open it, run the rest of the function, destroy it.
\<close>

definition with_stream ::
  "'t Transport_ops \<Rightarrow> string \<Rightarrow> ('t streaming, 'a) io \<Rightarrow> ('t Connection, 'a) io" where
  "with_stream T svc body c =
     (case stream_open T svc c of
        None \<Rightarrow> None
      | Some (Inl e, c') \<Rightarrow> Some (Inl e, c')
      | Some (Inr st, c') \<Rightarrow>
          (case body (st, c') of
             None \<Rightarrow> None
           | Some (r, S) \<Rightarrow> Some (r, stream_destroy T S)))"

section \<open>What the frames mean for one stream\<close>

datatype stream_event = Data "byte list" | Closed | Unexpected | End

fun next_event :: "u32 \<Rightarrow> Frame list \<Rightarrow> stream_event \<times> Frame list" where
  "next_event lid [] = (End, [])"
| "next_event lid (f # fs) =
     (if arg1 (header f) \<noteq> lid then next_event lid fs
      else if command (header f) = kWrte then (Data (payload f), fs)
      else if command (header f) = kOkay then next_event lid fs
      else if command (header f) = kClse then (Closed, fs)
      else (Unexpected, fs))"

text \<open>The bytes the frames carry for the stream, up to the frame that ends it, and that end.\<close>

fun stream_data :: "u32 \<Rightarrow> Frame list \<Rightarrow> byte list" where
  "stream_data lid [] = []"
| "stream_data lid (f # fs) =
     (if arg1 (header f) \<noteq> lid then stream_data lid fs
      else if command (header f) = kWrte then payload f @ stream_data lid fs
      else if command (header f) = kOkay then stream_data lid fs
      else [])"

fun stream_end :: "u32 \<Rightarrow> Frame list \<Rightarrow> stream_event" where
  "stream_end lid [] = End"
| "stream_end lid (f # fs) =
     (if arg1 (header f) \<noteq> lid \<or> command (header f) = kWrte \<or> command (header f) = kOkay
      then stream_end lid fs
      else if command (header f) = kClse then Closed else Unexpected)"

text \<open>The bytes a read can still hand out: the buffered rest and the data of the frames.\<close>

definition view :: "Stream \<Rightarrow> Frame list \<Rightarrow> byte list" where
  "view st fs = drop (incoming_offset st) (incoming st) @ stream_data (local_id st) fs"

definition okay_frame :: "Stream \<Rightarrow> Frame" where
  "okay_frame st =
     \<lparr>header = make_empty_message kOkay (local_id st) (remote_id st), payload = []\<rparr>"

definition end_error :: "stream_event \<Rightarrow> Error" where
  "end_error e =
     (case e of
        Closed \<Rightarrow> mk_error Protocol ''the device closed the stream''
      | End \<Rightarrow> eof_error
      | _ \<Rightarrow> mk_error Protocol ''unexpected message on the stream'')"

text \<open>The \<open>WRTE\<close> frames for a stream among some frames, and one acknowledgement for each.\<close>

definition writes_for :: "u32 \<Rightarrow> Frame list \<Rightarrow> Frame list" where
  "writes_for lid fs = filter (\<lambda>f. arg1 (header f) = lid \<and> command (header f) = kWrte) fs"

definition acks :: "Stream \<Rightarrow> Frame list \<Rightarrow> Frame list" where
  "acks st fs = map (\<lambda>_. okay_frame st) (writes_for (local_id st) fs)"

lemma acks_simps [simp]:
  "acks st [] = []" "acks st (fs @ gs) = acks st fs @ acks st gs"
  by (simp_all add: acks_def writes_for_def)

lemma stream_end_append:
  "stream_end lid (xs @ ys) = (if stream_end lid xs = End then stream_end lid ys else stream_end lid xs)"
  by (induction xs) auto

lemma next_event_split:
  assumes "next_event lid fs = (e, gs)"
  obtains used where "fs = used @ gs"
    "writes_for lid used = (case e of Data p \<Rightarrow> [last used] | _ \<Rightarrow> [])"
    "stream_data lid fs = (case e of Data p \<Rightarrow> p @ stream_data lid gs | _ \<Rightarrow> [])"
    "stream_end lid fs = (case e of Data p \<Rightarrow> stream_end lid gs | _ \<Rightarrow> e)"
    "(\<exists>p. e = Data p) \<longrightarrow> used \<noteq> []"
    "stream_end lid used = (case e of Data p \<Rightarrow> End | _ \<Rightarrow> e)"
  using assms
proof (induction fs arbitrary: thesis)
  case Nil
  then show ?case by (auto simp: writes_for_def)
next
  case (Cons f fs)
  show ?case
  proof (cases "arg1 (header f) \<noteq> lid \<or> command (header f) = kOkay")
    case True
    with Cons.prems(2) have "next_event lid fs = (e, gs)" by (auto split: if_splits)
    then obtain used where u: "fs = used @ gs"
        "writes_for lid used = (case e of Data p \<Rightarrow> [last used] | _ \<Rightarrow> [])"
        "stream_data lid fs = (case e of Data p \<Rightarrow> p @ stream_data lid gs | _ \<Rightarrow> [])"
        "stream_end lid fs = (case e of Data p \<Rightarrow> stream_end lid gs | _ \<Rightarrow> e)"
        "(\<exists>p. e = Data p) \<longrightarrow> used \<noteq> []"
        "stream_end lid used = (case e of Data p \<Rightarrow> End | _ \<Rightarrow> e)"
      using Cons.IH by blast
    show ?thesis
      by (rule Cons.prems(1) [of "f # used"])
        (use u True in \<open>auto simp: writes_for_def split: stream_event.splits\<close>)
  next
    case False
    with Cons.prems(2) show ?thesis
      by (intro Cons.prems(1) [of "[f]"]) (auto simp: writes_for_def split: if_splits)
  qed
qed

text \<open>Frames that follow those of the stream do not matter before its end is reached.\<close>

lemma next_event_append:
  "next_event lid fs = (e, gs) \<Longrightarrow> tail = [] \<or> e \<noteq> End \<Longrightarrow> next_event lid (fs @ tail) = (e, gs @ tail)"
  by (induction fs) (auto split: if_splits)

section \<open>Streams over a byte channel\<close>

text \<open>What one \<open>receive_more\<close> returns for an event, and what it sends.\<close>

definition event_result :: "Stream \<Rightarrow> stream_event \<Rightarrow> 'c \<Rightarrow> bool Result \<times> (Stream \<times> 'c)" where
  "event_result st e c =
     (case e of
        Data p \<Rightarrow> (Inr True, (st\<lparr>incoming := p, incoming_offset := 0\<rparr>, c))
      | Closed \<Rightarrow> (Inr False, (st\<lparr>stream_closed := True\<rparr>, c))
      | Unexpected \<Rightarrow> (Inl (mk_error Protocol ''unexpected message on the stream''), (st, c))
      | End \<Rightarrow> (Inl eof_error, (st, c)))"

definition event_acks :: "Stream \<Rightarrow> stream_event \<Rightarrow> Frame list" where
  "event_acks st e = (case e of Data p \<Rightarrow> [okay_frame st] | _ \<Rightarrow> [])"

lemma event_simps [simp]:
  "event_result st (Data p) c = (Inr True, (st\<lparr>incoming := p, incoming_offset := 0\<rparr>, c))"
  "event_result st Closed c = (Inr False, (st\<lparr>stream_closed := True\<rparr>, c))"
  "event_result st Unexpected c = (Inl (mk_error Protocol ''unexpected message on the stream''), (st, c))"
  "event_result st End c = (Inl eof_error, (st, c))"
  "event_acks st (Data p) = [okay_frame st]" "event_acks st Closed = []"
  "event_acks st Unexpected = []" "event_acks st End = []"
  by (simp_all add: event_result_def event_acks_def)

text \<open>
  The outcome of reading \<open>n\<close> more bytes, of which \<open>acc\<close> were read before: the bytes of the view
  or the error of the stream's end, the frames used up, and an acknowledgement for each of the
  \<open>WRTE\<close> among them. The frames \<open>tail\<close> follow, for streams that are opened later; they stay.
\<close>

definition same_stream :: "Stream \<Rightarrow> Stream \<Rightarrow> bool" where
  "same_stream st st' \<longleftrightarrow>
     service st = service st' \<and> local_id st = local_id st' \<and> remote_id st = remote_id st'"

lemma acks_same: "same_stream st st' \<Longrightarrow> acks st fs = acks st' fs"
  by (simp add: acks_def okay_frame_def same_stream_def)

definition read_outcome ::
  "('t \<Rightarrow> bool) \<Rightarrow> ('t \<Rightarrow> byte list) \<Rightarrow> ('t \<Rightarrow> byte list) \<Rightarrow> byte list \<Rightarrow> Frame list \<Rightarrow> Stream \<Rightarrow> 't Connection
     \<Rightarrow> Frame list \<Rightarrow> Frame list \<Rightarrow> nat \<Rightarrow> byte list \<Rightarrow> (byte list Result \<times> 't streaming) option \<Rightarrow> bool" where
  "read_outcome good pending sent base tail st c fs out n acc res \<longleftrightarrow>
     (\<exists>st' s' used fs'.
        res = Some (if n \<le> length (view st fs) then Inr (acc @ take n (view st fs))
                    else Inl (end_error (stream_end (local_id st) fs)), (st', c\<lparr>conn_session := s'\<rparr>))
      \<and> fs = used @ fs' \<and> stage good pending sent base s' (fs' @ tail) (out @ acks st used)
      \<and> same_stream st' st
      \<and> (n \<le> length (view st fs) \<longrightarrow> view st' fs' = drop n (view st fs)
           \<and> stream_closed st' = stream_closed st
           \<and> stream_end (local_id st) fs' = stream_end (local_id st) fs))"

lemma empty_message_sel [simp]:
  "data_length (make_empty_message c a b) = 0" "command (make_empty_message c a b) = c"
  "arg0 (make_empty_message c a b) = a" "arg1 (make_empty_message c a b) = b"
  by (simp_all add: make_empty_message_def empty_Message_def)

context byte_channel
begin

text \<open>
  One \<open>receive_more\<close>: it always returns when the peer's bytes end, it takes the next event of the
  stream, and it acknowledges data before anything else is sent.
\<close>

lemma receive_more_spec:
  assumes "conn_stage good pending sent base c fs out" "next_event (local_id st) fs = (e, gs)"
  shows "\<exists>s'. receive_more T (st, c) = Some (event_result st e (c\<lparr>conn_session := s'\<rparr>))
    \<and> stage good pending sent base s' gs (out @ event_acks st e)"
  using assms
proof (induction fs arbitrary: c)
  case Nil
  show ?case
    by (rule connection_receive_stage_end [OF Nil(1)], subst receive_more.simps) (use Nil(2) in auto)
next
  case (Cons f fs)
  obtain s1 where rc: "connection_receive T c = (Inr f, c\<lparr>conn_session := s1\<rparr>)"
    and st1: "conn_stage good pending sent base (c\<lparr>conn_session := s1\<rparr>) fs out"
    using connection_receive_stage [OF Cons.prems(1)] Cons.prems(1) by auto
  show ?case
  proof (cases "arg1 (header f) \<noteq> local_id st \<or> command (header f) = kOkay")
    case True
    with Cons.prems(2) have "next_event (local_id st) fs = (e, gs)" by (auto split: if_splits)
    from Cons.IH [OF st1 this] True rc show ?thesis
      by (subst receive_more.simps) auto
  next
    case mine: False
    obtain s2 where sd: "connection_send T (make_empty_message kOkay (local_id st) (remote_id st)) []
        (c\<lparr>conn_session := s1\<rparr>) = (Inr (), c\<lparr>conn_session := s2\<rparr>)"
      and st2: "stage good pending sent base s2 fs (out @ [okay_frame st])"
      using connection_send_stage [OF st1, of "make_empty_message kOkay (local_id st) (remote_id st)" "[]"]
      by (auto simp: okay_frame_def)
    from mine rc sd st1 st2 Cons.prems(2) show ?thesis
      by (subst receive_more.simps) (auto split: if_splits)
  qed
qed

text \<open>
  Reading: the loop hands out the next bytes of the view, or the error that the end of the
  stream calls for, and sends one acknowledgement per \<open>WRTE\<close> it used up.
\<close>

lemma ensure_buffered_spec:
  assumes "conn_stage good pending sent base c fs out" "length (incoming st) \<le> incoming_offset st"
    and "next_event (local_id st) fs = (e, gs)"
  shows "\<exists>s'. ensure_buffered T (st, c) = Some
      (case e of Data p \<Rightarrow> Inr () | _ \<Rightarrow> Inl (end_error e), (snd (event_result st e (c\<lparr>conn_session := s'\<rparr>))))
    \<and> stage good pending sent base s' gs (out @ event_acks st e)"
  using receive_more_spec [OF assms(1,3)] assms(2)
  by (cases e) (auto simp: ensure_buffered_def bind_io_def seq_simps end_error_def)

lemma read_outcome_take:
  assumes "read_outcome good pending sent base tail st1 c fs out (n - k) (acc @ xs) res"
    and "view st fs = xs @ view st1 fs" "length xs = k" "k \<le> n" "same_stream st1 st"
    "stream_closed st1 = stream_closed st"
  shows "read_outcome good pending sent base tail st c fs out n acc res"
proof -
  have iff: "n - k \<le> length (view st1 fs) \<longleftrightarrow> n \<le> length (view st fs)"
    and bytes: "acc @ take n (view st fs) = (acc @ xs) @ take (n - k) (view st1 fs)"
      "drop n (view st fs) = drop (n - k) (view st1 fs)"
    and ids: "local_id st1 = local_id st"
    using assms by (auto simp: same_stream_def)
  from assms(1) show ?thesis
    unfolding read_outcome_def iff bytes ids acks_same [OF assms(5)] assms(6)
    using assms(5) by (auto simp only: same_stream_def)
qed

lemma read_outcome_frames:
  assumes "read_outcome good pending sent base tail st1 (c\<lparr>conn_session := s1\<rparr>) gs (out @ acks st used) n acc res"
    and "fs = used @ gs" "view st fs = view st1 gs" "same_stream st1 st"
    "stream_closed st1 = stream_closed st"
    "stream_end (local_id st) fs = stream_end (local_id st) gs"
  shows "read_outcome good pending sent base tail st c fs out n acc res"
proof -
  have ids: "local_id st1 = local_id st" using assms(4) by (simp add: same_stream_def)
  obtain st' s' used' fs' where
    "res = Some (if n \<le> length (view st1 gs) then Inr (acc @ take n (view st1 gs))
         else Inl (end_error (stream_end (local_id st) gs)), (st', c\<lparr>conn_session := s1, conn_session := s'\<rparr>))"
    and "gs = used' @ fs'" "stage good pending sent base s' (fs' @ tail) ((out @ acks st used) @ acks st used')"
    "same_stream st' st1"
    "n \<le> length (view st1 gs) \<longrightarrow> view st' fs' = drop n (view st1 gs)
       \<and> stream_closed st' = stream_closed st
       \<and> stream_end (local_id st) fs' = stream_end (local_id st) gs"
    using assms(1) unfolding read_outcome_def acks_same [OF assms(4)] assms(5) ids by blast
  then show ?thesis
    unfolding read_outcome_def
    by (intro exI [of _ st'] exI [of _ s'] exI [of _ "used @ used'"] exI [of _ fs'])
      (use assms(2-) in \<open>simp add: same_stream_def\<close>)
qed

lemma read_from_buffered:
  assumes "ensure_buffered T (st, c) = Some (Inr (), (st1, c1))" "length buf < sz"
    and "incoming_offset st1 = 0"
  shows "stream_read_from T sz buf (st, c) = stream_read_from T sz buf (st1, c1)"
proof (cases "incoming st1 = []")
  case True
  have same: "st1\<lparr>incoming_offset := 0\<rparr> = st1" using assms(3) by (cases st1) simp
  show ?thesis
    by (subst stream_read_from.simps) (simp add: seq_simps Let_def assms True same)
next
  case False
  with assms show ?thesis
    by (subst (1 2) stream_read_from.simps) (simp add: seq_simps Let_def ensure_buffered_def)
qed

lemma stream_read_from_outcome:
  assumes "conn_stage good pending sent base c (fs @ tail) out" "length buf \<le> sz"
    and "n = sz - length buf" "m = length fs + n" "tail = [] \<or> n \<le> length (view st fs)"
  shows "read_outcome good pending sent base tail st c fs out n buf (stream_read_from T sz buf (st, c))"
  using assms
proof (induction m arbitrary: st c fs out buf n rule: less_induct)
  case (less m)
  consider (full) "length buf = sz" | (buffered) "length buf < sz" "incoming_offset st < length (incoming st)"
    | (empty) "length buf < sz" "length (incoming st) \<le> incoming_offset st"
    using less.prems(2) by linarith
  then show ?case
  proof cases
    case full
    with less.prems show ?thesis
      unfolding read_outcome_def
      by (intro exI [of _ st] exI [of _ "conn_session c"] exI [of _ "[]"] exI [of _ fs])
        (simp add: stream_read_from.simps same_stream_def)
  next
    case buffered
    define k where "k = min (length (incoming st) - incoming_offset st) n"
    define xs where "xs = take k (drop (incoming_offset st) (incoming st))"
    define st1 where "st1 = st\<lparr>incoming_offset := incoming_offset st + k\<rparr>"
    have k: "0 < k" "k \<le> n" "length xs = k"
      using less.prems buffered by (auto simp: k_def xs_def)
    have v: "view st fs = xs @ view st1 fs"
      by (simp add: view_def st1_def xs_def)
    have "stream_read_from T sz buf (st, c) = stream_read_from T sz (buf @ xs) (st1, c)"
      using buffered less.prems
      by (subst stream_read_from.simps)
        (simp add: ensure_buffered_def seq_simps Let_def k_def st1_def xs_def)
    moreover have "read_outcome good pending sent base tail st1 c fs out (n - k) (buf @ xs)
        (stream_read_from T sz (buf @ xs) (st1, c))"
      using k less.prems by (intro less.IH [OF _ _ _ _ refl]) (auto simp: v)
    ultimately show ?thesis
      using k v by (auto intro!: read_outcome_take [of _ _ st1 c fs out n k buf xs] simp: same_stream_def st1_def)
  next
    case empty
    obtain e gs where ev: "next_event (local_id st) fs = (e, gs)" by fastforce
    then obtain used where used: "fs = used @ gs"
      "writes_for (local_id st) used = (case e of Data p \<Rightarrow> [last used] | _ \<Rightarrow> [])"
      "stream_data (local_id st) fs = (case e of Data p \<Rightarrow> p @ stream_data (local_id st) gs | _ \<Rightarrow> [])"
      "stream_end (local_id st) fs = (case e of Data p \<Rightarrow> stream_end (local_id st) gs | _ \<Rightarrow> e)"
      "(\<exists>p. e = Data p) \<longrightarrow> used \<noteq> []"
      by (rule next_event_split)
    have v: "view st fs = stream_data (local_id st) fs"
      using empty by (simp add: view_def)
    have "tail = [] \<or> e \<noteq> End"
      using less.prems(2,3,5) empty v used(3) by auto
    note ev' = next_event_append [OF ev this]
    obtain s1 where eb: "ensure_buffered T (st, c) = Some
        (case e of Data p \<Rightarrow> Inr () | _ \<Rightarrow> Inl (end_error e), snd (event_result st e (c\<lparr>conn_session := s1\<rparr>)))"
      and st1: "stage good pending sent base s1 (gs @ tail) (out @ event_acks st e)"
      using ensure_buffered_spec [OF less.prems(1) empty(2) ev'] by auto
    have acks: "event_acks st e = acks st used"
      using used(2) by (cases e) (auto simp: acks_def)
    have staged: "stage good pending sent base s1 (gs @ tail) (out @ acks st used)"
      using st1 by (simp only: acks)
    show ?thesis
    proof (cases "\<exists>p. e = Data p")
      case True
      then obtain p where p: "e = Data p" ..
      define st1 c1 where "st1 = st\<lparr>incoming := p, incoming_offset := 0\<rparr>"
        and "c1 = c\<lparr>conn_session := s1\<rparr>"
      have "stream_read_from T sz buf (st, c) = stream_read_from T sz buf (st1, c1)"
        using eb p empty by (intro read_from_buffered) (auto simp: st1_def c1_def)
      moreover have "read_outcome good pending sent base tail st1 c1 gs (out @ acks st used) n buf
          (stream_read_from T sz buf (st1, c1))"
      proof (rule less.IH [OF _ _ less.prems(2,3) refl])
        show "length gs + n < m" using less.prems(4) used(1,5) p by simp
        show "conn_stage good pending sent base c1 (gs @ tail) (out @ acks st used)"
          using staged less.prems(1) by (simp add: c1_def)
        show "tail = [] \<or> n \<le> length (view st1 gs)"
          using less.prems(5) v used(3) p by (auto simp: st1_def view_def)
      qed
      ultimately show ?thesis
        using used p v
        by (auto intro!: read_outcome_frames [of _ _ st1 s1 c gs out st used]
            simp: c1_def st1_def same_stream_def view_def)
    next
      case False
      then have "view st fs = []" "stream_end (local_id st) fs = e"
        using used v by (auto split: stream_event.splits)
      moreover have "stream_read_from T sz buf (st, c) =
          Some (Inl (end_error e), snd (event_result st e (c\<lparr>conn_session := s1\<rparr>)))"
        using eb False empty by (subst stream_read_from.simps) (cases e; simp add: seq_simps)
      ultimately show ?thesis
        using False used(1) st1 acks less.prems empty
        unfolding read_outcome_def
        by (intro exI [of _ "fst (snd (event_result st e c))"] exI [of _ s1] exI [of _ used] exI [of _ gs])
          (cases e; simp add: same_stream_def)
    qed
  qed
qed

end

end
