(* ===== verification/Adb_Stream_Spec.thy ===== *)
theory Adb_Stream_Spec
  imports Adb_Stream
begin

text \<open>
  What the stream operations do over a byte channel: opening, writing, reading to the end and
  closing, each as a function of the frames the device sends. The section on dialogues then
  forgets the frames: a service sees one sequence of bytes to read, the way that sequence ends,
  and the frames it has sent itself. The proofs of the shell and sync services rest on it.
\<close>

section \<open>The frames of a stream\<close>

definition open_frame :: "u32 \<Rightarrow> u32 \<Rightarrow> string \<Rightarrow> Frame" where
  "open_frame lid window svc =
     (let p = bytes_of_string svc @ [0] in
      \<lparr>header = empty_Message\<lparr>command := kOpen, arg0 := lid, arg1 := window,
         data_length := of_nat (length p), data_check := compute_checksum p,
         magic := compute_magic kOpen\<rparr>, payload = p\<rparr>)"

definition wrte_frame :: "Stream \<Rightarrow> byte list \<Rightarrow> Frame" where
  "wrte_frame st p =
     \<lparr>header = empty_Message\<lparr>command := kWrte, arg0 := local_id st, arg1 := remote_id st,
        data_length := of_nat (length p), data_check := compute_checksum p,
        magic := compute_magic kWrte\<rparr>, payload = p\<rparr>"

definition clse_frame :: "Stream \<Rightarrow> Frame" where
  "clse_frame st =
     \<lparr>header = make_empty_message kClse (local_id st) (remote_id st), payload = []\<rparr>"

text \<open>The device's answer to an OPEN: the first frame addressed to the new stream.\<close>

definition open_reply :: "u32 \<Rightarrow> Frame list \<Rightarrow> u32 Result \<times> Frame list" where
  "open_reply lid fs =
     (case dropWhile (\<lambda>f. arg1 (header f) \<noteq> lid) fs of
        [] \<Rightarrow> (Inl eof_error, [])
      | f # gs \<Rightarrow>
          (if command (header f) = kOkay then Inr (arg0 (header f))
           else Inl (mk_error Protocol ''failed to open the stream''), gs))"

definition opened :: "string \<Rightarrow> u32 \<Rightarrow> u32 \<Rightarrow> Stream" where
  "opened svc lid rid =
     \<lparr>service = svc, local_id = lid, remote_id = rid, stream_closed = False, incoming = [],
      incoming_offset = 0\<rparr>"

lemma opened_sel [simp]:
  "service (opened svc lid rid) = svc" "local_id (opened svc lid rid) = lid"
  "remote_id (opened svc lid rid) = rid" "\<not> stream_closed (opened svc lid rid)"
  "incoming (opened svc lid rid) = []" "incoming_offset (opened svc lid rid) = 0"
  "(opened svc lid rid)\<lparr>remote_id := rid'\<rparr> = opened svc lid rid'"
  by (simp_all add: opened_def)

lemma stream_new_eq:
  "stream_new svc c = (opened svc (next_local_id c) 0, c\<lparr>next_local_id := next_local_id c + 1\<rparr>)"
  by (simp add: stream_new_def allocate_local_id_def opened_def)

lemma make_message_small:
  "length p < 2 ^ 31 \<Longrightarrow> make_message c a0 a1 p =
     Inr (empty_Message\<lparr>command := c, arg0 := a0, arg1 := a1, data_length := of_nat (length p),
            data_check := compute_checksum p, magic := compute_magic c\<rparr>)"
  by (simp add: make_message_def data_length_of_small)

context byte_channel
begin

lemma connection_send_frame:
  assumes "conn_stage good pending sent base c fs out" "unat (data_length (header f)) = length (payload f)"
    and "length (payload f) < 2 ^ 31"
  shows "\<exists>s'. connection_send T (header f) (payload f) c = (Inr (), c\<lparr>conn_session := s'\<rparr>)
    \<and> stage good pending sent base s' fs (out @ [f])"
proof -
  obtain s' where "connection_send T (header f) (payload f) c = (Inr (), c\<lparr>conn_session := s'\<rparr>)"
    "stage good pending sent base s' fs (out @ [\<lparr>header = header f, payload = payload f\<rparr>])"
    by (rule connection_send_stage [OF assms])
  then show ?thesis by (auto simp: Frame_eta)
qed

lemma close_now_stage:
  assumes "conn_stage good pending sent base c fs out"
  shows "\<exists>s'. close_now T (st, c) = (st\<lparr>stream_closed := True\<rparr>, c\<lparr>conn_session := s'\<rparr>)
    \<and> stage good pending sent base s' fs (out @ (if stream_closed st then [] else [clse_frame st]))"
proof (cases "stream_closed st")
  case True
  then have "st\<lparr>stream_closed := True\<rparr> = st" by (cases st) simp
  with True assms show ?thesis
    by (intro exI [of _ "conn_session c"]) (simp add: close_now_def)
next
  case False
  with connection_send_frame [OF assms, of "clse_frame st"]
  show ?thesis by (auto simp: close_now_def clse_frame_def)
qed

lemma stream_destroy_stage:
  assumes "conn_stage good pending sent base c fs out"
  shows "\<exists>s'. stream_destroy T (st, c) = c\<lparr>conn_session := s'\<rparr>
    \<and> stage good pending sent base s' fs (out @ (if stream_closed st then [] else [clse_frame st]))"
  using close_now_stage [OF assms, of st] by (auto simp: stream_destroy_def)

text \<open>Opening.\<close>

lemma open_wait_spec:
  assumes "conn_stage good pending sent base c fs out"
  shows "\<exists>s'. open_wait T lid c = Some (fst (open_reply lid fs), c\<lparr>conn_session := s'\<rparr>)
    \<and> stage good pending sent base s' (snd (open_reply lid fs)) out"
  using assms
proof (induction fs arbitrary: c)
  case Nil
  show ?case
    by (rule connection_receive_stage_end [OF Nil], subst open_wait.simps) (auto simp: open_reply_def)
next
  case (Cons f fs)
  obtain s1 where rc: "connection_receive T c = (Inr f, c\<lparr>conn_session := s1\<rparr>)"
    and st1: "conn_stage good pending sent base (c\<lparr>conn_session := s1\<rparr>) fs out"
    using connection_receive_stage [OF Cons.prems(1)] Cons.prems(1) by auto
  with Cons.IH [OF st1] show ?case
    by (subst open_wait.simps) (auto simp: open_reply_def)
qed

lemma open_request_spec:
  assumes "conn_stage good pending sent base c fs out" "Suc (length svc) < 2 ^ 31"
  shows "\<exists>s'. open_request T svc (st, c) =
      Some (fst (open_reply (local_id st) fs), c\<lparr>conn_session := s'\<rparr>)
    \<and> stage good pending sent base s' (snd (open_reply (local_id st) fs))
        (out @ [open_frame (local_id st) (if delayed_ack c then kInitialDelayedAckBytes else 0) svc])"
proof -
  let ?p = "bytes_of_string svc @ [0]"
  let ?f = "open_frame (local_id st) (if delayed_ack c then kInitialDelayedAckBytes else 0) svc"
  have len: "length ?p < 2 ^ 31" using assms(2) by simp
  have f: "payload ?f = ?p" "unat (data_length (header ?f)) = length ?p"
    using len by (simp_all add: open_frame_def Let_def unat_of_nat del: of_nat_Suc)
  obtain s1 where 1: "connection_send T (header ?f) ?p c = (Inr (), c\<lparr>conn_session := s1\<rparr>)"
    and st1: "stage good pending sent base s1 fs (out @ [?f])"
    using connection_send_frame [OF assms(1), of ?f] f len by auto
  have "make_message kOpen (local_id st) (if delayed_ack c then kInitialDelayedAckBytes else 0) ?p
      = Inr (header ?f)"
    using make_message_small [OF len] by (simp add: open_frame_def Let_def)
  with 1 have "open_request T svc (st, c) = open_wait T (local_id st) (c\<lparr>conn_session := s1\<rparr>)"
    by (simp add: open_request_def Let_def)
  with open_wait_spec [of base "c\<lparr>conn_session := s1\<rparr>" fs "out @ [?f]" "local_id st"] st1 assms(1)
  show ?thesis by auto
qed

lemma stream_open_spec:
  fixes c :: "'t Connection"
  assumes "conn_stage good pending sent base c fs out" "Suc (length svc) < 2 ^ 31"
  defines "lid \<equiv> next_local_id c" and "win \<equiv> if delayed_ack c then kInitialDelayedAckBytes else 0"
  shows "\<exists>s'. stream_open T svc c =
      Some (map_sum id (opened svc lid) (fst (open_reply lid fs)),
            c\<lparr>next_local_id := lid + 1, conn_session := s'\<rparr>)
    \<and> stage good pending sent base s' (snd (open_reply lid fs))
        (out @ open_frame lid win svc #
           (case fst (open_reply lid fs) of Inl _ \<Rightarrow> [clse_frame (opened svc lid 0)] | Inr _ \<Rightarrow> []))"
proof -
  let ?st = "opened svc lid 0" and ?c1 = "c\<lparr>next_local_id := lid + 1\<rparr>"
  have "conn_stage good pending sent base ?c1 fs out" using assms(1) by simp
  from open_request_spec [OF this assms(2), of ?st] obtain s1 where
    1: "open_request T svc (?st, ?c1) = Some (fst (open_reply lid fs), ?c1\<lparr>conn_session := s1\<rparr>)"
    and st1: "conn_stage good pending sent base (?c1\<lparr>conn_session := s1\<rparr>) (snd (open_reply lid fs))
      (out @ [open_frame lid win svc])"
    using assms(1) by (auto simp: win_def)
  show ?thesis
  proof (cases "fst (open_reply lid fs)")
    case (Inl e)
    with 1 stream_destroy_stage [OF st1, of ?st] show ?thesis
      by (auto simp: stream_open_def stream_new_eq lid_def)
  next
    case (Inr rid)
    with 1 st1 show ?thesis
      by (auto simp: stream_open_def stream_new_eq lid_def)
  qed
qed

text \<open>Writing.\<close>

lemma stream_write_spec:
  assumes "conn_stage good pending sent base c fs out" "length data \<le> unat (max_data c)"
  shows "\<exists>s'. stream_write T data (st, c) = (Inr (), (st, c\<lparr>conn_session := s'\<rparr>))
    \<and> stage good pending sent base s' fs (out @ [wrte_frame st data])"
proof -
  let ?f = "wrte_frame st data"
  have len: "length data < 2 ^ 31" using assms(1,2) by simp
  then have f: "payload ?f = data" "unat (data_length (header ?f)) = length data"
    by (simp_all add: wrte_frame_def unat_of_nat)
  obtain s1 where 1: "connection_send T (header ?f) data c = (Inr (), c\<lparr>conn_session := s1\<rparr>)"
    and st1: "stage good pending sent base s1 fs (out @ [?f])"
    using connection_send_frame [OF assms(1), of ?f] f len by auto
  have "make_message kWrte (local_id st) (remote_id st) data = Inr (header ?f)"
    using make_message_small [OF len] by (simp add: wrte_frame_def)
  with 1 st1 assms(2) show ?thesis
    by (auto simp: stream_write_def)
qed

text \<open>Reading to the end.\<close>

lemma read_all_from_spec:
  assumes "conn_stage good pending sent base c (fs @ tail) out" "tail = [] \<or> stream_end (local_id st) fs = Closed"
  shows "\<exists>st' s' used gs. read_all_from T acc (st, c) =
      Some (if stream_end (local_id st) fs = Closed then Inr (acc @ stream_data (local_id st) fs)
            else Inl (end_error (stream_end (local_id st) fs)), (st', c\<lparr>conn_session := s'\<rparr>))
    \<and> fs = used @ gs \<and> stage good pending sent base s' (gs @ tail) (out @ acks st used)
    \<and> same_stream st' st
    \<and> stream_closed st' = (stream_closed st \<or> stream_end (local_id st) fs = Closed)
    \<and> (stream_end (local_id st) fs = Closed \<longrightarrow> stream_end (local_id st) used = Closed)"
  using assms
proof (induction "length fs" arbitrary: st c fs out acc rule: less_induct)
  case less
  obtain e gs where ev: "next_event (local_id st) fs = (e, gs)" by fastforce
  then obtain used where used: "fs = used @ gs"
    "writes_for (local_id st) used = (case e of Data p \<Rightarrow> [last used] | _ \<Rightarrow> [])"
    "stream_data (local_id st) fs = (case e of Data p \<Rightarrow> p @ stream_data (local_id st) gs | _ \<Rightarrow> [])"
    "stream_end (local_id st) fs = (case e of Data p \<Rightarrow> stream_end (local_id st) gs | _ \<Rightarrow> e)"
    "(\<exists>p. e = Data p) \<longrightarrow> used \<noteq> []" "stream_end (local_id st) used = (case e of Data p \<Rightarrow> End | _ \<Rightarrow> e)"
    by (rule next_event_split)
  have ends: "tail = [] \<or> e \<noteq> End" using less.prems(2) used(4) by auto
  obtain s1 where rm: "receive_more T (st, c) = Some (event_result st e (c\<lparr>conn_session := s1\<rparr>))"
    and st1: "stage good pending sent base s1 (gs @ tail) (out @ event_acks st e)"
    using receive_more_spec [OF less.prems(1) next_event_append [OF ev]] ends by blast
  have acks: "event_acks st e = acks st used"
    using used(2) by (cases e) (auto simp: acks_def)
  have staged: "stage good pending sent base s1 (gs @ tail) (out @ acks st used)"
    using st1 by (simp only: acks)
  show ?case
  proof (cases "\<exists>p. e = Data p")
    case False
    with rm used staged show ?thesis
      by (subst read_all_from.simps, intro exI [of _ "fst (snd (event_result st e c))"] exI [of _ s1]
          exI [of _ used] exI [of _ gs])
        (cases e; simp add: bind_io_def same_stream_def end_error_def)
  next
    case True
    then obtain p where p: "e = Data p" ..
    let ?st = "st\<lparr>incoming := [], incoming_offset := 0\<rparr>" and ?c = "c\<lparr>conn_session := s1\<rparr>"
    have eqs: "acks ?st = acks st" "same_stream st' ?st = same_stream st' st"
      "local_id ?st = local_id st" "stream_closed ?st = stream_closed st" for st'
      by (simp_all add: acks_def okay_frame_def fun_eq_iff same_stream_def)
    have step: "read_all_from T acc (st, c) = read_all_from T (acc @ p) (?st, ?c)"
      using rm p by (subst read_all_from.simps) (simp add: bind_io_def)
    have "length gs < length fs" "conn_stage good pending sent base ?c (gs @ tail) (out @ acks st used)"
      "tail = [] \<or> stream_end (local_id ?st) gs = Closed"
      using used(1,4,5) p staged less.prems(1,2) by simp_all
    from less.hyps [OF this, of "acc @ p"] obtain st' s' used' gs' where
      rest: "read_all_from T acc (st, c) = Some (if stream_end (local_id st) gs = Closed
          then Inr ((acc @ p) @ stream_data (local_id st) gs)
          else Inl (end_error (stream_end (local_id st) gs)), (st', ?c\<lparr>conn_session := s'\<rparr>))"
      "gs = used' @ gs'" "stage good pending sent base s' (gs' @ tail) ((out @ acks st used) @ acks st used')"
      "same_stream st' st" "stream_closed st' = (stream_closed st \<or> stream_end (local_id st) gs = Closed)"
      "stream_end (local_id st) gs = Closed \<longrightarrow> stream_end (local_id st) used' = Closed"
      unfolding eqs step by blast
    have "stream_end (local_id st) gs = Closed \<longrightarrow> stream_end (local_id st) (used @ used') = Closed"
      using used(6) p rest(6) by (simp add: stream_end_append)
    with used(1-4) p rest(1-5) show ?thesis
      by (intro exI [of _ st'] exI [of _ s'] exI [of _ "used @ used'"] exI [of _ gs'])
        (simp add: same_stream_def)
  qed
qed

lemma read_all_spec:
  assumes "conn_stage good pending sent base c (fs @ tail) out" "tail = [] \<or> stream_end (local_id st) fs = Closed"
  shows "\<exists>st' s' used gs. read_all T (st, c) =
      Some (if stream_end (local_id st) fs = Closed then Inr (view st fs)
            else Inl (end_error (stream_end (local_id st) fs)), (st', c\<lparr>conn_session := s'\<rparr>))
    \<and> fs = used @ gs \<and> stage good pending sent base s' (gs @ tail) (out @ acks st used)
    \<and> same_stream st' st
    \<and> stream_closed st' = (stream_closed st \<or> stream_end (local_id st) fs = Closed)
    \<and> (stream_end (local_id st) fs = Closed \<longrightarrow> stream_end (local_id st) used = Closed)"
proof -
  let ?st = "st\<lparr>incoming := [], incoming_offset := 0\<rparr>"
  have eqs: "acks ?st = acks st" "same_stream st' ?st = same_stream st' st"
    "local_id ?st = local_id st" "stream_closed ?st = stream_closed st" for st'
    by (simp_all add: acks_def okay_frame_def fun_eq_iff same_stream_def)
  have "read_all T (st, c) = read_all_from T (drop (incoming_offset st) (incoming st)) (?st, c)"
    by (simp add: read_all_def)
  then show ?thesis
    using read_all_from_spec [OF assms(1), of ?st "drop (incoming_offset st) (incoming st)"] assms(2)
    by (simp only: view_def eqs simp_thms)
qed

end

section \<open>Properties\<close>

text \<open>Concrete connections for the witnesses: an OKAY, two pieces of data and a CLSE for stream 2.\<close>

definition device_frame :: "u32 \<Rightarrow> u32 \<Rightarrow> byte list \<Rightarrow> Frame" where
  "device_frame cmd lid p =
     \<lparr>header = \<lparr>command = cmd, arg0 = 9, arg1 = lid, data_length = of_nat (length p), data_check = 0,
        magic = compute_magic cmd\<rparr>, payload = p\<rparr>"

lemma device_frame_sel [simp]:
  "command (header (device_frame cmd lid p)) = cmd" "arg1 (header (device_frame cmd lid p)) = lid"
  "arg0 (header (device_frame cmd lid p)) = 9" "payload (device_frame cmd lid p) = p"
  by (simp_all add: device_frame_def)

lemma valid_device_frame [simp]: "length p \<le> 1000 \<Longrightarrow> valid_frame (device_frame cmd lid p)"
  by (simp add: valid_frame_def device_frame_def unat_of_nat)

definition mock_connection :: "Frame list \<Rightarrow> MockTransport Connection" where
  "mock_connection fs = (connection_new (mock_feed (wire fs) mock_new))\<lparr>max_data := 4096\<rparr>"

lemma mock_connection_sel [simp]:
  "next_local_id (mock_connection fs) = 2" "max_data (mock_connection fs) = 4096"
  "\<not> delayed_ack (mock_connection fs)" "features (mock_connection fs) = []"
  by (simp_all add: mock_connection_def connection_new_def)

lemma mock_connection_stage [simp]:
  "list_all valid_frame fs \<Longrightarrow>
     conn_stage mock_good mock_pending mock_written [] (mock_connection fs) fs []"
  by (simp add: mock_connection_def connection_new_def session_new_def stage_def live_def inbox_def
      outbox_def mock_pending_feed)

text \<open>
  C12. Opening a stream: the host sends one OPEN with the service name, its NUL and a window when
  delayed acknowledgements are on; it skips frames for other streams, and takes the first frame
  addressed to the new stream as the answer. An OKAY gives a stream with the device's id; anything
  else, or the end of the connection, gives an error, after which the destructor of the stream
  object has sent a CLSE. The local id is used up in every case.
\<close>

theorem stream_open_correct:
  fixes c :: "'t Connection"
  assumes "byte_channel T good pending sent" "conn_stage good pending sent base c fs out"
    and "Suc (length svc) < 2 ^ 31"
  defines "lid \<equiv> next_local_id c" and "win \<equiv> if delayed_ack c then kInitialDelayedAckBytes else 0"
  shows "\<exists>s'. stream_open T svc c =
      Some (map_sum id (opened svc lid) (fst (open_reply lid fs)),
            c\<lparr>next_local_id := lid + 1, conn_session := s'\<rparr>)
    \<and> stage good pending sent base s' (snd (open_reply lid fs))
        (out @ open_frame lid win svc #
           (case fst (open_reply lid fs) of Inl _ \<Rightarrow> [clse_frame (opened svc lid 0)] | Inr _ \<Rightarrow> []))"
  using byte_channel.stream_open_spec [OF assms(1-3)] unfolding lid_def win_def .

theorem stream_open_correct_witness:
  "\<exists>s'. stream_open mock_ops ''shell:id'' (mock_connection [device_frame kOkay 5 [], device_frame kOkay 2 []]) =
      Some (Inr (opened ''shell:id'' 2 9),
        (mock_connection [device_frame kOkay 5 [], device_frame kOkay 2 []])
          \<lparr>next_local_id := 3, conn_session := s'\<rparr>)
    \<and> stage mock_good mock_pending mock_written [] s' [] [open_frame 2 0 ''shell:id'']"
  using stream_open_correct [OF mock.byte_channel_axioms, of "[]"
      "mock_connection [device_frame kOkay 5 [], device_frame kOkay 2 []]"
      "[device_frame kOkay 5 [], device_frame kOkay 2 []]" "[]" "''shell:id''"]
  by (simp add: open_reply_def)





text \<open>
  C27. Writing to a stream: at most the negotiated maximum goes out, as one \<open>WRTE\<close> frame with the
  stream's ids whose header describes the payload; more than that is refused with nothing written
  and nothing changed.
\<close>

theorem stream_write_correct:
  assumes "byte_channel T good pending sent" "conn_stage good pending sent base c fs out"
  shows "if length data \<le> unat (max_data c) then
      \<exists>s'. stream_write T data (st, c) = (Inr (), (st, c\<lparr>conn_session := s'\<rparr>))
        \<and> stage good pending sent base s' fs (out @ [wrte_frame st data])
    else stream_write T data (st, c) =
      (Inl (mk_error InvalidArgument ''the write is larger than the negotiated maximum payload''), (st, c))"
  using byte_channel.stream_write_spec [OF assms] by (simp add: stream_write_def)

theorem stream_write_correct_witness:
  "\<exists>s'. stream_write mock_ops [1, 2] (opened ''sync:'' 2 9, mock_connection []) =
      (Inr (), (opened ''sync:'' 2 9, (mock_connection [])\<lparr>conn_session := s'\<rparr>))
    \<and> stage mock_good mock_pending mock_written [] s' [] [wrte_frame (opened ''sync:'' 2 9) [1, 2]]"
  using stream_write_correct [OF mock.byte_channel_axioms, of "[]" "mock_connection []" "[]" "[]" "[1, 2]"]
  by simp

text \<open>
  C28. A stream is closed once. Destroying an open stream sends exactly one CLSE with its ids; after
  a move, destroying the moved-from object changes nothing and destroying the new one sends that
  single CLSE; assigning over an open stream closes the stream it held; and closing again sends
  nothing.
\<close>

theorem stream_closes_once:
  assumes "byte_channel T good pending sent" "conn_stage good pending sent base c fs out"
    and "\<not> stream_closed st" "stream_move st = (new, old)"
  shows "stream_destroy T (old, c) = c
    \<and> (\<exists>s'. stream_destroy T (new, c) = c\<lparr>conn_session := s'\<rparr>
         \<and> stage good pending sent base s' fs (out @ [clse_frame st])
         \<and> close_now T (close_now T (new, c)) = close_now T (new, c)
         \<and> stream_move_assign T other (new, c) = (snd (stream_move other), (other, c\<lparr>conn_session := s'\<rparr>)))"
proof -
  have new: "new = st" "stream_closed old" using assms(4) by (auto simp: stream_move_def)
  obtain s' where s': "close_now T (st, c) = (st\<lparr>stream_closed := True\<rparr>, c\<lparr>conn_session := s'\<rparr>)"
    "stage good pending sent base s' fs (out @ [clse_frame st])"
    using byte_channel.close_now_stage [OF assms(1,2), of st] assms(3) by auto
  moreover have "close_now T (st\<lparr>stream_closed := True\<rparr>, c') = (st\<lparr>stream_closed := True\<rparr>, c')" for c'
    by (simp add: close_now_def)
  ultimately show ?thesis
    using new by (auto simp: stream_destroy_def close_now_def [of T "(old, c)"] stream_move_assign_def
        stream_move_def Let_def)
qed

theorem stream_closes_once_witness:
  "stream_destroy mock_ops (snd (stream_move (opened ''sync:'' 2 9)), mock_connection []) = mock_connection []
    \<and> (\<exists>s'. stream_destroy mock_ops (opened ''sync:'' 2 9, mock_connection []) =
           (mock_connection [])\<lparr>conn_session := s'\<rparr>
         \<and> stage mock_good mock_pending mock_written [] s' [] [clse_frame (opened ''sync:'' 2 9)])"
  using stream_closes_once [OF mock.byte_channel_axioms, of "[]" "mock_connection []" "[]" "[]"
      "opened ''sync:'' 2 9" "opened ''sync:'' 2 9" "snd (stream_move (opened ''sync:'' 2 9))"]
  by (auto simp: stream_move_def)

section \<open>From the handshake to the streams\<close>

text \<open>
  After a handshake with a device the connection is ready for its streams: the frames the device sends
  next are still to be read, and the first stream gets the id 2.
\<close>

lemma stage_rebase: "stage good pending sent base s fs out = stage good pending sent (base @ wire out) s fs []"
  by (auto simp: stage_def)

context byte_channel
begin

lemma connect_ready:
  assumes "good t" "pending t = wire frames" "list_all valid_frame frames" "fits pk signer"
    and "handshake b adv pk signer frames = (Inr f, out, asked, fs)" "command (header f) = kCnxn"
    and "unat (arg1 (header f)) < 2 ^ 31"
  obtains c where "connect b T t pk signer adv = (Inr (), c)" "conn_stage good pending sent (sent t @ wire out) c fs []"
    "next_local_id c = 2" "max_data c = arg1 (header f)" "features c = parse_features (string_of_bytes (payload f))"
    "delayed_ack c = (adv \<and> kDelayedAckFeature \<in> set (features c))" "requested_authorization c = asked"
proof -
  obtain s' where c: "connect b T t pk signer adv =
      finish_connect adv f ((connection_new t)\<lparr>conn_session := s', requested_authorization := asked\<rparr>)"
    and st: "stage good pending sent (sent t @ wire out) s' fs []"
    using connect_spec [OF assms(1-5)] stage_rebase [of good pending sent "sent t" _ fs out] by auto
  define X where "X = (connection_new t)\<lparr>conn_session := s', requested_authorization := asked\<rparr>"
  have X: "conn_session X = s'" "next_local_id X = 2" "requested_authorization X = asked"
    by (simp_all add: X_def connection_new_def)
  obtain c1 where "finish_connect adv f X = (Inr (), c1)" "conn_session c1 = s'" "next_local_id c1 = 2"
    "max_data c1 = arg1 (header f)" "features c1 = parse_features (string_of_bytes (payload f))"
    "delayed_ack c1 = (adv \<and> kDelayedAckFeature \<in> set (features c1))" "requested_authorization c1 = asked"
    using assms(6) X by (simp add: finish_connect_def Let_def supports_feature_def)
  with c st assms(7) show thesis by (intro that [of c1]) (simp_all add: X_def)
qed

end

end
