(* ===== verification/Adb_Client.thy ===== *)
theory Adb_Client
  imports Adb_Stream_Spec
begin

text \<open>
  A client of the library as a state machine: one connection, the streams that live on it, and the
  calls the client makes, in any order. The connection may have any transport that keeps to the
  buffers it is given, and any device behind it, also one that sends garbage.

  The invariant holds in every state the client can reach: the streams have different ids, no stream
  reads outside its buffer, no buffer grows past the largest payload, and the negotiated values stay
  what the handshake made them.
\<close>

section \<open>Calls\<close>

datatype client_call =
  Open string | Write nat "byte list" | Read nat nat | Read_all nat | Close_stream nat | Close_connection

type_synonym 't client = "'t Connection \<times> Stream list"

inductive client_step :: "'t Transport_ops \<Rightarrow> 't client \<Rightarrow> client_call \<Rightarrow> 't client \<Rightarrow> bool" for T where
  opens_stream: "stream_open T svc c = Some (Inr st, c') \<Longrightarrow> client_step T (c, sts) (Open svc) (c', sts @ [st])"
| open_fails: "stream_open T svc c = Some (Inl e, c') \<Longrightarrow> client_step T (c, sts) (Open svc) (c', sts)"
| writes: "i < length sts \<Longrightarrow> stream_write T data (sts ! i, c) = (r, (st', c')) \<Longrightarrow>
    client_step T (c, sts) (Write i data) (c', sts[i := st'])"
| reads: "i < length sts \<Longrightarrow> stream_read T n (sts ! i, c) = Some (r, (st', c')) \<Longrightarrow>
    client_step T (c, sts) (Read i n) (c', sts[i := st'])"
| reads_all: "i < length sts \<Longrightarrow> read_all T (sts ! i, c) = Some (r, (st', c')) \<Longrightarrow>
    client_step T (c, sts) (Read_all i) (c', sts[i := st'])"
| destroys: "i < length sts \<Longrightarrow> client_step T (c, sts) (Close_stream i)
    (stream_destroy T (sts ! i, c), take i sts @ drop (Suc i) sts)"
| closes: "client_step T (c, sts) Close_connection (connection_close T c, sts)"

inductive client_trace :: "'t Transport_ops \<Rightarrow> 't client \<Rightarrow> client_call list \<Rightarrow> 't client \<Rightarrow> bool" for T where
  start: "client_trace T X [] X"
| next_call: "client_trace T X calls Y \<Longrightarrow> client_step T Y call Z \<Longrightarrow> client_trace T X (calls @ [call]) Z"

definition opens_made :: "client_call list \<Rightarrow> nat" where
  "opens_made calls = length (filter (\<lambda>call. \<exists>svc. call = Open svc) calls)"

lemma opens_made_simps [simp]:
  "opens_made [] = 0" "opens_made (calls @ [Open svc]) = Suc (opens_made calls)"
  "opens_made (calls @ [Write i data]) = opens_made calls" "opens_made (calls @ [Read i n]) = opens_made calls"
  "opens_made (calls @ [Read_all i]) = opens_made calls" "opens_made (calls @ [Close_stream i]) = opens_made calls"
  "opens_made (calls @ [Close_connection]) = opens_made calls"
  by (simp_all add: opens_made_def)

section \<open>What a call may change\<close>

text \<open>A connection changes only in its session, which does not reopen.\<close>

definition on_session :: "'t Connection \<Rightarrow> 't Connection \<Rightarrow> bool" where
  "on_session c c' \<longleftrightarrow>
     (\<exists>s. c' = c\<lparr>conn_session := s\<rparr> \<and> (sess_closed (conn_session c) \<longrightarrow> sess_closed s))"

lemma on_session_refl [simp, intro]: "on_session c c"
  unfolding on_session_def by (intro exI [of _ "conn_session c"]) simp

lemma on_session_trans [trans]: "on_session c c' \<Longrightarrow> on_session c' c'' \<Longrightarrow> on_session c c''"
  unfolding on_session_def by auto

lemma connection_send_on: "connection_send T h p c = (r, c') \<Longrightarrow> on_session c c'"
  using session_send_keeps_closed [of T h p "conn_session c"]
  by (auto simp: connection_send_def on_session_def split: prod.splits)

lemma connection_receive_on: "connection_receive T c = (r, c') \<Longrightarrow> on_session c c'"
  using session_receive_keeps_closed [of T "conn_session c"]
  by (auto simp: connection_receive_def on_session_def split: prod.splits)

lemma close_now_on: "close_now T (st, c) = (st', c') \<Longrightarrow> on_session c c'"
  by (auto simp: close_now_def split: if_splits prod.splits dest: connection_send_on intro: connection_send_on [OF prod.collapse [symmetric]])

lemma stream_destroy_on: "on_session c (stream_destroy T (st, c))"
  using close_now_on [of T st c "fst (close_now T (st, c))"] by (simp add: stream_destroy_def)

text \<open>A stream's buffer, and the parts of a stream that never change.\<close>

definition stream_ok :: "Stream \<Rightarrow> bool" where
  "stream_ok st \<longleftrightarrow> incoming_offset st \<le> length (incoming st) \<and> length (incoming st) \<le> unat kMaxData"

definition advances :: "'t streaming \<Rightarrow> 't streaming \<Rightarrow> bool" where
  "advances S S' \<longleftrightarrow> same_stream (fst S') (fst S) \<and> on_session (snd S) (snd S') \<and> (stream_ok (fst S) \<longrightarrow> stream_ok (fst S'))"

lemma advances_refl [simp, intro]: "advances S S"
  by (simp add: advances_def same_stream_def)

lemma advances_trans [trans]: "advances S S' \<Longrightarrow> advances S' S'' \<Longrightarrow> advances S S''"
  unfolding advances_def by (auto simp: same_stream_def intro: on_session_trans)

context bounded_reads
begin

lemma connection_receive_valid:
  "connection_receive T c = (Inr f, c') \<Longrightarrow> length (payload f) \<le> unat kMaxData"
  by (auto simp: connection_receive_def valid_frame_def split: prod.splits dest!: session_receive_valid(1))

end

lemma advances_buffer:
  assumes "on_session c c'" "length bs \<le> unat kMaxData"
  shows "advances (st, c) (st\<lparr>incoming := bs, incoming_offset := 0\<rparr>, c')"
  using assms by (simp add: advances_def same_stream_def stream_ok_def)

lemma advances_closed: "on_session c c' \<Longrightarrow> advances (st, c) (st\<lparr>stream_closed := True\<rparr>, c')"
  by (simp add: advances_def same_stream_def stream_ok_def)

lemma advances_session: "on_session c c' \<Longrightarrow> advances (st, c) (st, c')"
  by (simp add: advances_def same_stream_def)

lemma receive_more_advances:
  assumes "receive_more T S = Some (r, S')" "bounded_reads T"
  shows "advances S S'"
proof (rule receive_more.raw_induct
    [where P = "\<lambda>T S x. \<forall>r S'. x = (r, S') \<longrightarrow> bounded_reads T \<longrightarrow> advances S S'",
     rule_format, OF _ assms(1) refl assms(2)], goal_cases)
  case (1 f T S x r S')
  obtain st c where S: "S = (st, c)" by (cases S)
  obtain rf c1 where rf: "connection_receive T c = (rf, c1)" by fastforce
  note on1 = connection_receive_on [OF rf]
  show ?case
  proof (cases rf)
    case (Inl e)
    with 1(2,3) rf on1 show ?thesis by (auto simp: S intro: advances_session)
  next
    case (Inr frame)
    let ?send = "connection_send T (make_empty_message kOkay (local_id st) (remote_id st)) [] c1"
    note x = 1(2) [unfolded S prod.case rf Inr sum.case]
    consider (skip) "arg1 (header frame) \<noteq> local_id st \<or> command (header frame) = kOkay"
      | (wrte) "arg1 (header frame) = local_id st" "command (header frame) = kWrte"
      | (other) "arg1 (header frame) = local_id st" "command (header frame) \<noteq> kOkay" "command (header frame) \<noteq> kWrte"
      by blast
    then show ?thesis
    proof cases
      case skip
      then have "f T (st, c1) = Some x" using x by (auto split: if_splits)
      then have "advances (st, c1) S'" by (rule 1(1) [OF _ 1(3,4)])
      with advances_session [OF on1] show ?thesis unfolding S by (rule advances_trans)
    next
      case wrte
      obtain rs c2 where c2: "?send = (rs, c2)" by fastforce
      have "on_session c c2" using on_session_trans [OF on1 connection_send_on [OF c2]] .
      moreover have "S' = (st\<lparr>incoming := payload frame, incoming_offset := 0\<rparr>, c2)"
        using x wrte c2 1(3) by (auto split: sum.splits)
      ultimately show ?thesis
        using advances_buffer bounded_reads.connection_receive_valid [OF 1(4) rf [unfolded Inr]] by (simp add: S)
    next
      case other
      then have "S' = (st\<lparr>stream_closed := True\<rparr>, c1) \<or> S' = (st, c1)"
        using x 1(3) by (auto split: if_splits)
      with on1 show ?thesis unfolding S using advances_closed advances_session by blast
    qed
  qed
qed

lemma ensure_buffered_advances:
  assumes "ensure_buffered T S = Some (r, S')" "bounded_reads T"
  shows "advances S S'"
proof (cases "length (incoming (fst S)) \<le> incoming_offset (fst S)")
  case True
  with assms(1) obtain r1 where "receive_more T S = Some (r1, S')"
    by (auto simp: ensure_buffered_def ok_io_def fail_io_def elim!: bind_io_SomeE split: if_splits)
  then show ?thesis using receive_more_advances assms(2) by blast
next
  case False
  with assms(1) show ?thesis by (auto simp: ensure_buffered_def ok_io_def)
qed

text \<open>A read hands out exactly the bytes that were asked for.\<close>

lemma stream_read_from_advances:
  assumes "stream_read_from T sz buf S = Some (r, S')" "bounded_reads T" "length buf \<le> sz"
  shows "advances S S' \<and> (\<forall>bs. r = Inr bs \<longrightarrow> length bs = sz)"
proof (rule stream_read_from.raw_induct
    [where P = "\<lambda>T sz buf S x. \<forall>r S'. x = (r, S') \<longrightarrow> bounded_reads T \<longrightarrow> length buf \<le> sz \<longrightarrow>
       advances S S' \<and> (\<forall>bs. r = Inr bs \<longrightarrow> length bs = sz)",
     rule_format, OF _ assms(1) refl assms(2,3)], goal_cases)
  case (1 f T sz buf S x r S')
  show ?case
  proof (cases "length buf < sz")
    case False
    with 1 show ?thesis by auto
  next
    case True
    note step = 1(2) [simplified True if_True]
    show ?thesis
    proof (rule bind_io_SomeE [OF step], goal_cases)
      case (1 e S1)
      then have "r = Inl e" "S' = S1" "ensure_buffered T S = Some (Inl e, S1)" using \<open>x = (r, S')\<close> by auto
      with ensure_buffered_advances \<open>bounded_reads T\<close> show ?case by blast
    next
      case (2 u S1)
      obtain st c where S1: "S1 = (st, c)" by (cases S1)
      define k where "k = min (length (incoming st) - incoming_offset st) (sz - length buf)"
      let ?st = "st\<lparr>incoming_offset := incoming_offset st + k\<rparr>"
      let ?buf = "buf @ take k (drop (incoming_offset st) (incoming st))"
      have go: "f T sz ?buf (?st, c) = Some x" using 2(2) by (simp add: S1 k_def Let_def)
      have len: "length ?buf \<le> sz" using True by (simp add: k_def)
      have rec: "advances (?st, c) S' \<and> (\<forall>bs. r = Inr bs \<longrightarrow> length bs = sz)"
        by (rule 1(1) [OF go 1(3,4) len])
      have "advances S S1" using ensure_buffered_advances [OF 2(1) 1(4)] .
      moreover have "advances S1 (?st, c)"
        by (auto simp: S1 advances_def same_stream_def stream_ok_def k_def)
      ultimately show ?case using rec advances_trans by blast
    qed
  qed
qed

lemma stream_read_advances:
  assumes "stream_read T n S = Some (r, S')" "bounded_reads T"
  shows "advances S S'" "r = Inr bs \<Longrightarrow> length bs = n"
  using stream_read_from_advances [of T n "[]" S r S'] assms by (simp_all add: stream_read_def)

lemma advances_emptied: "advances (st, c) (st\<lparr>incoming := [], incoming_offset := 0\<rparr>, c)"
  by (rule advances_buffer) simp_all

lemma read_all_from_advances:
  assumes "read_all_from T out S = Some (r, S')" "bounded_reads T"
  shows "advances S S'"
proof (rule read_all_from.raw_induct
    [where P = "\<lambda>T out S x. \<forall>r S'. x = (r, S') \<longrightarrow> bounded_reads T \<longrightarrow> advances S S'",
     rule_format, OF _ assms(1) refl assms(2)], goal_cases)
  case (1 f T out S x r S')
  show ?case
  proof (rule bind_io_SomeE [OF 1(2)], goal_cases)
    case (1 e S1)
    then have "S' = S1" "receive_more T S = Some (Inl e, S1)" using \<open>x = (r, S')\<close> by auto
    with receive_more_advances \<open>bounded_reads T\<close> show ?case by blast
  next
    case (2 more S1)
    obtain st c where S1: "S1 = (st, c)" by (cases S1)
    have adv: "advances S S1" using receive_more_advances [OF 2(1) 1(4)] .
    show ?case
    proof (cases more)
      case False
      with 2(2) 1(3) adv show ?thesis by (simp add: S1)
    next
      case True
      then have "f T (out @ incoming st) (st\<lparr>incoming := [], incoming_offset := 0\<rparr>, c) = Some x"
        using 2(2) by (simp add: S1)
      then have "advances (st\<lparr>incoming := [], incoming_offset := 0\<rparr>, c) S'" by (rule 1(1) [OF _ 1(3,4)])
      with adv show ?thesis
        using advances_emptied [of st c] advances_trans unfolding S1 by blast
    qed
  qed
qed

lemma read_all_advances:
  assumes "read_all T S = Some (r, S')" "bounded_reads T"
  shows "advances S S'"
proof -
  obtain st c where S: "S = (st, c)" by (cases S)
  have "advances (st\<lparr>incoming := [], incoming_offset := 0\<rparr>, c) S'"
    by (rule read_all_from_advances [OF _ assms(2)]) (use assms(1) in \<open>simp add: read_all_def S\<close>)
  then show ?thesis unfolding S using advances_emptied [of st c] advances_trans by blast
qed

lemma stream_write_advances:
  assumes "stream_write T data S = (r, S')"
  shows "advances S S'"
  using assms
  by (cases S) (auto simp: stream_write_def split: if_splits sum.splits prod.splits
      intro!: advances_session dest: connection_send_on)

lemma open_wait_on:
  assumes "open_wait T lid c = Some (r, c')"
  shows "on_session c c'"
proof (rule open_wait.raw_induct
    [where P = "\<lambda>T lid c x. \<forall>r c'. x = (r, c') \<longrightarrow> on_session c c'", rule_format, OF _ assms refl], goal_cases)
  case (1 f T lid c x r c')
  obtain rf c1 where rf: "connection_receive T c = (rf, c1)" by fastforce
  note on1 = connection_receive_on [OF rf]
  from 1(2) rf have "x = (r, c1) \<or> f T lid c1 = Some x" using 1(3) by (auto split: sum.splits if_splits)
  with 1(1,3) on1 on_session_trans show ?case by blast
qed

text \<open>Opening uses up the next id, whether it succeeds or not.\<close>

lemma open_request_on:
  assumes "open_request T svc (st, c) = Some (r, c')"
  shows "on_session c c'"
proof -
  let ?d = "bytes_of_string svc @ [0]" and ?w = "if delayed_ack c then kInitialDelayedAckBytes else 0"
  show ?thesis
  proof (cases "make_message kOpen (local_id st) ?w ?d")
    case (Inl e)
    with assms show ?thesis by (simp add: open_request_def Let_def)
  next
    case (Inr m)
    obtain rs c1 where c1: "connection_send T m ?d c = (rs, c1)" by fastforce
    note on1 = connection_send_on [OF c1]
    have "(case rs of Inl e \<Rightarrow> Some (Inl e, c1) | Inr _ \<Rightarrow> open_wait T (local_id st) c1) = Some (r, c')"
      using assms Inr c1 by (simp add: open_request_def Let_def)
    with on1 on_session_trans [OF on1 open_wait_on] show ?thesis by (auto split: sum.splits)
  qed
qed

lemma stream_open_result:
  assumes "stream_open T svc c = Some (r, c')"
  shows "on_session (c\<lparr>next_local_id := next_local_id c + 1\<rparr>) c'"
    "r = Inr st \<Longrightarrow> local_id st = next_local_id c \<and> stream_ok st"
proof -
  let ?st = "\<lparr>service = svc, local_id = next_local_id c, remote_id = 0, stream_closed = False, incoming = [], incoming_offset = 0\<rparr>"
  let ?c = "c\<lparr>next_local_id := next_local_id c + 1\<rparr>"
  obtain ro c2 where ro: "open_request T svc (?st, ?c) = Some (ro, c2)"
    and r: "(case ro of Inl e \<Rightarrow> (Inl e, stream_destroy T (?st, c2)) | Inr rid \<Rightarrow> (Inr (?st\<lparr>remote_id := rid\<rparr>), c2)) = (r, c')"
    using assms by (auto simp: stream_open_def stream_new_def allocate_local_id_def split: option.splits sum.splits)
  note on = open_request_on [OF ro]
  show "on_session ?c c'"
    using r on on_session_trans [OF on stream_destroy_on] by (auto split: sum.splits)
  show "r = Inr st \<Longrightarrow> local_id st = next_local_id c \<and> stream_ok st"
    using r by (auto simp: stream_ok_def split: sum.splits)
qed

section \<open>The invariant\<close>

text \<open>The state of a client after \<open>n\<close> opens on a connection that was \<open>c0\<close> at the start.\<close>

definition client_inv :: "'t Connection \<Rightarrow> nat \<Rightarrow> 't client \<Rightarrow> bool" where
  "client_inv c0 n X \<longleftrightarrow>
     on_session (c0\<lparr>next_local_id := 2 + of_nat n\<rparr>) (fst X) \<and> distinct (map local_id (snd X))
     \<and> (\<forall>st \<in> set (snd X). stream_ok st \<and> (\<exists>k < n. local_id st = 2 + of_nat k))"

lemma client_inv_update:
  assumes "client_inv c0 n (c, sts)" "i < length sts" "advances (sts ! i, c) (st', c')"
  shows "client_inv c0 n (c', sts[i := st'])"
proof -
  have st': "local_id st' = local_id (sts ! i)" "on_session c c'" "stream_ok (sts ! i) \<Longrightarrow> stream_ok st'"
    using assms(3) by (auto simp: advances_def same_stream_def)
  have mem: "sts ! i \<in> set sts" using assms(2) by simp
  have "map local_id (sts[i := st']) = map local_id sts"
    using st'(1) assms(2) by (simp add: map_update list_update_same_conv)
  moreover have "on_session (c0\<lparr>next_local_id := 2 + of_nat n\<rparr>) c'"
    using assms(1) st'(2) on_session_trans by (fastforce simp: client_inv_def)
  moreover have "stream_ok st \<and> (\<exists>k < n. local_id st = 2 + of_nat k)" if "st \<in> set (sts[i := st'])" for st
  proof (cases "st = st'")
    case True
    with assms(1) mem st' show ?thesis by (auto simp: client_inv_def)
  next
    case False
    with that set_update_subset_insert have "st \<in> set sts" by fastforce
    with assms(1) show ?thesis by (auto simp: client_inv_def)
  qed
  ultimately show ?thesis using assms(1) by (simp add: client_inv_def)
qed

lemma conn_id_swap: "c\<lparr>conn_session := s, next_local_id := i\<rparr> = c\<lparr>next_local_id := i, conn_session := s\<rparr>"
  by (cases c) simp

lemma on_session_id:
  "on_session c c' \<Longrightarrow> next_local_id c' = next_local_id c"
  by (auto simp: on_session_def)

lemma client_inv_open:
  assumes "client_inv c0 n (c, sts)" "stream_open T svc c = Some (r, c')" "n < 2 ^ 32"
  shows "client_inv c0 (Suc n) (c', sts @ (case r of Inl _ \<Rightarrow> [] | Inr st \<Rightarrow> [st]))"
proof -
  have nid: "next_local_id c = 2 + of_nat n"
    using assms(1) on_session_id by (fastforce simp: client_inv_def)
  have "on_session (c0\<lparr>next_local_id := 2 + of_nat (Suc n)\<rparr>) (c\<lparr>next_local_id := next_local_id c + 1\<rparr>)"
    using assms(1) nid by (fastforce simp: client_inv_def on_session_def conn_id_swap)
  then have on: "on_session (c0\<lparr>next_local_id := 2 + of_nat (Suc n)\<rparr>) c'"
    using stream_open_result(1) [OF assms(2)] by (rule on_session_trans)
  have old: "\<forall>st \<in> set sts. stream_ok st \<and> (\<exists>k < Suc n. local_id st = 2 + of_nat k)"
    using assms(1) less_SucI unfolding client_inv_def snd_conv by blast
  have fresh: "2 + of_nat n \<notin> local_id ` set sts"
  proof
    assume "2 + of_nat n \<in> local_id ` set sts"
    then obtain k where k: "k < n" "(of_nat n :: u32) = of_nat k" using assms(1) by (auto simp: client_inv_def)
    then have "unat (of_nat n :: u32) = unat (of_nat k :: u32)" by simp
    with k(1) assms(3) show False by (simp add: unat_of_nat)
  qed
  show ?thesis
  proof (cases r)
    case (Inl e)
    with on old assms(1) show ?thesis by (simp add: client_inv_def)
  next
    case (Inr st)
    with stream_open_result(2) [OF assms(2)] nid have "local_id st = 2 + of_nat n" "stream_ok st" by auto
    with on old fresh assms(1) Inr show ?thesis by (auto simp: client_inv_def)
  qed
qed

lemma client_step_inv:
  assumes "client_step T X call Y" "client_inv c0 (opens_made calls) X" "opens_made (calls @ [call]) \<le> 2 ^ 32"
    and "bounded_reads T"
  shows "client_inv c0 (opens_made (calls @ [call])) Y"
  using assms
proof (cases rule: client_step.cases)
  case (opens_stream svc c st c' sts)
  with assms(2,3) client_inv_open [of c0 "opens_made calls" c sts T svc "Inr st" c'] show ?thesis by auto
next
  case (open_fails svc c e c' sts)
  with assms(2,3) client_inv_open [of c0 "opens_made calls" c sts T svc "Inl e" c'] show ?thesis by auto
next
  case (writes i sts data c r st' c')
  with assms(2) client_inv_update stream_write_advances show ?thesis by fastforce
next
  case (reads i sts n c r st' c')
  with assms(2,4) client_inv_update stream_read_advances(1) show ?thesis by fastforce
next
  case (reads_all i sts c r st' c')
  with assms(2,4) client_inv_update read_all_advances show ?thesis by fastforce
next
  case (destroys i sts c)
  then have split: "sts = take i sts @ sts ! i # drop (Suc i) sts" using id_take_nth_drop by blast
  have "distinct (map local_id (take i sts @ sts ! i # drop (Suc i) sts))"
    using assms(2) destroys(1) split by (simp add: client_inv_def)
  then have "distinct (map local_id (take i sts @ drop (Suc i) sts))" by auto
  moreover have "set (take i sts @ drop (Suc i) sts) \<subseteq> set sts"
    using set_take_subset [of i sts] set_drop_subset [of "Suc i" sts] by auto
  moreover have "on_session (c0\<lparr>next_local_id := 2 + of_nat (opens_made calls)\<rparr>) (stream_destroy T (sts ! i, c))"
    by (rule on_session_trans [OF _ stream_destroy_on]) (use assms(2) destroys(1) in \<open>simp add: client_inv_def\<close>)
  ultimately show ?thesis using assms(2) destroys by (auto simp: client_inv_def)
next
  case (closes c sts)
  have "on_session c (connection_close T c)"
    by (auto simp: on_session_def connection_close_def)
  with assms(2) closes on_session_trans show ?thesis by (fastforce simp: client_inv_def)
qed

lemma client_trace_inv:
  assumes "client_trace T X calls Y" "client_inv c0 0 X" "bounded_reads T" "opens_made calls \<le> 2 ^ 32"
  shows "client_inv c0 (opens_made calls) Y"
  using assms(1,2,4)
proof induction
  case start
  then show ?case by simp
next
  case (next_call X calls Y call Z)
  have "opens_made calls \<le> opens_made (calls @ [call])" by (simp add: opens_made_def)
  with next_call assms(3) show ?case by (intro client_step_inv) auto
qed

lemma client_in_order:
  assumes "client_trace T (c0, []) calls (c, sts)" "next_local_id c0 = 2" "bounded_reads T"
    and "opens_made calls \<le> 2 ^ 32 - 2"
  shows "distinct (map local_id sts) \<and> (\<forall>st \<in> set sts. 2 \<le> unat (local_id st)
        \<and> incoming_offset st \<le> length (incoming st) \<and> length (incoming st) \<le> unat kMaxData)
    \<and> (\<exists>s. c = c0\<lparr>next_local_id := 2 + of_nat (opens_made calls), conn_session := s\<rparr>
         \<and> (sess_closed (conn_session c0) \<longrightarrow> sess_closed s))"
proof -
  have "c0\<lparr>next_local_id := 2\<rparr> = c0" using assms(2) by (cases c0) simp
  then have "client_inv c0 0 (c0, [])" by (simp add: client_inv_def)
  from client_trace_inv [OF assms(1) this assms(3)] assms(4)
  have inv: "client_inv c0 (opens_made calls) (c, sts)" by simp
  have two: "2 \<le> unat (2 + of_nat k :: u32)" if "k < opens_made calls" for k
  proof -
    have "(2 :: u32) + of_nat k = of_nat (2 + k)" by simp
    moreover have "2 + k < 2 ^ 32" using that assms(4) by simp
    ultimately show ?thesis by (simp only: unat_of_nat) simp
  qed
  show ?thesis
    using inv two by (fastforce simp: client_inv_def on_session_def stream_ok_def)
qed

section \<open>Properties\<close>

text \<open>
  C8. Every state a client can reach is in order. Starting from a new connection, after any sequence of
  opening, writing, reading, closing and destroying streams, with any device and any transport that
  keeps to its buffers: the streams that are alive have different ids, at least 2, as long as fewer
  than \<open>2 ^ 32 - 1\<close> opens were made; every stream's offset lies within its buffer, and the buffer is
  at most the largest payload; the negotiated version, maximum and features are what they were, and a
  closed connection stays closed.
\<close>

theorem client_invariant:
  assumes "client_trace T (c0, []) calls (c, sts)" "next_local_id c0 = 2" "bounded_reads T"
    and "opens_made calls \<le> 2 ^ 32 - 2"
  shows "distinct (map local_id sts) \<and> (\<forall>st \<in> set sts. 2 \<le> unat (local_id st)
        \<and> incoming_offset st \<le> length (incoming st) \<and> length (incoming st) \<le> unat kMaxData)
    \<and> (\<exists>s. c = c0\<lparr>next_local_id := 2 + of_nat (opens_made calls), conn_session := s\<rparr>
         \<and> (sess_closed (conn_session c0) \<longrightarrow> sess_closed s))"
  by (rule client_in_order [OF assms])

theorem client_invariant_witness:
  "\<exists>c sts. client_trace mock_ops (mock_connection [device_frame kOkay 2 []], []) [Open ''shell:'', Close_connection] (c, sts)
    \<and> distinct (map local_id sts) \<and> next_local_id c = 3"
proof -
  let ?c = "mock_connection [device_frame kOkay 2 []]"
  obtain c1 where "stream_open mock_ops ''shell:'' ?c = Some (Inr (opened ''shell:'' 2 9), c1)"
    using mock.stream_open_spec [of "[]" ?c "[device_frame kOkay 2 []]" "[]" "''shell:''"] by (auto simp: open_reply_def)
  then have "client_step mock_ops (?c, []) (Open ''shell:'') (c1, [opened ''shell:'' 2 9])"
    using client_step.opens_stream [of mock_ops "''shell:''" ?c _ c1 "[]"] by simp
  then have "client_trace mock_ops (?c, []) ([] @ [Open ''shell:'']) (c1, [opened ''shell:'' 2 9])"
    by (rule client_trace.next_call [OF client_trace.start])
  then have tr: "client_trace mock_ops (?c, []) [Open ''shell:'', Close_connection]
      (connection_close mock_ops c1, [opened ''shell:'' 2 9])"
    using client_trace.next_call [OF _ client_step.closes, of mock_ops "(?c, [])" "[Open ''shell:'']"] by simp
  from client_invariant [OF this _ mock_reads.bounded_reads_axioms] tr show ?thesis
    by (intro exI [of _ "connection_close mock_ops c1"] exI [of _ "[opened ''shell:'' 2 9]"]) (auto simp: opens_made_def)
qed

end
