(* ===== verification/Adb_Dialogue.thy ===== *)
theory Adb_Dialogue
  imports Adb_Stream_Spec
begin

text \<open>
  The view a service has of its stream. \<open>dialogue \<dots> S0 S d ev q\<close> says that the stream \<open>S\<close>, opened as
  \<open>S0\<close>, has the bytes \<open>d\<close> still to read before it ends with \<open>ev\<close>, and that the host has sent the
  frames \<open>q\<close>, acknowledgements left out. Reading takes a prefix of \<open>d\<close>, writing appends to \<open>q\<close>, and
  neither depends on how the device cut its bytes into \<open>WRTE\<close> frames. The frames \<open>tail\<close> are those the
  device sends after the ones of this stream, for the streams the host opens next.
\<close>

definition is_okay :: "Frame \<Rightarrow> bool" where
  "is_okay f \<longleftrightarrow> command (header f) = kOkay"

definition requests :: "Frame list \<Rightarrow> Frame list" where
  "requests out = filter (\<lambda>f. \<not> is_okay f) out"

text \<open>
  Frames that lie before \<open>tail\<close> may be left over from earlier streams; none of them is for the next
  stream. With nothing in \<open>tail\<close> there is nothing to keep them apart from.
\<close>

definition unaddressed :: "u32 \<Rightarrow> Frame list \<Rightarrow> Frame list \<Rightarrow> bool" where
  "unaddressed lid tail fs \<longleftrightarrow> tail = [] \<or> (\<forall>f \<in> set fs. arg1 (header f) \<noteq> lid)"

definition spoken ::
  "('t \<Rightarrow> bool) \<Rightarrow> ('t \<Rightarrow> byte list) \<Rightarrow> ('t \<Rightarrow> byte list) \<Rightarrow> byte list \<Rightarrow> Frame list \<Rightarrow> 't Connection
     \<Rightarrow> Frame list \<Rightarrow> bool" where
  "spoken good pending sent base tail c q \<longleftrightarrow>
     (\<exists>fs out. conn_stage good pending sent base c (fs @ tail) out \<and> unaddressed (next_local_id c) tail fs
        \<and> requests out = q)"

definition same_link :: "'t streaming \<Rightarrow> 't streaming \<Rightarrow> bool" where
  "same_link S0 S \<longleftrightarrow> same_stream (fst S) (fst S0) \<and> (\<exists>s. snd S = (snd S0)\<lparr>conn_session := s\<rparr>)"

definition dialogue ::
  "('t \<Rightarrow> bool) \<Rightarrow> ('t \<Rightarrow> byte list) \<Rightarrow> ('t \<Rightarrow> byte list) \<Rightarrow> byte list \<Rightarrow> Frame list \<Rightarrow> 't streaming \<Rightarrow> 't streaming
     \<Rightarrow> byte list \<Rightarrow> stream_event \<Rightarrow> Frame list \<Rightarrow> bool" where
  "dialogue good pending sent base tail S0 S d ev q \<longleftrightarrow>
     same_link S0 S \<and> \<not> stream_closed (fst S)
     \<and> (\<exists>fs out. conn_stage good pending sent base (snd S) (fs @ tail) out
          \<and> unaddressed (next_local_id (snd S)) tail fs \<and> view (fst S) fs = d
          \<and> stream_end (local_id (fst S)) fs = ev \<and> requests out = q)"

lemma dialogueI:
  assumes "conn_stage good pending sent base (snd S) (fs @ tail) out" "same_link S0 S" "\<not> stream_closed (fst S)"
    and "unaddressed (next_local_id (snd S)) tail fs"
    and "view (fst S) fs = d" "stream_end (local_id (fst S)) fs = ev" "requests out = q"
  shows "dialogue good pending sent base tail S0 S d ev q"
  using assms unfolding dialogue_def by blast

lemma spokenI:
  "conn_stage good pending sent base c (fs @ tail) out \<Longrightarrow> unaddressed (next_local_id c) tail fs \<Longrightarrow>
     requests out = q \<Longrightarrow> spoken good pending sent base tail c q"
  unfolding spoken_def by blast

lemma spoken_start: "conn_stage good pending sent base c fs out \<Longrightarrow> spoken good pending sent base fs c (requests out)"
  by (rule spokenI [where fs = "[]"]) (simp_all add: unaddressed_def)

lemma spoken_start_Nil: "conn_stage good pending sent base c fs [] \<Longrightarrow> spoken good pending sent base (fs @ []) c []"
  by (rule spokenI [where fs = "[]" and out = "[]"]) (simp_all add: unaddressed_def requests_def)

lemma unaddressed_suffix: "unaddressed lid tail (used @ fs) \<Longrightarrow> unaddressed lid tail fs"
  by (auto simp: unaddressed_def)

lemma unaddressed_Nil [simp]: "unaddressed lid tail []" "unaddressed lid [] fs"
  by (simp_all add: unaddressed_def)

lemma open_reply_append:
  "open_reply lid fs = (Inr rid, gs) \<Longrightarrow> open_reply lid (fs @ tail) = (Inr rid, gs @ tail)"
proof (induction fs)
  case (Cons f fs)
  then show ?case by (cases "arg1 (header f) = lid") (auto simp: open_reply_def split: if_splits)
qed (simp add: open_reply_def)

lemma open_reply_skip:
  "\<forall>f \<in> set xs. arg1 (header f) \<noteq> lid \<Longrightarrow> open_reply lid (xs @ fs) = open_reply lid fs"
  by (simp add: open_reply_def dropWhile_append2)

lemma open_reply_suffix: "open_reply lid fs = (r, gs) \<Longrightarrow> \<exists>used. fs = used @ gs"
proof (induction fs)
  case (Cons f fs)
  show ?case
  proof (cases "arg1 (header f) = lid")
    case True
    with Cons.prems show ?thesis by (auto simp: open_reply_def)
  next
    case False
    with Cons.prems have "open_reply lid fs = (r, gs)" by (simp add: open_reply_def)
    from Cons.IH [OF this] show ?thesis by (metis append_Cons)
  qed
qed (simp add: open_reply_def)

lemma requests_simps [simp]:
  "requests [] = []" "requests (xs @ ys) = requests xs @ requests ys"
  "requests (f # xs) = (if is_okay f then requests xs else f # requests xs)"
  by (simp_all add: requests_def)

lemma requests_acks [simp]: "requests (acks st fs) = []"
  by (simp add: requests_def acks_def is_okay_def okay_frame_def filter_empty_conv)

lemma is_okay_frames [simp]:
  "\<not> is_okay (wrte_frame st p)" "\<not> is_okay (clse_frame st)" "\<not> is_okay (open_frame lid w svc)"
  using commands_distinct
  by (auto simp: is_okay_def wrte_frame_def clse_frame_def open_frame_def Let_def)

text \<open>The streams that were opened.\<close>

definition opens :: "Frame list \<Rightarrow> Frame list" where
  "opens q = filter (\<lambda>f. command (header f) = kOpen) q"

lemma opens_simps [simp]:
  "opens [] = []" "opens (xs @ ys) = opens xs @ opens ys" "opens [wrte_frame st p] = []" "opens [clse_frame st] = []"
  "opens (open_frame lid w svc # xs) = open_frame lid w svc # opens xs"
  by (auto simp: opens_def command_eqs wrte_frame_def clse_frame_def open_frame_def Let_def)

text \<open>The services they were opened for.\<close>

definition services :: "Frame list \<Rightarrow> string list" where
  "services q = map (\<lambda>f. butlast (string_of_bytes (payload f))) (opens q)"

lemma services_simps [simp]:
  "services [] = []" "services (xs @ ys) = services xs @ services ys" "services [wrte_frame st p] = []"
  "services [clse_frame st] = []" "services (open_frame lid w svc # xs) = svc # services xs"
proof -
  have "butlast (string_of_bytes (payload (open_frame lid w svc))) = svc"
    using string_of_bytes_of_string [of svc]
    by (simp add: open_frame_def Let_def butlast_append string_of_bytes_def del: string_of_bytes_of_string)
  then show "services (open_frame lid w svc # xs) = svc # services xs"
    by (simp add: services_def)
qed (simp_all add: services_def)

lemma services_none: "opens q = [] \<Longrightarrow> services q = []"
  by (simp add: services_def)

lemma wrte_frame_same: "same_stream st st' \<Longrightarrow> wrte_frame st = wrte_frame st'"
  by (simp add: same_stream_def wrte_frame_def fun_eq_iff)

lemma clse_frame_same: "same_stream st st' \<Longrightarrow> clse_frame st = clse_frame st'"
  by (simp add: same_stream_def clse_frame_def)

lemma same_link_max_data: "same_link S0 S \<Longrightarrow> max_data (snd S) = max_data (snd S0)"
  by (auto simp: same_link_def)

lemma same_link_session:
  "same_link S0 (st, c) \<Longrightarrow> same_stream st' st \<Longrightarrow> same_link S0 (st', c\<lparr>conn_session := s\<rparr>)"
  by (auto simp: same_link_def same_stream_def)

abbreviation isr :: "'a Result \<Rightarrow> bool" where
  "isr r \<equiv> \<not> isl r"

abbreviation open_request_frame :: "'t Connection \<Rightarrow> string \<Rightarrow> Frame" where
  "open_request_frame c svc \<equiv>
     open_frame (next_local_id c) (if delayed_ack c then kInitialDelayedAckBytes else 0) svc"

abbreviation next_connection :: "'t Connection \<Rightarrow> 't Session \<Rightarrow> 't Connection" where
  "next_connection c s \<equiv> c\<lparr>next_local_id := next_local_id c + 1, conn_session := s\<rparr>"

context byte_channel
begin

lemma dialogue_read:
  assumes "dialogue good pending sent base tail S0 S d ev q" "n \<le> length d"
  shows "\<exists>S'. stream_read T n S = Some (Inr (take n d), S')
    \<and> dialogue good pending sent base tail S0 S' (drop n d) ev q"
proof -
  obtain st c where S: "S = (st, c)" by (cases S)
  obtain fs out where st: "conn_stage good pending sent base c (fs @ tail) out" "view st fs = d"
    "stream_end (local_id st) fs = ev" "requests out = q" "unaddressed (next_local_id c) tail fs"
    using assms(1) by (auto simp: dialogue_def S)
  have "read_outcome good pending sent base tail st c fs out n [] (stream_read T n (st, c))"
    unfolding stream_read_def by (rule stream_read_from_outcome [OF st(1)]) (use assms(2-) st(2) in simp_all)
  then obtain st' s' used fs' where
    "stream_read T n (st, c) = Some (Inr (take n d), (st', c\<lparr>conn_session := s'\<rparr>))"
    "stage good pending sent base s' (fs' @ tail) (out @ acks st used)" "same_stream st' st" "fs = used @ fs'"
    "view st' fs' = drop n d" "stream_closed st' = stream_closed st"
    "stream_end (local_id st) fs' = ev"
    using assms(2) st unfolding read_outcome_def by auto
  moreover have "local_id st' = local_id st"
    using \<open>same_stream st' st\<close> by (simp add: same_stream_def)
  ultimately show ?thesis
    using assms(1) st(4,5) same_link_session [of S0 st c st'] unaddressed_suffix [of _ tail used fs']
    by (intro exI conjI, simp add: S, intro dialogueI [where fs = fs' and out = "out @ acks st used"])
      (auto simp: S dialogue_def)
qed

lemma dialogue_read_short:
  assumes "dialogue good pending sent base tail S0 S d ev q" "length d < n" "tail = []"
  shows "\<exists>S'. stream_read T n S = Some (Inl (end_error ev), S')
    \<and> same_link S0 S' \<and> spoken good pending sent base tail (snd S') q"
proof -
  obtain st c where S: "S = (st, c)" by (cases S)
  obtain fs out where st: "conn_stage good pending sent base c (fs @ tail) out" "view st fs = d"
    "stream_end (local_id st) fs = ev" "requests out = q" "unaddressed (next_local_id c) tail fs"
    using assms(1) by (auto simp: dialogue_def S)
  have "read_outcome good pending sent base tail st c fs out n [] (stream_read T n (st, c))"
    unfolding stream_read_def by (rule stream_read_from_outcome [OF st(1)]) (use assms(2-) st(2) in simp_all)
  then obtain st' s' used fs' where
    "stream_read T n (st, c) = Some (Inl (end_error ev), (st', c\<lparr>conn_session := s'\<rparr>))"
    "stage good pending sent base s' (fs' @ tail) (out @ acks st used)" "same_stream st' st" "fs = used @ fs'"
    using assms(2) st unfolding read_outcome_def by auto
  then show ?thesis
    using assms(1) st(4,5) same_link_session [of S0 st c st'] unaddressed_suffix [of _ tail used fs']
    by (auto simp: S dialogue_def intro!: spokenI [where fs = fs' and out = "out @ acks st used"])
qed

lemma dialogue_write:
  assumes "dialogue good pending sent base tail S0 S d ev q" "length x \<le> unat (max_data (snd S0))"
  shows "\<exists>S'. stream_write T x S = (Inr (), S')
    \<and> dialogue good pending sent base tail S0 S' d ev (q @ [wrte_frame (fst S0) x])"
proof -
  obtain st c where S: "S = (st, c)" by (cases S)
  obtain fs out where st: "conn_stage good pending sent base c (fs @ tail) out" "view st fs = d"
    "stream_end (local_id st) fs = ev" "requests out = q" "unaddressed (next_local_id c) tail fs"
    using assms(1) by (auto simp: dialogue_def S)
  have link: "same_link S0 (st, c)" "same_stream st (fst S0)"
    using assms(1) by (auto simp: dialogue_def S same_link_def)
  have "length x \<le> unat (max_data c)"
    using assms(2) same_link_max_data [OF link(1)] by simp
  from stream_write_spec [OF st(1) this, of st] obtain s' where
    "stream_write T x (st, c) = (Inr (), (st, c\<lparr>conn_session := s'\<rparr>))"
    "stage good pending sent base s' (fs @ tail) (out @ [wrte_frame st x])"
    by auto
  with st wrte_frame_same [OF link(2)] same_link_session [OF link(1), of st] assms(1) show ?thesis
    by (intro exI conjI, simp add: S, intro dialogueI [where fs = fs and out = "out @ [wrte_frame st x]"])
      (auto simp: S dialogue_def same_stream_def)
qed

lemma dialogue_read_all:
  assumes "dialogue good pending sent base tail S0 S d ev q" "tail = [] \<or> ev = Closed"
  shows "\<exists>S'. read_all T S = Some (if ev = Closed then Inr d else Inl (end_error ev), S')
    \<and> same_link S0 S' \<and> spoken good pending sent base tail (snd S') q
    \<and> stream_closed (fst S') = (ev = Closed)"
proof -
  obtain st c where S: "S = (st, c)" by (cases S)
  obtain fs out where st: "conn_stage good pending sent base c (fs @ tail) out" "view st fs = d"
    "stream_end (local_id st) fs = ev" "requests out = q" "unaddressed (next_local_id c) tail fs"
    using assms(1) by (auto simp: dialogue_def S)
  from read_all_spec [OF st(1), of st] assms(2) obtain st' s' used gs where
    "read_all T (st, c) = Some (if ev = Closed then Inr d else Inl (end_error ev), (st', c\<lparr>conn_session := s'\<rparr>))"
    "stage good pending sent base s' (gs @ tail) (out @ acks st used)" "same_stream st' st"
    "stream_closed st' = (stream_closed st \<or> ev = Closed)" "fs = used @ gs"
    unfolding st by blast
  then show ?thesis
    using assms(1) st(4,5) same_link_session [of S0 st c st'] unaddressed_suffix [of _ tail used gs]
    by (auto simp: S dialogue_def intro!: spokenI [where fs = gs and out = "out @ acks st used"])
qed

lemma dialogue_spoken:
  "dialogue good pending sent base tail S0 S d ev q \<Longrightarrow>
     same_link S0 S \<and> \<not> stream_closed (fst S) \<and> spoken good pending sent base tail (snd S) q"
  by (auto simp: dialogue_def spoken_def)

lemma destroy_spoken:
  assumes "same_link S0 S" "spoken good pending sent base tail (snd S) q"
  shows "spoken good pending sent base tail (stream_destroy T S)
      (q @ (if stream_closed (fst S) then [] else [clse_frame (fst S0)]))
    \<and> (\<exists>s. stream_destroy T S = (snd S0)\<lparr>conn_session := s\<rparr>)"
proof -
  obtain st c where S: "S = (st, c)" by (cases S)
  obtain fs out where st: "conn_stage good pending sent base c (fs @ tail) out" "requests out = q"
    "unaddressed (next_local_id c) tail fs"
    using assms(2) by (auto simp: spoken_def S)
  have same: "clse_frame st = clse_frame (fst S0)" "\<exists>s. c = (snd S0)\<lparr>conn_session := s\<rparr>"
    using assms(1) by (auto simp: same_link_def S clse_frame_same)
  obtain s' where "stream_destroy T (st, c) = c\<lparr>conn_session := s'\<rparr>"
    "stage good pending sent base s' (fs @ tail) (out @ (if stream_closed st then [] else [clse_frame st]))"
    using stream_destroy_stage [OF st(1), of st] by blast
  with st same show ?thesis
    by (auto simp: S intro!: spokenI [where fs = fs])
qed

text \<open>Opening the stream of a service, when the device accepts it.\<close>

lemma open_dialogue:
  fixes c :: "'t Connection"
  assumes "spoken good pending sent base (fs @ tail) c q" "Suc (length svc) < 2 ^ 31"
    and "open_reply (next_local_id c) fs = (Inr rid, gs)" "unaddressed (next_local_id c + 1) tail fs"
  defines "st \<equiv> opened svc (next_local_id c) rid"
  shows "\<exists>s. stream_open T svc c = Some (Inr st, next_connection c s)
    \<and> dialogue good pending sent base tail (st, next_connection c s) (st, next_connection c s)
        (stream_data (next_local_id c) gs) (stream_end (next_local_id c) gs) (q @ [open_request_frame c svc])"
proof -
  obtain xs out where xs: "conn_stage good pending sent base c (xs @ fs @ tail) out" "requests out = q"
    "unaddressed (next_local_id c) (fs @ tail) xs"
    using assms(1) by (auto simp: spoken_def)
  have "fs \<noteq> []" using assms(3) by (auto simp: open_reply_def)
  then have reply: "open_reply (next_local_id c) (xs @ fs @ tail) = (Inr rid, gs @ tail)"
    using xs(3) open_reply_skip open_reply_append [OF assms(3)] by (auto simp: unaddressed_def)
  obtain used where used: "fs = used @ gs" using open_reply_suffix [OF assms(3)] by blast
  obtain s where s: "stream_open T svc c = Some (Inr st, next_connection c s)"
    "stage good pending sent base s (gs @ tail) (out @ [open_request_frame c svc])"
    using stream_open_spec [OF xs(1) assms(2)] by (auto simp: reply st_def)
  show ?thesis
    by (intro exI [of _ s] conjI s(1) dialogueI [where fs = gs and out = "out @ [open_request_frame c svc]"])
      (use s(2) xs(1,2) assms(4) in \<open>auto simp: st_def same_link_def same_stream_def view_def used
         intro: unaddressed_suffix intro!: exI [of _ s]\<close>)
qed

text \<open>
  A service on its own stream: it is opened, the body talks over it, and the stream is closed
  unless the device closed it first. What the device sends for the streams that follow is still there.
\<close>

lemma with_stream_spec:
  fixes c :: "'t Connection"
  assumes "spoken good pending sent base (fs @ tail) c q0" "Suc (length svc) < 2 ^ 31"
    and "open_reply (next_local_id c) fs = (Inr rid, gs)" "unaddressed (next_local_id c + 1) tail fs"
  defines "S0 \<equiv> \<lambda>s. (opened svc (next_local_id c) rid, next_connection c s)"
  assumes body: "\<And>s. dialogue good pending sent base tail (S0 s) (S0 s) (stream_data (next_local_id c) gs)
          (stream_end (next_local_id c) gs) (q0 @ [open_request_frame c svc]) \<Longrightarrow>
        \<exists>S. body (S0 s) = Some (r, S) \<and> same_link (S0 s) S \<and> spoken good pending sent base tail (snd S) q
          \<and> stream_closed (fst S) = cl"
  shows "\<exists>s. with_stream T svc body c = Some (r, next_connection c s)
    \<and> spoken good pending sent base tail (next_connection c s)
        (q @ (if cl then [] else [clse_frame (opened svc (next_local_id c) rid)]))"
proof -
  obtain s1 where op: "stream_open T svc c = Some (Inr (fst (S0 s1)), snd (S0 s1))"
    and "dialogue good pending sent base tail (S0 s1) (S0 s1) (stream_data (next_local_id c) gs)
      (stream_end (next_local_id c) gs) (q0 @ [open_request_frame c svc])"
    using open_dialogue [OF assms(1-4)] by (auto simp: S0_def)
  from body [OF this(2)] obtain S where S: "body (S0 s1) = Some (r, S)" "same_link (S0 s1) S"
    "spoken good pending sent base tail (snd S) q" "stream_closed (fst S) = cl"
    by auto
  have "with_stream T svc body c = Some (r, stream_destroy T S)"
    using op S(1) by (simp add: with_stream_def)
  with destroy_spoken [OF S(2,3)] S(4) show ?thesis
    by (auto simp: S0_def)
qed

lemma with_stream_returns:
  fixes c :: "'t Connection"
  assumes "spoken good pending sent base (fs @ tail) c q0" "Suc (length svc) < 2 ^ 31"
    and "open_reply (next_local_id c) fs = (Inr rid, gs)" "unaddressed (next_local_id c + 1) tail fs"
  defines "S0 \<equiv> \<lambda>s. (opened svc (next_local_id c) rid, next_connection c s)"
  assumes body: "\<And>s. dialogue good pending sent base tail (S0 s) (S0 s) (stream_data (next_local_id c) gs)
          (stream_end (next_local_id c) gs) (q0 @ [open_request_frame c svc]) \<Longrightarrow> \<exists>S. body (S0 s) = Some (r, S)"
  shows "\<exists>c'. with_stream T svc body c = Some (r, c')"
proof -
  obtain s1 where op: "stream_open T svc c = Some (Inr (fst (S0 s1)), snd (S0 s1))"
    and "dialogue good pending sent base tail (S0 s1) (S0 s1) (stream_data (next_local_id c) gs)
      (stream_end (next_local_id c) gs) (q0 @ [open_request_frame c svc])"
    using open_dialogue [OF assms(1-4)] by (auto simp: S0_def)
  from body [OF this(2)] op show ?thesis by (auto simp: with_stream_def)
qed

lemma with_stream_refused:
  fixes c :: "'t Connection"
  assumes "conn_stage good pending sent base c fs out" "Suc (length svc) < 2 ^ 31"
    and "open_reply (next_local_id c) fs = (Inl e, gs)"
  shows "\<exists>c'. with_stream T svc body c = Some (Inl e, c')"
  using stream_open_spec [OF assms(1,2)] assms(3) by (auto simp: with_stream_def)

text \<open>
  Whatever the device does: \<open>keeps\<close> says that an operation on a stream comes back, that it opens no
  stream of its own, and that it leaves the stream in order when it succeeds. A service whose body
  keeps its stream comes back, and has opened exactly that stream.
\<close>

definition keeps :: "byte list \<Rightarrow> ('t streaming, 'a) io \<Rightarrow> bool" where
  "keeps base m \<longleftrightarrow>
     (\<forall>S0 S d ev q. dialogue good pending sent base [] S0 S d ev q \<longrightarrow>
        (\<exists>r S' q'. m S = Some (r, S') \<and> same_link S0 S' \<and> spoken good pending sent base [] (snd S') (q @ q')
           \<and> opens q' = [] \<and> (isr r \<longrightarrow> (\<exists>d'. dialogue good pending sent base [] S0 S' d' ev (q @ q')))))"

definition talks :: "byte list \<Rightarrow> ('t streaming, 'a) io \<Rightarrow> bool" where
  "talks base m \<longleftrightarrow>
     (\<forall>S0 S d ev q. dialogue good pending sent base [] S0 S d ev q \<longrightarrow>
        (\<exists>r S' q'. m S = Some (r, S') \<and> same_link S0 S' \<and> spoken good pending sent base [] (snd S') (q @ q')
           \<and> opens q' = []))"

lemma keeps_talks: "keeps base m \<Longrightarrow> talks base m"
  unfolding keeps_def talks_def by fast

lemma keepsI:
  assumes "\<And>S0 S d ev q. dialogue good pending sent base [] S0 S d ev q \<Longrightarrow>
      \<exists>r S' q'. m S = Some (r, S') \<and> same_link S0 S' \<and> spoken good pending sent base [] (snd S') (q @ q')
        \<and> opens q' = [] \<and> (isr r \<longrightarrow> (\<exists>d'. dialogue good pending sent base [] S0 S' d' ev (q @ q')))"
  shows "keeps base m"
  using assms unfolding keeps_def by blast

lemma keeps_ok: "keeps base (ok_io a)"
  using dialogue_spoken by (intro keepsI) (metis append_Nil2 ok_io_eval opens_simps(1))

lemma keeps_fail: "keeps base (fail_io e)"
  by (rule keepsI) (auto simp: seq_simps dest: dialogue_spoken intro!: exI [of _ "[]"])

lemma keeps_read: "keeps base (stream_read T n)"
proof (rule keepsI)
  fix S0 S d ev q
  assume *: "dialogue good pending sent base [] S0 S d ev q"
  show "\<exists>r S' q'. stream_read T n S = Some (r, S') \<and> same_link S0 S' \<and> spoken good pending sent base [] (snd S') (q @ q')
      \<and> opens q' = [] \<and> (isr r \<longrightarrow> (\<exists>d'. dialogue good pending sent base [] S0 S' d' ev (q @ q')))"
  proof (cases "n \<le> length d")
    case True
    from dialogue_read [OF * True] dialogue_spoken show ?thesis
      by (metis append_Nil2 opens_simps(1))
  next
    case False
    with dialogue_read_short [OF *, of n] show ?thesis
      by (intro exI [of _ "Inl (end_error ev)"]) (auto intro!: exI [of _ "[]"])
  qed
qed

lemma keeps_write: "keeps base (lift_io (stream_write T x))"
proof (rule keepsI)
  fix S0 S d ev q
  assume *: "dialogue good pending sent base [] S0 S d ev q"
  show "\<exists>r S' q'. lift_io (stream_write T x) S = Some (r, S') \<and> same_link S0 S'
      \<and> spoken good pending sent base [] (snd S') (q @ q') \<and> opens q' = []
      \<and> (isr r \<longrightarrow> (\<exists>d'. dialogue good pending sent base [] S0 S' d' ev (q @ q')))"
  proof (cases "length x \<le> unat (max_data (snd S0))")
    case True
    from dialogue_write [OF * True] obtain S' where "stream_write T x S = (Inr (), S')"
      "dialogue good pending sent base [] S0 S' d ev (q @ [wrte_frame (fst S0) x])"
      by blast
    with dialogue_spoken show ?thesis
      by (intro exI [of _ "Inr ()"] exI [of _ S'] exI [of _ "[wrte_frame (fst S0) x]"]) (auto simp: seq_simps)
  next
    case False
    moreover have "max_data (snd S) = max_data (snd S0)"
      using dialogue_spoken [OF *] same_link_max_data by blast
    ultimately have "stream_write T x S =
        (Inl (mk_error InvalidArgument ''the write is larger than the negotiated maximum payload''), S)"
      by (cases S) (simp add: stream_write_def)
    with dialogue_spoken [OF *] show ?thesis
      by (intro exI [of _ "Inl _"] exI [of _ S] exI [of _ "[]"]) (auto simp: seq_simps)
  qed
qed

lemma keeps_bind:
  assumes "keeps base m" "\<And>a. keeps base (f a)"
  shows "keeps base (bind_io m f)"
proof (rule keepsI)
  fix S0 S d ev q
  assume *: "dialogue good pending sent base [] S0 S d ev q"
  obtain r S' q' where 1: "m S = Some (r, S')" "same_link S0 S'" "spoken good pending sent base [] (snd S') (q @ q')"
    "opens q' = []" "isr r \<Longrightarrow> \<exists>d'. dialogue good pending sent base [] S0 S' d' ev (q @ q')"
    using assms(1) [unfolded keeps_def, rule_format, OF *] by blast
  show "\<exists>r S' q'. bind_io m f S = Some (r, S') \<and> same_link S0 S' \<and> spoken good pending sent base [] (snd S') (q @ q')
      \<and> opens q' = [] \<and> (isr r \<longrightarrow> (\<exists>d'. dialogue good pending sent base [] S0 S' d' ev (q @ q')))"
  proof (cases r)
    case (Inl e)
    with 1(1-4) show ?thesis by (intro exI [of _ "Inl e"] exI [of _ S'] exI [of _ q']) (simp add: seq_simps)
  next
    case (Inr a)
    with 1(5) obtain d' where "dialogue good pending sent base [] S0 S' d' ev (q @ q')" by auto
    from assms(2) [unfolded keeps_def, rule_format, OF this, of a] obtain r2 S2 q2 where
      "f a S' = Some (r2, S2)" "same_link S0 S2" "spoken good pending sent base [] (snd S2) (q @ q' @ q2)" "opens q2 = []"
      "isr r2 \<longrightarrow> (\<exists>d'. dialogue good pending sent base [] S0 S2 d' ev (q @ q' @ q2))"
      unfolding append_assoc by blast
    with 1(1,4) Inr show ?thesis
      by (intro exI [of _ r2] exI [of _ S2] exI [of _ "q' @ q2"]) (simp add: seq_simps)
  qed
qed

lemma keeps_if: "(c \<Longrightarrow> keeps base m) \<Longrightarrow> (\<not> c \<Longrightarrow> keeps base m') \<Longrightarrow> keeps base (if c then m else m')"
  by simp

lemmas keeps_intros = keeps_bind keeps_read keeps_write keeps_ok keeps_fail keeps_if

lemma with_stream_talks:
  fixes c :: "'t Connection"
  assumes "spoken good pending sent base [] c q" "Suc (length svc) < 2 ^ 31" "talks base body"
  shows "\<exists>r s q'. with_stream T svc body c = Some (r, next_connection c s)
    \<and> spoken good pending sent base [] (next_connection c s) (q @ open_request_frame c svc # q') \<and> opens q' = []"
proof -
  obtain fs out where fs: "conn_stage good pending sent base c fs out" "requests out = q"
    using assms(1) by (auto simp: spoken_def)
  show ?thesis
  proof (cases "fst (open_reply (next_local_id c) fs)")
    case (Inl e)
    then obtain s where "with_stream T svc body c = Some (Inl e, next_connection c s)"
      "stage good pending sent base s (snd (open_reply (next_local_id c) fs))
         (out @ [open_request_frame c svc, clse_frame (opened svc (next_local_id c) 0)])"
      using stream_open_spec [OF fs(1) assms(2)] by (auto simp: with_stream_def)
    with fs show ?thesis
      by (intro exI [of _ "Inl e"] exI [of _ s] exI [of _ "[clse_frame (opened svc (next_local_id c) 0)]"])
        (auto intro!: spokenI [where fs = "snd (open_reply (next_local_id c) fs)"])
  next
    case (Inr rid)
    then obtain gs where reply: "open_reply (next_local_id c) fs = (Inr rid, gs)"
      by (metis prod.collapse)
    have "spoken good pending sent base (fs @ []) c q" using spoken_start [OF fs(1)] fs(2) by simp
    from open_dialogue [OF this assms(2) reply unaddressed_Nil(2)] obtain st s where
      op: "stream_open T svc c = Some (Inr st, next_connection c s)"
      and d: "dialogue good pending sent base [] (st, next_connection c s) (st, next_connection c s)
        (stream_data (next_local_id c) gs) (stream_end (next_local_id c) gs) (q @ [open_request_frame c svc])"
      by blast
    obtain r S' q' where S': "body (st, next_connection c s) = Some (r, S')"
      "same_link (st, next_connection c s) S'"
      "spoken good pending sent base [] (snd S') ((q @ [open_request_frame c svc]) @ q')" "opens q' = []"
      using assms(3) [unfolded talks_def, rule_format, OF d] by blast
    obtain s' where s': "stream_destroy T S' = next_connection c s'"
      using destroy_spoken [OF S'(2,3)] by auto
    let ?q = "q' @ (if stream_closed (fst S') then [] else [clse_frame st])"
    have "spoken good pending sent base [] (next_connection c s') (q @ open_request_frame c svc # ?q)"
      using destroy_spoken [OF S'(2,3)] unfolding s' fst_conv append_assoc append_Cons append_Nil by blast
    moreover have "opens ?q = []" using S'(4) by simp
    ultimately show ?thesis using s' op S'(1)
      by (intro exI [of _ r] exI [of _ s'] exI [of _ ?q]) (simp add: with_stream_def)
  qed
qed

end

end
