(* ===== verification/Adb_Host.thy ===== *)
theory Adb_Host
  imports Adb_Prelude
begin

text \<open>
  The host's file system, as far as \<open>src/sync.cpp\<close> uses it through \<open>std::filesystem\<close>, \<open>std::ifstream\<close>,
  \<open>std::ofstream\<close> and \<open>::stat\<close>.

  A path maps to a file with its content, its mode and the reading of the file clock, in seconds;
  \<open>denied\<close> says which paths cannot be opened, \<open>disk_free\<close> how many bytes can still be written,
  \<open>read_fault\<close> at which offset reading a path fails. An output stream is opened by truncating its file
  and written to without a buffer: a write that does not fit writes what does and leaves the stream
  bad. A read that meets the fault delivers nothing and leaves the stream bad, one that meets the end
  delivers what there is and sets \<open>eof\<close>. The build is the POSIX one.
\<close>

record LocalFile =
  lf_content :: "byte list"
  lf_mode :: u32
  lf_mtime :: int
  lf_regular :: bool

record Host =
  files :: "string \<Rightarrow> LocalFile option"
  denied :: "string \<Rightarrow> bool"
  disk_free :: nat
  read_fault :: "string \<Rightarrow> nat option"
  system_now :: int
  file_clock_now :: int

definition file_content :: "Host \<Rightarrow> string \<Rightarrow> byte list" where
  "file_content h path = (case files h path of None \<Rightarrow> [] | Some f \<Rightarrow> lf_content f)"

definition is_regular_file :: "Host \<Rightarrow> string \<Rightarrow> bool" where
  "is_regular_file h path = (case files h path of None \<Rightarrow> False | Some f \<Rightarrow> lf_regular f)"

text \<open>\<open>std::ofstream(path, binary | trunc)\<close>, and whether the stream is good.\<close>

definition out_open :: "string \<Rightarrow> Host \<Rightarrow> bool \<times> Host" where
  "out_open path h =
     (if denied h path \<or> files h path \<noteq> None \<and> \<not> is_regular_file h path then (False, h)
      else
        let f = (case files h path of
                   None \<Rightarrow> \<lparr>lf_content = [], lf_mode = 0x81A4, lf_mtime = file_clock_now h, lf_regular = True\<rparr>
                 | Some f \<Rightarrow> f\<lparr>lf_content := []\<rparr>) in
        (True, h\<lparr>files := (files h)(path := Some f),
                 disk_free := disk_free h + length (file_content h path)\<rparr>))"

text \<open>\<open>output.write\<close> on the stream opened on \<open>path\<close>, and whether the stream is good after it.\<close>

definition out_write :: "string \<Rightarrow> byte list \<Rightarrow> Host \<Rightarrow> bool \<times> Host" where
  "out_write path bs h =
     (case files h path of
        None \<Rightarrow> (False, h)
      | Some f \<Rightarrow>
          (length bs \<le> disk_free h,
           h\<lparr>files := (files h)(path := Some (f\<lparr>lf_content := lf_content f @ take (disk_free h) bs\<rparr>)),
             disk_free := disk_free h - length bs\<rparr>))"

text \<open>\<open>std::ifstream(path, binary)\<close> and one \<open>read\<close> of at most \<open>n\<close> bytes from a position.\<close>

datatype istate = Good | Eof | Bad

definition in_open :: "string \<Rightarrow> Host \<Rightarrow> bool" where
  "in_open path h \<longleftrightarrow> files h path \<noteq> None \<and> \<not> denied h path"

definition in_read :: "string \<Rightarrow> nat \<Rightarrow> nat \<Rightarrow> Host \<Rightarrow> byte list \<times> istate" where
  "in_read path pos n h =
     (let content = file_content h path in
      if (case read_fault h path of None \<Rightarrow> False | Some k \<Rightarrow> k < pos + n \<and> k < length content) then ([], Bad)
      else (take n (drop pos content), if pos + n \<le> length content then Good else Eof))"

text \<open>\<open>std::filesystem::last_write_time\<close>, \<open>::stat\<close> and \<open>path::filename\<close>.\<close>

definition last_write_time :: "Host \<Rightarrow> string \<Rightarrow> int option" where
  "last_write_time h path = map_option lf_mtime (files h path)"

definition posix_stat :: "Host \<Rightarrow> string \<Rightarrow> u32 option" where
  "posix_stat h path = map_option lf_mode (files h path)"

definition filename :: "string \<Rightarrow> string" where
  "filename path = rev (takeWhile (\<lambda>ch. ch \<noteq> CHR ''/'') (rev path))"

text \<open>What a read returns when nothing is wrong with the file.\<close>

lemma in_read_ok:
  "read_fault h path = None \<Longrightarrow>
     in_read path pos n h =
       (take n (drop pos (file_content h path)),
        if pos + n \<le> length (file_content h path) then Good else Eof)"
  by (simp add: in_read_def Let_def)

lemma in_read_Good_length:
  assumes "in_read path pos n h = (bs, Good)"
  shows "length bs = n" "pos + n \<le> length (file_content h path)"
  using assms by (auto simp: in_read_def Let_def split: if_splits)

text \<open>Writing piece by piece writes the concatenation.\<close>

lemma out_open_content:
  "out_open path h = (True, h') \<Longrightarrow>
     file_content h' path = [] \<and> files h' path \<noteq> None \<and> disk_free h \<le> disk_free h'"
  by (auto simp: out_open_def file_content_def Let_def split: if_splits option.splits)

lemma out_write_fits:
  assumes "files h path \<noteq> None" "length bs \<le> disk_free h"
  shows "\<exists>h'. out_write path bs h = (True, h') \<and> file_content h' path = file_content h path @ bs
    \<and> files h' path \<noteq> None \<and> disk_free h' = disk_free h - length bs
    \<and> (\<forall>p. p \<noteq> path \<longrightarrow> files h' p = files h p)"
  using assms by (auto simp: out_write_def file_content_def split: option.splits)

lemma out_write_full:
  assumes "files h path \<noteq> None" "disk_free h < length bs"
  shows "\<exists>h'. out_write path bs h = (False, h')
    \<and> file_content h' path = file_content h path @ take (disk_free h) bs"
  using assms by (auto simp: out_write_def file_content_def split: option.splits)

lemma out_open_others:
  "out_open path h = (ok, h') \<Longrightarrow> p \<noteq> path \<Longrightarrow> files h' p = files h p"
  by (auto simp: out_open_def Let_def split: if_splits)

end
