(* ===== verification/Adb_Compression.thy ===== *)
theory Adb_Compression
  imports Adb_Prelude
begin

text \<open>
  The chunk codecs of \<open>src/compression.hpp\<close> and \<open>src/compression.cpp\<close>. The zstd, lz4 and brotli
  libraries are not part of the repository: each is a record \<open>Codec_lib\<close> of the calls the code makes,
  a parameter of every definition that uses it.

  \<^item> \<open>cl_bound\<close> is the compressed-size bound of one call, \<open>cl_max_bound\<close> the bound over all settings
    (they differ for lz4, whose bound depends on its preferences), \<open>cl_compress\<close> compresses into a buffer of the given
    capacity and yields the bytes written or the library's error text;
  \<^item> \<open>cl_create\<close> is a fresh decoder, \<open>None\<close> when the library could not create one;
  \<^item> \<open>cl_decompress d xs cap\<close> feeds the remaining input \<open>xs\<close> with room for \<open>cap\<close> bytes and yields the
    number of bytes consumed and the bytes produced, or the error text, and the decoder's new state.

  The loops need not end for every library, so they are partial functions. What they compute is
  proved for libraries with the documented behaviour (\<open>decodes\<close>): every call makes progress and
  hands out the next piece of the decoded stream.
\<close>

section \<open>The libraries\<close>

record 'd Codec_lib =
  cl_bound :: "nat \<Rightarrow> nat"
  cl_max_bound :: "nat \<Rightarrow> nat"
  cl_compress :: "nat \<Rightarrow> byte list \<Rightarrow> string + byte list"
  cl_create :: "'d option"
  cl_decompress :: "'d \<Rightarrow> byte list \<Rightarrow> nat \<Rightarrow> (string + nat \<times> byte list) \<times> 'd"

text \<open>The output buffer of one decoding call.\<close>

definition kDecodeBuffer :: nat where "kDecodeBuffer = 64 * 1024"

section \<open>zstd\<close>

definition compress_zstd :: "'d Codec_lib \<Rightarrow> byte list \<Rightarrow> byte list Result" where
  "compress_zstd L input =
     (case cl_compress L (cl_bound L (length input)) input of
        Inl name \<Rightarrow> Inl (mk_error Protocol (''zstd compression failed'' @ '': '' @ name))
      | Inr out \<Rightarrow> Inr out)"

text \<open>
  The decoding loop, from the position \<open>pos\<close> of the input. The test for a call without effect is
  made on the absolute position, as the code makes it.
\<close>

partial_function (option) zstd_decode_from ::
  "'d Codec_lib \<Rightarrow> byte list \<Rightarrow> nat \<Rightarrow> byte list \<Rightarrow> 'd \<Rightarrow> (byte list Result \<times> 'd) option" where
  "zstd_decode_from L input pos acc d =
     (if pos < length input then
        (case cl_decompress L d (drop pos input) kDecodeBuffer of
           (Inl name, d') \<Rightarrow> Some (Inl (mk_error Protocol (''zstd decompression failed'' @ '': '' @ name)), d')
         | (Inr (n, out), d') \<Rightarrow>
             if pos + n = 0 \<and> length out = 0 then Some (Inr (acc @ out), d')
             else zstd_decode_from L input (pos + n) (acc @ out) d')
      else Some (Inr acc, d))"

declare zstd_decode_from.simps [code]

definition zstd_decode ::
  "'d Codec_lib \<Rightarrow> byte list \<Rightarrow> 'd option \<Rightarrow> (byte list Result \<times> 'd option) option" where
  "zstd_decode L input dec =
     (case dec of
        None \<Rightarrow> Some (Inl (mk_error Protocol ''the zstd decompression context could not be created''), None)
      | Some d \<Rightarrow> map_option (\<lambda>(r, d'). (r, Some d')) (zstd_decode_from L input 0 [] d))"

section \<open>lz4\<close>

definition compress_lz4 :: "'d Codec_lib \<Rightarrow> byte list \<Rightarrow> byte list Result" where
  "compress_lz4 L input =
     (case cl_compress L (cl_bound L (length input)) input of
        Inl name \<Rightarrow> Inl (mk_error Protocol (''lz4 compression failed'' @ '': '' @ name))
      | Inr out \<Rightarrow> Inr out)"

partial_function (option) lz4_decode_from ::
  "'d Codec_lib \<Rightarrow> byte list \<Rightarrow> nat \<Rightarrow> byte list \<Rightarrow> 'd \<Rightarrow> (byte list Result \<times> 'd) option" where
  "lz4_decode_from L input offset acc d =
     (if offset < length input then
        (case cl_decompress L d (drop offset input) kDecodeBuffer of
           (Inl name, d') \<Rightarrow> Some (Inl (mk_error Protocol (''lz4 decompression failed'' @ '': '' @ name)), d')
         | (Inr (n, out), d') \<Rightarrow>
             if n = 0 \<and> length out = 0 then Some (Inr (acc @ out), d')
             else lz4_decode_from L input (offset + n) (acc @ out) d')
      else Some (Inr acc, d))"

declare lz4_decode_from.simps [code]

definition lz4_decode ::
  "'d Codec_lib \<Rightarrow> byte list \<Rightarrow> 'd option \<Rightarrow> (byte list Result \<times> 'd option) option" where
  "lz4_decode L input dec =
     (case dec of
        None \<Rightarrow> Some (Inl (mk_error Protocol ''the lz4 decompression context could not be created''), None)
      | Some d \<Rightarrow> map_option (\<lambda>(r, d'). (r, Some d')) (lz4_decode_from L input 0 [] d))"

section \<open>brotli\<close>

definition compress_brotli :: "'d Codec_lib \<Rightarrow> byte list \<Rightarrow> byte list Result" where
  "compress_brotli L input =
     (let bound = cl_bound L (length input);
          size = (if bound = 0 then length input + length input div 4 + 1024 else bound) in
      case cl_compress L size input of
        Inl name \<Rightarrow> Inl (mk_error Protocol ''brotli compression failed'')
      | Inr out \<Rightarrow> Inr out)"

text \<open>The loop counts the input that is left rather than the input used.\<close>

partial_function (option) brotli_decode_from ::
  "'d Codec_lib \<Rightarrow> byte list \<Rightarrow> byte list \<Rightarrow> 'd \<Rightarrow> (byte list Result \<times> 'd) option" where
  "brotli_decode_from L left acc d =
     (if 0 < length left then
        (case cl_decompress L d left kDecodeBuffer of
           (Inl name, d') \<Rightarrow> Some (Inl (mk_error Protocol (''brotli decompression failed: '' @ name)), d')
         | (Inr (n, out), d') \<Rightarrow>
             if length (drop n left) = length left \<and> length out = 0 then Some (Inr (acc @ out), d')
             else brotli_decode_from L (drop n left) (acc @ out) d')
      else Some (Inr acc, d))"

declare brotli_decode_from.simps [code]

definition brotli_decode ::
  "'d Codec_lib \<Rightarrow> byte list \<Rightarrow> 'd option \<Rightarrow> (byte list Result \<times> 'd option) option" where
  "brotli_decode L input dec =
     (case dec of
        None \<Rightarrow> Some (Inl (mk_error Protocol ''the brotli decompression context could not be created''), None)
      | Some d \<Rightarrow> map_option (\<lambda>(r, d'). (r, Some d')) (brotli_decode_from L input [] d))"

section \<open>The codecs of a transfer (sync.cpp)\<close>

datatype CompressionCodec = Zstd | Lz4 | Brotli

record 'd Codecs =
  zstd_lib :: "'d Codec_lib"
  lz4_lib :: "'d Codec_lib"
  brotli_lib :: "'d Codec_lib"

section \<open>Decoding in steps\<close>

text \<open>
  The documented behaviour of a streaming decoder. \<open>valid d xs\<close> says that \<open>xs\<close> continues the stream
  the decoder in state \<open>d\<close> has seen so far, and \<open>plain d xs\<close> is what it decodes to: on a valid stream
  a call with input and room for output makes progress, consumes a prefix of the input and hands
  out the next piece of the plain data. The first law is where the loops depend on more than the
  libraries promise in general: once the input is used up, nothing is left to be handed out.
\<close>

definition decodes ::
  "'d Codec_lib \<Rightarrow> ('d \<Rightarrow> byte list \<Rightarrow> bool) \<Rightarrow> ('d \<Rightarrow> byte list \<Rightarrow> byte list) \<Rightarrow> bool" where
  "decodes L valid plain \<longleftrightarrow>
     (\<forall>d. valid d [] \<longrightarrow> plain d [] = [])
     \<and> (\<forall>d xs ys. xs \<noteq> [] \<and> valid d (xs @ ys) \<longrightarrow>
          (\<exists>n out d'. cl_decompress L d xs kDecodeBuffer = (Inr (n, out), d') \<and> n \<le> length xs
             \<and> 0 < n + length out \<and> valid d' (drop n xs @ ys)
             \<and> plain d (xs @ ys) = out @ plain d' (drop n xs @ ys)))"

lemma decodes_step:
  assumes "decodes L valid plain" "xs \<noteq> []" "valid d (xs @ ys)"
  obtains n out d' where "cl_decompress L d xs kDecodeBuffer = (Inr (n, out), d')" "n \<le> length xs"
    "0 < n + length out" "valid d' (drop n xs @ ys)" "plain d (xs @ ys) = out @ plain d' (drop n xs @ ys)"
  using assms unfolding decodes_def by metis

text \<open>
  The three loops share one argument: every call shortens the input that is left or the output that
  is to come. It is stated for a loop \<open>F\<close> that makes one call per round, \<open>left p\<close> being the input that is
  left at its position \<open>p\<close>.
\<close>

lemma decode_loop:
  assumes "decodes L valid plain" "valid d (left p @ ys)"
    and stop: "\<And>p acc d. left p = [] \<Longrightarrow> F p acc d = Some (Inr acc, d)"
    and round: "\<And>p acc d n out d'. \<lbrakk>left p \<noteq> []; cl_decompress L d (left p) kDecodeBuffer = (Inr (n, out), d');
        n \<le> length (left p); 0 < n + length out\<rbrakk>
      \<Longrightarrow> \<exists>p'. left p' = drop n (left p) \<and> F p acc d = F p' (acc @ out) d'"
  shows "\<exists>out d'. F p acc d = Some (Inr (acc @ out), d') \<and> valid d' ys
    \<and> plain d (left p @ ys) = out @ plain d' ys"
  using assms(2)
proof (induction "length (left p) + length (plain d (left p @ ys))" arbitrary: p acc d rule: less_induct)
  case less
  show ?case
  proof (cases "left p = []")
    case True
    with less.prems stop show ?thesis by auto
  next
    case False
    obtain n out d' where step: "cl_decompress L d (left p) kDecodeBuffer = (Inr (n, out), d')"
      "n \<le> length (left p)" "0 < n + length out" "valid d' (drop n (left p) @ ys)"
      "plain d (left p @ ys) = out @ plain d' (drop n (left p) @ ys)"
      using decodes_step [OF assms(1) False less.prems] .
    obtain p' where p': "left p' = drop n (left p)" "F p acc d = F p' (acc @ out) d'"
      using round [OF False step(1-3)] by blast
    have "length (left p') + length (plain d' (left p' @ ys)) < length (left p) + length (plain d (left p @ ys))"
      unfolding step(5) length_append p'(1) length_drop using step(2,3) by linarith
    from less.hyps [OF this, of "acc @ out"] step(4,5) p' show ?thesis by auto
  qed
qed

lemma zstd_decode_correct:
  assumes "decodes L valid plain" "valid d (input @ ys)"
  shows "\<exists>out d'. zstd_decode L input (Some d) = Some (Inr out, Some d') \<and> valid d' ys
    \<and> plain d (input @ ys) = out @ plain d' ys"
proof -
  have "\<exists>out d'. zstd_decode_from L input 0 [] d = Some (Inr ([] @ out), d') \<and> valid d' ys
      \<and> plain d (drop 0 input @ ys) = out @ plain d' ys"
  proof (rule decode_loop [where F = "zstd_decode_from L input" and left = "\<lambda>pos. drop pos input", OF assms(1)])
    fix pos acc d n out d'
    assume "drop pos input \<noteq> []" "cl_decompress L d (drop pos input) kDecodeBuffer = (Inr (n, out), d')"
      "0 < n + length out"
    then show "\<exists>p'. drop p' input = drop n (drop pos input)
        \<and> zstd_decode_from L input pos acc d = zstd_decode_from L input p' (acc @ out) d'"
      by (intro exI [of _ "pos + n"] conjI, simp add: add.commute)
        (subst zstd_decode_from.simps, auto)
  qed (use assms in \<open>simp_all add: zstd_decode_from.simps\<close>)
  then show ?thesis by (auto simp: zstd_decode_def)
qed

lemma lz4_decode_correct:
  assumes "decodes L valid plain" "valid d (input @ ys)"
  shows "\<exists>out d'. lz4_decode L input (Some d) = Some (Inr out, Some d') \<and> valid d' ys
    \<and> plain d (input @ ys) = out @ plain d' ys"
proof -
  have "\<exists>out d'. lz4_decode_from L input 0 [] d = Some (Inr ([] @ out), d') \<and> valid d' ys
      \<and> plain d (drop 0 input @ ys) = out @ plain d' ys"
  proof (rule decode_loop [where F = "lz4_decode_from L input" and left = "\<lambda>pos. drop pos input", OF assms(1)])
    fix pos acc d n out d'
    assume "drop pos input \<noteq> []" "cl_decompress L d (drop pos input) kDecodeBuffer = (Inr (n, out), d')"
      "0 < n + length out"
    then show "\<exists>p'. drop p' input = drop n (drop pos input)
        \<and> lz4_decode_from L input pos acc d = lz4_decode_from L input p' (acc @ out) d'"
      by (intro exI [of _ "pos + n"] conjI, simp add: add.commute)
        (subst lz4_decode_from.simps, auto)
  qed (use assms in \<open>simp_all add: lz4_decode_from.simps\<close>)
  then show ?thesis by (auto simp: lz4_decode_def)
qed

lemma brotli_decode_correct:
  assumes "decodes L valid plain" "valid d (input @ ys)"
  shows "\<exists>out d'. brotli_decode L input (Some d) = Some (Inr out, Some d') \<and> valid d' ys
    \<and> plain d (input @ ys) = out @ plain d' ys"
proof -
  have "\<exists>out d'. brotli_decode_from L input [] d = Some (Inr ([] @ out), d') \<and> valid d' ys
      \<and> plain d (id input @ ys) = out @ plain d' ys"
  proof (rule decode_loop [where F = "brotli_decode_from L" and left = id, OF assms(1)])
    fix xs acc d n out d'
    assume "id xs \<noteq> []" "cl_decompress L d (id xs) kDecodeBuffer = (Inr (n, out), d')"
      "n \<le> length (id xs)" "0 < n + length out"
    then show "\<exists>p'. id p' = drop n (id xs)
        \<and> brotli_decode_from L xs acc d = brotli_decode_from L p' (acc @ out) d'"
      by (intro exI [of _ "drop n xs"] conjI, simp) (subst brotli_decode_from.simps, auto)
  qed (use assms in \<open>simp_all add: brotli_decode_from.simps\<close>)
  then show ?thesis by (auto simp: brotli_decode_def)
qed

section \<open>Properties\<close>

text \<open>A transfer: the chunks are fed one after the other, the outputs appended.\<close>

fun decode_chunks ::
  "(byte list \<Rightarrow> 'd option \<Rightarrow> (byte list Result \<times> 'd option) option) \<Rightarrow> byte list list \<Rightarrow> 'd option
     \<Rightarrow> (byte list Result \<times> 'd option) option" where
  "decode_chunks f [] d = Some (Inr [], d)"
| "decode_chunks f (c # cs) d =
     bind_io (f c) (\<lambda>out. bind_io (decode_chunks f cs) (\<lambda>rest. ok_io (out @ rest))) d"

lemma decode_chunks_correct:
  assumes step: "\<And>d input ys. valid d (input @ ys) \<Longrightarrow>
      \<exists>out d'. f input (Some d) = Some (Inr out, Some d') \<and> valid d' ys \<and> plain d (input @ ys) = out @ plain d' ys"
    and empty: "\<And>d. valid d [] \<Longrightarrow> plain d [] = []"
    and "valid d (concat cs)"
  shows "\<exists>d'. decode_chunks f cs (Some d) = Some (Inr (plain d (concat cs)), Some d')"
  using assms(3)
proof (induction cs arbitrary: d)
  case (Cons c cs)
  then obtain out d' where 1: "f c (Some d) = Some (Inr out, Some d')" "valid d' (concat cs)"
    "plain d (concat (c # cs)) = out @ plain d' (concat cs)"
    using step [of d c "concat cs"] by auto
  with Cons.IH [OF 1(2)] show ?case by (auto simp: seq_simps)
qed (simp add: empty)


text \<open>
  Two small libraries for the witnesses: one that stores its input unchanged, and one that writes
  every byte 100000 times and keeps what does not fit the buffer for the next call.
\<close>

definition store_lib :: "unit Codec_lib" where
  "store_lib = \<lparr>cl_bound = id, cl_max_bound = id, cl_compress = (\<lambda>cap xs. Inr xs), cl_create = Some (),
     cl_decompress = (\<lambda>d xs cap. (Inr (min cap (length xs), take cap xs), d))\<rparr>"

definition repeat_lib :: "byte list Codec_lib" where
  "repeat_lib = \<lparr>cl_bound = id, cl_max_bound = id, cl_compress = (\<lambda>cap xs. Inr xs), cl_create = Some [],
     cl_decompress = (\<lambda>d xs cap. let all = d @ concat (map (replicate 100000) xs) in
       (Inr (length xs, take cap all), drop cap all))\<rparr>"

lemma store_lib_decodes: "decodes store_lib (\<lambda>d xs. True) (\<lambda>d xs. xs)"
  by (auto simp: decodes_def store_lib_def kDecodeBuffer_def min_def take_append [symmetric])


text \<open>
  The decoding loops stop as soon as the input of a chunk is used up, whether or not the library
  has more to hand out: for every decoder, when a call has consumed the whole chunk, its output is all
  that is returned, and what the library still holds is not asked for. After the last chunk of a
  transfer such a rest is lost.
\<close>

theorem decoders_do_not_drain:
  assumes "input \<noteq> []" "cl_decompress L d input kDecodeBuffer = (Inr (length input, out), d')"
  shows "zstd_decode L input (Some d) = Some (Inr out, Some d')
    \<and> lz4_decode L input (Some d) = Some (Inr out, Some d')
    \<and> brotli_decode L input (Some d) = Some (Inr out, Some d')"
proof (intro conjI)
  show "zstd_decode L input (Some d) = Some (Inr out, Some d')"
    using assms by (simp add: zstd_decode_def zstd_decode_from.simps [of L input])
  show "lz4_decode L input (Some d) = Some (Inr out, Some d')"
    using assms by (simp add: lz4_decode_def lz4_decode_from.simps [of L input])
  show "brotli_decode L input (Some d) = Some (Inr out, Some d')"
    using assms by (simp add: brotli_decode_def brotli_decode_from.simps [of L])
qed

theorem decoders_do_not_drain_witness:
  "zstd_decode repeat_lib [7] (Some []) = Some (Inr (replicate 65536 7), Some (replicate 34464 7))
    \<and> brotli_decode repeat_lib [7] (Some []) = Some (Inr (replicate 65536 7), Some (replicate 34464 7))"
proof -
  have "cl_decompress repeat_lib [] [7] kDecodeBuffer =
      (Inr (length [7 :: byte], replicate 65536 7), replicate 34464 7)"
    by (simp add: repeat_lib_def kDecodeBuffer_def Let_def)
  from decoders_do_not_drain [OF _ this] show ?thesis by simp
qed

text \<open>
  A stalled decoder: when a call neither consumes nor produces anything, the lz4 and brotli loops
  return what they have. The zstd loop does so only on the first call of a chunk; once some of the
  chunk is consumed, a library that stalls without an error keeps it in the loop for ever.
\<close>

theorem zstd_decoder_spins_on_stall:
  assumes "0 < pos" "pos < length input" "cl_decompress L d (drop pos input) kDecodeBuffer = (Inr (0, []), d)"
  shows "zstd_decode_from L input pos acc d = None
    \<and> lz4_decode_from L input pos acc d = Some (Inr acc, d)
    \<and> brotli_decode_from L (drop pos input) acc d = Some (Inr acc, d)"
proof (intro conjI)
  have "False" if ret: "zstd_decode_from L input pos acc d = Some r" for r
  proof (rule zstd_decode_from.raw_induct
      [where P = "\<lambda>L' input' pos' acc d' r. \<not> (L' = L \<and> input' = input \<and> pos' = pos \<and> d' = d)",
       OF _ ret, THEN notE], goal_cases)
    case (1 f L' input' pos' acc d' r)
    with assms show ?case by (fastforce split: prod.splits sum.splits if_splits)
  qed simp
  then show "zstd_decode_from L input pos acc d = None" by (metis not_None_eq)
  show "lz4_decode_from L input pos acc d = Some (Inr acc, d)"
    using assms by (simp add: lz4_decode_from.simps [of L input])
  show "brotli_decode_from L (drop pos input) acc d = Some (Inr acc, d)"
    using assms by (simp add: brotli_decode_from.simps [of L])
qed

text \<open>A library that takes one byte of what it is given, and stalls on the last one.\<close>

definition stall_lib :: "unit Codec_lib" where
  "stall_lib = \<lparr>cl_bound = id, cl_max_bound = id, cl_compress = (\<lambda>cap xs. Inr xs), cl_create = Some (),
     cl_decompress = (\<lambda>d xs cap. (Inr (if length xs < 2 then 0 else 1, []), d))\<rparr>"

lemma stall_lib_decompress [simp]:
  "cl_decompress stall_lib d xs cap = (Inr (if length xs < 2 then 0 else 1, []), d)"
  by (simp add: stall_lib_def)

theorem zstd_decoder_spins_on_stall_witness:
  "zstd_decode stall_lib [0, 0] (Some ()) = None \<and> lz4_decode stall_lib [0, 0] (Some ()) = Some (Inr [], Some ())"
  using zstd_decoder_spins_on_stall [of 1 "[0, 0]" stall_lib "()" "[]"]
  by (simp add: zstd_decode_def lz4_decode_def zstd_decode_from.simps [of stall_lib "[0, 0]" 0]
      lz4_decode_from.simps [of stall_lib "[0, 0]" 0])

end
