(* ===== verification/Adb_Sync.thy ===== *)
theory Adb_Sync
  imports Adb_Dialogue Adb_Host Adb_Compression
begin

text \<open>
  The sync service of \<open>include/adbcpp/sync.hpp\<close> and \<open>src/sync.cpp\<close>: listing a directory, reading a
  path's metadata, and copying a file to and from the device, in the v1 and v2 forms.

  The operations on the device work on the stream; those that touch local files work on the pair of
  the stream, or of the connection, and the \<open>Host\<close>. \<open>list\<close>, \<open>stat\<close>, \<open>pull\<close> and \<open>push\<close> are \<open>sync_list\<close>,
  \<open>sync_stat\<close>, \<open>sync_pull\<close> and \<open>sync_push\<close> here.
\<close>

section \<open>Constants\<close>

definition kListV1 :: u32 where "kListV1 = make_command CHR ''L'' CHR ''I'' CHR ''S'' CHR ''T''"
definition kListV2 :: u32 where "kListV2 = make_command CHR ''L'' CHR ''I'' CHR ''S'' CHR ''2''"
definition kDentV1 :: u32 where "kDentV1 = make_command CHR ''D'' CHR ''E'' CHR ''N'' CHR ''T''"
definition kDentV2 :: u32 where "kDentV2 = make_command CHR ''D'' CHR ''N'' CHR ''T'' CHR ''2''"
definition kRecvV1 :: u32 where "kRecvV1 = make_command CHR ''R'' CHR ''E'' CHR ''C'' CHR ''V''"
definition kSendV1 :: u32 where "kSendV1 = make_command CHR ''S'' CHR ''E'' CHR ''N'' CHR ''D''"
definition kStatV2 :: u32 where "kStatV2 = make_command CHR ''S'' CHR ''T'' CHR ''A'' CHR ''2''"
definition kStatV1 :: u32 where "kStatV1 = make_command CHR ''S'' CHR ''T'' CHR ''A'' CHR ''T''"
definition kData :: u32 where "kData = make_command CHR ''D'' CHR ''A'' CHR ''T'' CHR ''A''"
definition kDone :: u32 where "kDone = make_command CHR ''D'' CHR ''O'' CHR ''N'' CHR ''E''"
definition kSyncOkay :: u32 where "kSyncOkay = make_command CHR ''O'' CHR ''K'' CHR ''A'' CHR ''Y''"
definition kFail :: u32 where "kFail = make_command CHR ''F'' CHR ''A'' CHR ''I'' CHR ''L''"
definition kQuit :: u32 where "kQuit = make_command CHR ''Q'' CHR ''U'' CHR ''I'' CHR ''T''"
definition kRecvV2 :: u32 where "kRecvV2 = make_command CHR ''R'' CHR ''C'' CHR ''V'' CHR ''2''"
definition kSendV2 :: u32 where "kSendV2 = make_command CHR ''S'' CHR ''N'' CHR ''D'' CHR ''2''"
definition kSyncFlagBrotli :: u32 where "kSyncFlagBrotli = 1"
definition kSyncFlagLz4 :: u32 where "kSyncFlagLz4 = 2"
definition kSyncFlagZstd :: u32 where "kSyncFlagZstd = 4"

definition kMaxPathLength :: nat where "kMaxPathLength = 1024"
definition kDentV1BodySize :: nat where "kDentV1BodySize = 16"
definition kDentV2BodySize :: nat where "kDentV2BodySize = 72"
definition kDentV1NameLengthOffset :: nat where "kDentV1NameLengthOffset = 12"
definition kDentV2NameLengthOffset :: nat where "kDentV2NameLengthOffset = 68"
definition kMaxNameLength :: nat where "kMaxNameLength = 255"
definition kStatV1BodySize :: nat where "kStatV1BodySize = 12"
definition kStatV2BodySize :: nat where "kStatV2BodySize = 68"
definition kErrorOffset :: nat where "kErrorOffset = 0"
definition kDentV1ModeOffset :: nat where "kDentV1ModeOffset = 0"
definition kDentV1SizeOffset :: nat where "kDentV1SizeOffset = 4"
definition kDentV1MtimeOffset :: nat where "kDentV1MtimeOffset = 8"
definition kDentV2ModeOffset :: nat where "kDentV2ModeOffset = 20"
definition kDentV2SizeOffset :: nat where "kDentV2SizeOffset = 36"
definition kDentV2MtimeOffset :: nat where "kDentV2MtimeOffset = 52"
definition kMaxChunkSize :: nat where "kMaxChunkSize = 64 * 1024"

lemmas sync_layout = kDentV1BodySize_def kDentV2BodySize_def kDentV1NameLengthOffset_def
  kDentV2NameLengthOffset_def kStatV1BodySize_def kStatV2BodySize_def kErrorOffset_def
  kDentV1ModeOffset_def kDentV1SizeOffset_def kDentV1MtimeOffset_def kDentV2ModeOffset_def
  kDentV2SizeOffset_def kDentV2MtimeOffset_def

section \<open>Data\<close>

record DirEntry =
  de_name :: string
  de_mode :: u32
  de_size :: u64
  de_mtime :: int

record FileStat =
  fs_mode :: u32
  fs_size :: u64
  fs_mtime :: int

definition is_directory :: "u32 \<Rightarrow> bool" where
  "is_directory mode \<longleftrightarrow> mode AND 0xF000 = 0x4000"

definition is_regular :: "u32 \<Rightarrow> bool" where
  "is_regular mode \<longleftrightarrow> mode AND 0xF000 = 0x8000"

datatype SyncCompression = CompressAuto | CompressNone | CompressZstd | CompressLz4 | CompressBrotli

section \<open>Requests and replies\<close>

definition read_u64_le :: "byte list \<Rightarrow> u64" where
  "read_u64_le bs = ucast (read_u32_le bs) OR push_bit 32 (ucast (read_u32_le (drop 4 bs)))"

definition write_path_request :: "'t Transport_ops \<Rightarrow> u32 \<Rightarrow> string \<Rightarrow> ('t streaming, unit) st" where
  "write_path_request T i path =
     stream_write T (write_u32_le i @ write_u32_le (of_nat (length path)) @ bytes_of_string path)"

text \<open>Every caller returns the error \<open>sync_fail\<close> computes, so it is an operation that fails.\<close>

definition sync_fail :: "'t Transport_ops \<Rightarrow> ('t streaming, 'a) io" where
  "sync_fail T =
     bind_io (stream_read T 4)
       (\<lambda>length_bytes. bind_io (stream_read T (unat (read_u32_le length_bytes)))
         (\<lambda>reason. fail_io (mk_error Device (''the sync request failed: '' @ string_of_bytes reason))))"

definition write_quit :: "'t Transport_ops \<Rightarrow> ('t streaming, unit) st" where
  "write_quit T = stream_write T (write_u32_le kQuit @ replicate 4 0)"

definition write_recv_v2 :: "'t Transport_ops \<Rightarrow> string \<Rightarrow> u32 \<Rightarrow> ('t streaming, unit) st" where
  "write_recv_v2 T path flags =
     stream_write T (write_u32_le kRecvV2 @ write_u32_le (of_nat (length path)) @ bytes_of_string path
       @ write_u32_le kRecvV2 @ write_u32_le flags)"

definition write_send_v2 :: "'t Transport_ops \<Rightarrow> string \<Rightarrow> u32 \<Rightarrow> u32 \<Rightarrow> ('t streaming, unit) st" where
  "write_send_v2 T path mode flags =
     stream_write T (write_u32_le kSendV2 @ write_u32_le (of_nat (length path)) @ bytes_of_string path
       @ write_u32_le kSendV2 @ write_u32_le mode @ write_u32_le flags)"

definition sync_flag_of :: "CompressionCodec \<Rightarrow> u32" where
  "sync_flag_of codec =
     (if codec = Zstd then kSyncFlagZstd else if codec = Lz4 then kSyncFlagLz4 else kSyncFlagBrotli)"

definition choose_codec ::
  "Build \<Rightarrow> 't Connection \<Rightarrow> SyncCompression \<Rightarrow> CompressionCodec option Result" where
  "choose_codec b c compression =
     (if compression = CompressNone then Inr None
      else
        let v2 = supports_feature c ''sendrecv_v2'';
            zstd = (has_zstd b \<and> v2 \<and> supports_feature c ''sendrecv_v2_zstd'');
            lz4 = (has_lz4 b \<and> v2 \<and> supports_feature c ''sendrecv_v2_lz4'');
            brotli = (has_brotli b \<and> v2 \<and> supports_feature c ''sendrecv_v2_brotli'') in
        if compression = CompressZstd \<and> \<not> zstd then
          Inl (mk_error InvalidArgument ''zstd compression is not available for this device or build'')
        else if compression = CompressLz4 \<and> \<not> lz4 then
          Inl (mk_error InvalidArgument ''lz4 compression is not available for this device or build'')
        else if compression = CompressBrotli \<and> \<not> brotli then
          Inl (mk_error InvalidArgument ''brotli compression is not available for this device or build'')
        else if zstd then Inr (Some Zstd)
        else if lz4 then Inr (Some Lz4)
        else if brotli then Inr (Some Brotli)
        else Inr None)"

definition compress_chunk ::
  "Build \<Rightarrow> 'd Codecs \<Rightarrow> CompressionCodec \<Rightarrow> byte list \<Rightarrow> byte list Result" where
  "compress_chunk b L codec input =
     (if has_zstd b \<and> codec = Zstd then compress_zstd (zstd_lib L) input
      else if has_lz4 b \<and> codec = Lz4 then compress_lz4 (lz4_lib L) input
      else if has_brotli b \<and> codec = Brotli then compress_brotli (brotli_lib L) input
      else Inl (mk_error Protocol ''the sync codec is not built in''))"

record 'd ChunkDecoder =
  cd_codec :: CompressionCodec
  cd_zstd :: "'d option"
  cd_lz4 :: "'d option"
  cd_brotli :: "'d option"

definition chunk_decoder_new :: "'d Codecs \<Rightarrow> CompressionCodec \<Rightarrow> 'd ChunkDecoder" where
  "chunk_decoder_new L codec =
     \<lparr>cd_codec = codec, cd_zstd = cl_create (zstd_lib L), cd_lz4 = cl_create (lz4_lib L),
      cd_brotli = cl_create (brotli_lib L)\<rparr>"

definition chunk_decode ::
  "Build \<Rightarrow> 'd Codecs \<Rightarrow> byte list \<Rightarrow> 'd ChunkDecoder \<Rightarrow> (byte list Result \<times> 'd ChunkDecoder) option" where
  "chunk_decode b L input cd =
     (if has_zstd b \<and> cd_codec cd = Zstd then
        map_option (\<lambda>(r, d). (r, cd\<lparr>cd_zstd := d\<rparr>)) (zstd_decode (zstd_lib L) input (cd_zstd cd))
      else if has_lz4 b \<and> cd_codec cd = Lz4 then
        map_option (\<lambda>(r, d). (r, cd\<lparr>cd_lz4 := d\<rparr>)) (lz4_decode (lz4_lib L) input (cd_lz4 cd))
      else if has_brotli b \<and> cd_codec cd = Brotli then
        map_option (\<lambda>(r, d). (r, cd\<lparr>cd_brotli := d\<rparr>)) (brotli_decode (brotli_lib L) input (cd_brotli cd))
      else Some (Inl (mk_error Protocol ''the sync codec is not built in''), cd))"

definition read_status :: "'t Transport_ops \<Rightarrow> ('t streaming, unit) io" where
  "read_status T =
     bind_io (stream_read T 4)
       (\<lambda>id_bytes. let i = read_u32_le id_bytes in
          if i = kFail then sync_fail T
          else if i \<noteq> kSyncOkay then fail_io (mk_error Protocol ''unexpected sync response'')
          else bind_io (stream_read T 4) (\<lambda>_. ok_io ()))"

definition local_mtime :: "Host \<Rightarrow> string \<Rightarrow> int" where
  "local_mtime h path =
     (case last_write_time h path of
        None \<Rightarrow> system_now h
      | Some file_time \<Rightarrow> let offset = system_now h - file_clock_now h in file_time + offset)"

definition local_mode :: "Host \<Rightarrow> string \<Rightarrow> u32" where
  "local_mode h path =
     (case posix_stat h path of None \<Rightarrow> 0x8000 OR 0x180 | Some st_mode \<Rightarrow> st_mode AND 0x1FF)"

definition max_compressed_chunk_size :: "Build \<Rightarrow> 'd Codecs \<Rightarrow> nat" where
  "max_compressed_chunk_size b L =
     max (if has_brotli b then cl_max_bound (brotli_lib L) kMaxChunkSize else 0)
       (max (if has_lz4 b then cl_max_bound (lz4_lib L) kMaxChunkSize else 0)
         (max (if has_zstd b then cl_max_bound (zstd_lib L) kMaxChunkSize else 0) 0))"

section \<open>Streams beside local files\<close>

definition on_stream :: "('t streaming, 'a) io \<Rightarrow> ('t streaming \<times> Host, 'a) io" where
  "on_stream m X = (case X of (S, h) \<Rightarrow> map_option (\<lambda>(r, S'). (r, (S', h))) (m S))"

definition on_connection :: "('t Connection, 'a) io \<Rightarrow> ('t Connection \<times> Host, 'a) io" where
  "on_connection m X = (case X of (c, h) \<Rightarrow> map_option (\<lambda>(r, c'). (r, (c', h))) (m c))"

text \<open>A local stream whose function also works on the host's files.\<close>

definition with_stream_on ::
  "'t Transport_ops \<Rightarrow> string \<Rightarrow> ('t streaming \<times> Host, 'a) io \<Rightarrow> ('t Connection \<times> Host, 'a) io" where
  "with_stream_on T svc body X =
     (case X of (c, h) \<Rightarrow>
        (case with_stream T svc (\<lambda>S. map_option (\<lambda>(r, (S', h')). (Inr (r, h'), S')) (body (S, h))) c of
           None \<Rightarrow> None
         | Some (Inl e, c') \<Rightarrow> Some (Inl e, (c', h))
         | Some (Inr (r, h'), c') \<Rightarrow> Some (r, (c', h'))))"

section \<open>Listing\<close>

definition dent_entry :: "bool \<Rightarrow> byte list \<Rightarrow> byte list \<Rightarrow> DirEntry" where
  "dent_entry v2 body name =
     (if v2 then
        \<lparr>de_name = string_of_bytes name, de_mode = read_u32_le (drop kDentV2ModeOffset body),
         de_size = read_u64_le (drop kDentV2SizeOffset body),
         de_mtime = sint (read_u64_le (drop kDentV2MtimeOffset body))\<rparr>
      else
        \<lparr>de_name = string_of_bytes name, de_mode = read_u32_le (drop kDentV1ModeOffset body),
         de_size = ucast (read_u32_le (drop kDentV1SizeOffset body)),
         de_mtime = uint (read_u32_le (drop kDentV1MtimeOffset body))\<rparr>)"

partial_function (option) list_from ::
  "'t Transport_ops \<Rightarrow> bool \<Rightarrow> DirEntry list \<Rightarrow> 't streaming \<Rightarrow> (DirEntry list Result \<times> 't streaming) option" where
  "list_from T v2 entries S =
     bind_io (stream_read T 4)
       (\<lambda>id_bytes. let i = read_u32_le id_bytes in
          if i = kFail then sync_fail T
          else bind_io (stream_read T (if v2 then kDentV2BodySize else kDentV1BodySize))
            (\<lambda>body.
              if i = kDone then ok_io entries
              else if i \<noteq> (if v2 then kDentV2 else kDentV1) then
                fail_io (mk_error Protocol ''unexpected sync response'')
              else let name_length =
                  read_u32_le (drop (if v2 then kDentV2NameLengthOffset else kDentV1NameLengthOffset) body) in
                if kMaxNameLength < unat name_length then
                  fail_io (mk_error Protocol ''the entry name is longer than 255 bytes'')
                else bind_io (stream_read T (unat name_length))
                  (\<lambda>name.
                    if v2 \<and> read_u32_le (drop kErrorOffset body) \<noteq> 0 then (\<lambda>S1. list_from T v2 entries S1)
                    else (\<lambda>S1. list_from T v2 (entries @ [dent_entry v2 body name]) S1)))) S"

declare list_from.simps [code]

definition path_limit :: Error where
  "path_limit = mk_error InvalidArgument ''the path is longer than the sync limit of 1024 bytes''"

definition list_body :: "'t Transport_ops \<Rightarrow> bool \<Rightarrow> string \<Rightarrow> ('t streaming, DirEntry list) io" where
  "list_body T v2 path =
     bind_io (lift_io (write_path_request T (if v2 then kListV2 else kListV1) path))
       (\<lambda>_. bind_io (list_from T v2 [])
         (\<lambda>entries. bind_io (lift_io (write_quit T)) (\<lambda>_. ok_io entries)))"

definition sync_list :: "'t Transport_ops \<Rightarrow> string \<Rightarrow> ('t Connection, DirEntry list) io" where
  "sync_list T path c =
     (if kMaxPathLength < length path then fail_io path_limit c
      else with_stream T ''sync:'' (list_body T (supports_feature c ''ls_v2'') path) c)"

section \<open>Metadata\<close>

definition stat_body :: "'t Transport_ops \<Rightarrow> bool \<Rightarrow> string \<Rightarrow> ('t streaming, FileStat option) io" where
  "stat_body T v2 path =
     bind_io (lift_io (write_path_request T (if v2 then kStatV2 else kStatV1) path))
       (\<lambda>_. bind_io (stream_read T 4)
         (\<lambda>id_bytes.
           if v2 then
             bind_io (stream_read T kStatV2BodySize)
               (\<lambda>body.
                 if read_u32_le (drop kErrorOffset body) \<noteq> 0 then
                   bind_io (lift_io (write_quit T)) (\<lambda>_. ok_io None)
                 else
                   bind_io (lift_io (write_quit T))
                     (\<lambda>_. ok_io (Some \<lparr>fs_mode = read_u32_le (drop kDentV2ModeOffset body),
                         fs_size = read_u64_le (drop kDentV2SizeOffset body),
                         fs_mtime = sint (read_u64_le (drop kDentV2MtimeOffset body))\<rparr>)))
           else
             bind_io (stream_read T kStatV1BodySize)
               (\<lambda>body.
                 if read_u32_le (drop kDentV1ModeOffset body) = 0
                    \<and> read_u32_le (drop kDentV1SizeOffset body) = 0
                    \<and> read_u32_le (drop kDentV1MtimeOffset body) = 0 then
                   bind_io (lift_io (write_quit T)) (\<lambda>_. ok_io None)
                 else
                   bind_io (lift_io (write_quit T))
                     (\<lambda>_. ok_io (Some \<lparr>fs_mode = read_u32_le (drop kDentV1ModeOffset body),
                         fs_size = ucast (read_u32_le (drop kDentV1SizeOffset body)),
                         fs_mtime = uint (read_u32_le (drop kDentV1MtimeOffset body))\<rparr>)))))"

definition sync_stat :: "'t Transport_ops \<Rightarrow> string \<Rightarrow> ('t Connection, FileStat option) io" where
  "sync_stat T path c =
     (if kMaxPathLength < length path then fail_io path_limit c
      else with_stream T ''sync:'' (stat_body T (supports_feature c ''stat_v2'') path) c)"

section \<open>Pulling a file\<close>

text \<open>Opening and writing the local file inside a transfer.\<close>

definition create_output :: "string \<Rightarrow> ('s \<times> Host, unit) io" where
  "create_output path X =
     (case X of (S, h) \<Rightarrow>
        (case out_open path h of
           (ok, h') \<Rightarrow>
             Some (if ok then Inr () else Inl (mk_error Io ''cannot open the local file for writing''), (S, h'))))"

definition write_output :: "string \<Rightarrow> byte list \<Rightarrow> ('s \<times> Host, unit) io" where
  "write_output path bs X =
     (case X of (S, h) \<Rightarrow>
        (case out_write path bs h of
           (ok, h') \<Rightarrow>
             Some (if ok then Inr () else Inl (mk_error Io ''failed to write the local file''), (S, h'))))"

partial_function (option) pull_from ::
  "'t Transport_ops \<Rightarrow> string \<Rightarrow> 't streaming \<times> Host \<Rightarrow> (unit Result \<times> ('t streaming \<times> Host)) option" where
  "pull_from T path X =
     bind_io (on_stream (stream_read T 4))
       (\<lambda>id_bytes. let i = read_u32_le id_bytes in
          if i = kFail then on_stream (sync_fail T)
          else bind_io (on_stream (stream_read T 4))
            (\<lambda>size_bytes. let size = read_u32_le size_bytes in
              if i = kDone then ok_io ()
              else if i \<noteq> kData then fail_io (mk_error Protocol ''unexpected sync response'')
              else if kMaxChunkSize < unat size then
                fail_io (mk_error Protocol ''the sync chunk is larger than 64 KiB'')
              else bind_io (on_stream (stream_read T (unat size)))
                (\<lambda>chunk. bind_io (write_output path chunk)
                  (\<lambda>_ X1. pull_from T path X1)))) X"

declare pull_from.simps [code]

definition pull_body ::
  "'t Transport_ops \<Rightarrow> string \<Rightarrow> string \<Rightarrow> ('t streaming \<times> Host, unit) io" where
  "pull_body T remote path =
     bind_io (on_stream (lift_io (write_path_request T kRecvV1 remote)))
       (\<lambda>_. bind_io (create_output path)
         (\<lambda>_. bind_io (pull_from T path)
           (\<lambda>_. on_stream (lift_io (write_quit T)))))"

text \<open>The v2 form, with the decoder of the transfer.\<close>

definition decode_output ::
  "Build \<Rightarrow> 'd Codecs \<Rightarrow> string \<Rightarrow> byte list \<Rightarrow> 'd ChunkDecoder
     \<Rightarrow> ('s \<times> Host, 'd ChunkDecoder) io" where
  "decode_output b L path chunk cd X =
     (case chunk_decode b L chunk cd of
        None \<Rightarrow> None
      | Some (Inl e, _) \<Rightarrow> Some (Inl e, X)
      | Some (Inr decoded, cd') \<Rightarrow> bind_io (write_output path decoded) (\<lambda>_. ok_io cd') X)"

partial_function (option) pull_v2_from ::
  "Build \<Rightarrow> 'd Codecs \<Rightarrow> 't Transport_ops \<Rightarrow> string \<Rightarrow> 'd ChunkDecoder \<Rightarrow> 't streaming \<times> Host
     \<Rightarrow> (unit Result \<times> ('t streaming \<times> Host)) option" where
  "pull_v2_from b L T path cd X =
     bind_io (on_stream (stream_read T 4))
       (\<lambda>id_bytes. let i = read_u32_le id_bytes in
          if i = kFail then on_stream (sync_fail T)
          else bind_io (on_stream (stream_read T 4))
            (\<lambda>size_bytes. let size = read_u32_le size_bytes in
              if i = kDone then ok_io ()
              else if i \<noteq> kData then fail_io (mk_error Protocol ''unexpected sync response'')
              else if max_compressed_chunk_size b L < unat size then
                fail_io (mk_error Protocol ''the sync chunk is larger than the compression bound'')
              else bind_io (on_stream (stream_read T (unat size)))
                (\<lambda>chunk. bind_io (decode_output b L path chunk cd)
                  (\<lambda>cd' X1. pull_v2_from b L T path cd' X1)))) X"

declare pull_v2_from.simps [code]

definition pull_v2_body ::
  "Build \<Rightarrow> 'd Codecs \<Rightarrow> 't Transport_ops \<Rightarrow> string \<Rightarrow> string \<Rightarrow> CompressionCodec
     \<Rightarrow> ('t streaming \<times> Host, unit) io" where
  "pull_v2_body b L T remote path codec =
     bind_io (on_stream (lift_io (write_recv_v2 T remote (sync_flag_of codec))))
       (\<lambda>_. bind_io (create_output path)
         (\<lambda>_. bind_io (pull_v2_from b L T path (chunk_decoder_new L codec))
           (\<lambda>_. on_stream (lift_io (write_quit T)))))"

definition pull_v2 ::
  "Build \<Rightarrow> 'd Codecs \<Rightarrow> 't Transport_ops \<Rightarrow> string \<Rightarrow> string \<Rightarrow> CompressionCodec
     \<Rightarrow> ('t Connection \<times> Host, unit) io" where
  "pull_v2 b L T remote path codec = with_stream_on T ''sync:'' (pull_v2_body b L T remote path codec)"

text \<open>The form of a transfer: a codec, none, or the error of a request that cannot be met.\<close>

definition transfer_codec ::
  "Build \<Rightarrow> 't Connection \<Rightarrow> SyncCompression \<Rightarrow> CompressionCodec option Result" where
  "transfer_codec b c compression =
     (case (if has_compression b then choose_codec b c compression else Inr None) of
        Inl e \<Rightarrow> Inl e
      | Inr (Some codec) \<Rightarrow> Inr (Some codec)
      | Inr None \<Rightarrow>
          if compression = CompressZstd \<or> compression = CompressLz4 \<or> compression = CompressBrotli then
            Inl (mk_error InvalidArgument ''compression is not available for this device or build'')
          else Inr None)"

definition sync_pull ::
  "Build \<Rightarrow> 'd Codecs \<Rightarrow> 't Transport_ops \<Rightarrow> string \<Rightarrow> string \<Rightarrow> SyncCompression
     \<Rightarrow> ('t Connection \<times> Host, unit) io" where
  "sync_pull b L T remote path compression X =
     (if kMaxPathLength < length remote then fail_io path_limit X
      else (case transfer_codec b (fst X) compression of
              Inl e \<Rightarrow> fail_io e X
            | Inr (Some codec) \<Rightarrow> pull_v2 b L T remote path codec X
            | Inr None \<Rightarrow> with_stream_on T ''sync:'' (pull_body T remote path) X))"

section \<open>Pushing a file\<close>

text \<open>
  The loop over the local file, for a function \<open>enc\<close> from a chunk to the bytes of its \<open>DATA\<close> block. It
  ends with whether the stream met the end of the file. Both forms of the transfer run it.
\<close>

function push_chunks ::
  "'t Transport_ops \<Rightarrow> (byte list \<Rightarrow> byte list Result) \<Rightarrow> Host \<Rightarrow> string \<Rightarrow> nat \<Rightarrow> 't streaming
     \<Rightarrow> bool Result \<times> 't streaming" where
  "push_chunks T enc h path pos S =
     (case in_read path pos kMaxChunkSize h of
        (bs, state) \<Rightarrow>
          if bs = [] then (Inr (state = Eof), S)
          else (case enc bs of
                  Inl e \<Rightarrow> (Inl e, S)
                | Inr block \<Rightarrow>
                    (case stream_write T (write_u32_le kData @ write_u32_le (of_nat (length block)) @ block) S of
                       (Inl e, S') \<Rightarrow> (Inl e, S')
                     | (Inr _, S') \<Rightarrow>
                         if state = Good then push_chunks T enc h path (pos + length bs) S'
                         else (Inr (state = Eof), S'))))"
  by pat_completeness auto
termination
  by (relation "measure (\<lambda>(T, enc, h, path, pos, S). Suc (length (file_content h path)) - pos)")
    (auto simp: kMaxChunkSize_def dest!: sym [of _ "in_read _ _ _ _"] in_read_Good_length
      simp flip: length_greater_0_conv)

declare push_chunks.simps [simp del]

text \<open>The end of a transfer: \<open>DONE\<close> with the file's time, the device's status, and \<open>QUIT\<close>.\<close>

definition push_finish :: "'t Transport_ops \<Rightarrow> Host \<Rightarrow> string \<Rightarrow> ('t streaming, unit) io" where
  "push_finish T h path =
     bind_io (lift_io (stream_write T (write_u32_le kDone @ write_u32_le (word_of_int (local_mtime h path)))))
       (\<lambda>_. bind_io (read_status T) (\<lambda>_. lift_io (write_quit T)))"

definition push_contents ::
  "'t Transport_ops \<Rightarrow> (byte list \<Rightarrow> byte list Result) \<Rightarrow> Host \<Rightarrow> string \<Rightarrow> ('t streaming, unit) io" where
  "push_contents T enc h path =
     (if \<not> in_open path h then fail_io (mk_error Io ''cannot open the local file'')
      else bind_io (lift_io (push_chunks T enc h path 0))
        (\<lambda>eof. if \<not> eof then fail_io (mk_error Io ''failed to read the local file'')
                else push_finish T h path))"

definition push_body ::
  "'t Transport_ops \<Rightarrow> Host \<Rightarrow> string \<Rightarrow> string \<Rightarrow> ('t streaming, unit) io" where
  "push_body T h path spec =
     bind_io (lift_io (write_path_request T kSendV1 spec)) (\<lambda>_. push_contents T Inr h path)"

definition push_v2_body ::
  "Build \<Rightarrow> 'd Codecs \<Rightarrow> 't Transport_ops \<Rightarrow> Host \<Rightarrow> string \<Rightarrow> string \<Rightarrow> u32 \<Rightarrow> CompressionCodec
     \<Rightarrow> ('t streaming, unit) io" where
  "push_v2_body b L T h path destination mode codec =
     bind_io (lift_io (write_send_v2 T destination mode (sync_flag_of codec)))
       (\<lambda>_. push_contents T (compress_chunk b L codec) h path)"

definition push_v2 ::
  "Build \<Rightarrow> 'd Codecs \<Rightarrow> 't Transport_ops \<Rightarrow> Host \<Rightarrow> string \<Rightarrow> string \<Rightarrow> u32 \<Rightarrow> CompressionCodec
     \<Rightarrow> ('t Connection, unit) io" where
  "push_v2 b L T h path destination mode codec =
     with_stream T ''sync:'' (push_v2_body b L T h path destination mode codec)"

definition push_destination :: "string \<Rightarrow> string \<Rightarrow> FileStat option \<Rightarrow> string" where
  "push_destination path remote existing =
     (case existing of
        Some st \<Rightarrow> if is_directory (fs_mode st) then remote @ ''/'' @ filename path else remote
      | None \<Rightarrow> remote)"

definition push_spec :: "string \<Rightarrow> u32 \<Rightarrow> string" where
  "push_spec destination mode = destination @ '','' @ to_string (unat mode)"

definition sync_push ::
  "Build \<Rightarrow> 'd Codecs \<Rightarrow> 't Transport_ops \<Rightarrow> Host \<Rightarrow> string \<Rightarrow> string \<Rightarrow> SyncCompression
     \<Rightarrow> ('t Connection, unit) io" where
  "sync_push b L T h path remote compression =
     (if \<not> is_regular_file h path then
        fail_io (mk_error InvalidArgument ''the local file is not a regular file'')
      else bind_io (sync_stat T remote)
        (\<lambda>existing c.
          let destination = push_destination path remote existing; mode = local_mode h path in
          (case transfer_codec b c compression of
             Inl e \<Rightarrow> fail_io e c
           | Inr (Some codec) \<Rightarrow> push_v2 b L T h path destination mode codec c
           | Inr None \<Rightarrow> with_stream T ''sync:'' (push_body T h path (push_spec destination mode)) c)))"

end
