(* ===== verification/Adb_Sync_Spec.thy ===== *)
theory Adb_Sync_Spec
  imports Adb_Sync
begin

text \<open>
  The sync service over a byte channel. A pure reader, an operation on the bytes the device has still
  to send, specifies each operation of the service that reads; \<open>meets\<close> says that an operation on a
  stream does what its reader does, whatever frames carry the bytes, and its rules follow the
  sequencing combinators. The formats the device writes are encoders; parsing them back is the round
  trip of each reply.
\<close>

section \<open>Pure readers\<close>

type_synonym 'a reader = "(byte list, 'a) st"

definition pread :: "stream_event \<Rightarrow> nat \<Rightarrow> byte list reader" where
  "pread ev n d = (if n \<le> length d then (Inr (take n d), drop n d) else (Inl (end_error ev), []))"

definition pfail :: "stream_event \<Rightarrow> 'a reader" where
  "pfail ev =
     bind_st (pread ev 4)
       (\<lambda>l. bind_st (pread ev (unat (read_u32_le l)))
         (\<lambda>reason. fail_st (mk_error Device (''the sync request failed: '' @ string_of_bytes reason))))"

lemma bind_st_cong [fundef_cong]:
  assumes "m s = m' s" "\<And>a s'. m' s = (Inr a, s') \<Longrightarrow> f a s' = f' a s'"
  shows "bind_st m f s = bind_st m' f' s"
  using assms by (auto simp: bind_st_def split: prod.splits sum.splits)

lemma pread_eval:
  "n \<le> length d \<Longrightarrow> pread ev n d = (Inr (take n d), drop n d)"
  "length d < n \<Longrightarrow> pread ev n d = (Inl (end_error ev), [])"
  by (simp_all add: pread_def)

lemma pread_Inr: "pread ev n d = (Inr bs, d') \<Longrightarrow> bs = take n d \<and> d' = drop n d \<and> n \<le> length d"
  by (auto simp: pread_def split: if_splits)

lemma pread_append [simp]: "length xs = n \<Longrightarrow> pread ev n (xs @ ys) = (Inr xs, ys)"
  by (simp add: pread_def)

lemma bind_pread_append:
  "length xs = n \<Longrightarrow> bind_st (pread ev n) f (xs @ ys) = f xs ys"
  by (simp add: bind_st_def)

text \<open>The listing: entries up to \<open>DONE\<close>.\<close>

function plist :: "stream_event \<Rightarrow> bool \<Rightarrow> DirEntry list \<Rightarrow> byte list \<Rightarrow> DirEntry list Result \<times> byte list" where
  "plist ev v2 entries d =
     bind_st (pread ev 4)
       (\<lambda>id_bytes d1. let i = read_u32_le id_bytes in
          if i = kFail then pfail ev d1
          else bind_st (pread ev (if v2 then kDentV2BodySize else kDentV1BodySize))
            (\<lambda>body d2.
              if i = kDone then ok_st entries d2
              else if i \<noteq> (if v2 then kDentV2 else kDentV1) then
                fail_st (mk_error Protocol ''unexpected sync response'') d2
              else let name_length =
                  read_u32_le (drop (if v2 then kDentV2NameLengthOffset else kDentV1NameLengthOffset) body) in
                if kMaxNameLength < unat name_length then
                  fail_st (mk_error Protocol ''the entry name is longer than 255 bytes'') d2
                else bind_st (pread ev (unat name_length))
                  (\<lambda>name d3.
                    if v2 \<and> read_u32_le (drop kErrorOffset body) \<noteq> 0 then plist ev v2 entries d3
                    else plist ev v2 (entries @ [dent_entry v2 body name]) d3) d2) d1) d"
  by pat_completeness auto
termination
  by (relation "measure (\<lambda>(ev, v2, entries, d). length d)") (auto dest!: pread_Inr)

declare plist.simps [simp del]

section \<open>Streams that follow a reader\<close>

definition meets ::
  "('t \<Rightarrow> bool) \<Rightarrow> ('t \<Rightarrow> byte list) \<Rightarrow> ('t \<Rightarrow> byte list) \<Rightarrow> byte list \<Rightarrow> Frame list \<Rightarrow> 't streaming \<Rightarrow> stream_event
     \<Rightarrow> Frame list \<Rightarrow> ('t streaming, 'a) io \<Rightarrow> 'a reader \<Rightarrow> byte list \<Rightarrow> bool" where
  "meets good pending sent base tail S0 ev q m p d \<longleftrightarrow>
     (\<forall>S. dialogue good pending sent base tail S0 S d ev q \<longrightarrow> tail = [] \<or> isr (fst (p d)) \<longrightarrow>
        (\<exists>S'. m S = Some (fst (p d), S') \<and> same_link S0 S' \<and> spoken good pending sent base tail (snd S') q
           \<and> (isr (fst (p d)) \<longrightarrow> dialogue good pending sent base tail S0 S' (snd (p d)) ev q)))"

context byte_channel
begin

lemma meets_read: "meets good pending sent base tail S0 ev q (stream_read T n) (pread ev n) d"
  unfolding meets_def
proof (intro allI impI)
  fix S
  assume *: "dialogue good pending sent base tail S0 S d ev q" and tail: "tail = [] \<or> isr (fst (pread ev n d))"
  show "\<exists>S'. stream_read T n S = Some (fst (pread ev n d), S') \<and> same_link S0 S'
      \<and> spoken good pending sent base tail (snd S') q
      \<and> (isr (fst (pread ev n d)) \<longrightarrow> dialogue good pending sent base tail S0 S' (snd (pread ev n d)) ev q)"
  proof (cases "n \<le> length d")
    case True
    with dialogue_read [OF * True] dialogue_spoken show ?thesis by (fastforce simp: pread_def)
  next
    case False
    with tail have "tail = []" by (simp add: pread_def)
    with False dialogue_read_short [OF *, of n] show ?thesis by (auto simp: pread_def)
  qed
qed

lemma meets_ok: "meets good pending sent base tail S0 ev q (ok_io a) (ok_st a) d"
  by (auto simp: meets_def seq_simps dest: dialogue_spoken)

lemma meets_fail: "meets good pending sent base tail S0 ev q (fail_io e) (fail_st e) d"
  by (auto simp: meets_def seq_simps dest: dialogue_spoken)

lemma meets_bind:
  assumes "meets good pending sent base tail S0 ev q m p d"
    and "\<And>a d'. p d = (Inr a, d') \<Longrightarrow> meets good pending sent base tail S0 ev q (f a) (g a) d'"
  shows "meets good pending sent base tail S0 ev q (bind_io m f) (bind_st p g) d"
  unfolding meets_def
proof (intro allI impI)
  fix S
  assume *: "dialogue good pending sent base tail S0 S d ev q"
    and tail: "tail = [] \<or> isr (fst (bind_st p g d))"
  obtain r d' where p: "p d = (r, d')" by fastforce
  have "tail = [] \<or> isr (fst (p d))" using tail p by (cases r) (auto simp: seq_simps)
  then obtain S' where S': "m S = Some (r, S')" "same_link S0 S'" "spoken good pending sent base tail (snd S') q"
    "isr r \<Longrightarrow> dialogue good pending sent base tail S0 S' d' ev q"
    using assms(1) [unfolded meets_def, rule_format, OF *] p by auto
  show "\<exists>S'. bind_io m f S = Some (fst (bind_st p g d), S') \<and> same_link S0 S'
      \<and> spoken good pending sent base tail (snd S') q
      \<and> (isr (fst (bind_st p g d)) \<longrightarrow> dialogue good pending sent base tail S0 S' (snd (bind_st p g d)) ev q)"
  proof (cases r)
    case (Inl e)
    with S' p show ?thesis by (auto simp: seq_simps)
  next
    case (Inr a)
    then have eqs: "bind_io m f S = f a S'" "bind_st p g d = g a d'" using p S'(1) by (simp_all add: seq_simps)
    have "meets good pending sent base tail S0 ev q (f a) (g a) d'" using assms(2) p Inr by simp
    from this [unfolded meets_def, rule_format, of S'] S'(4) Inr tail show ?thesis
      unfolding eqs by simp
  qed
qed

lemma meets_if:
  assumes "c \<Longrightarrow> meets good pending sent base tail S0 ev q m p d"
    and "\<not> c \<Longrightarrow> meets good pending sent base tail S0 ev q m' p' d"
  shows "meets good pending sent base tail S0 ev q (if c then m else m') (\<lambda>d. if c then p d else p' d) d"
  using assms by (cases c) simp_all

lemma meets_unfold:
  assumes "\<And>S. m S = m' S" "\<And>d. p d = p' d" "meets good pending sent base tail S0 ev q m' p' d"
  shows "meets good pending sent base tail S0 ev q m p d"
proof -
  have "m = m'" "p = p'" using assms(1,2) by auto
  with assms(3) show ?thesis by simp
qed

lemma meets_sync_fail: "meets good pending sent base tail S0 ev q (sync_fail T) (pfail ev) d"
  unfolding sync_fail_def pfail_def by (intro meets_bind meets_read meets_fail)

lemmas meets_intros = meets_bind meets_read meets_ok meets_fail meets_if meets_sync_fail

lemma meets_list: "meets good pending sent base tail S0 ev q (list_from T v2 entries) (plist ev v2 entries) d"
proof (induction d arbitrary: entries rule: length_induct)
  case (1 d)
  then have IH: "meets good pending sent base tail S0 ev q (list_from T v2 entries) (plist ev v2 entries) d'"
    if "length d' < length d" for entries d'
    using that by blast
  show ?case
    by (rule meets_unfold [OF list_from.simps plist.simps], unfold Let_def,
        intro meets_intros IH) (auto dest!: pread_Inr)
qed

end

section \<open>The formats of the device\<close>

definition write_u64_le :: "u64 \<Rightarrow> byte list" where
  "write_u64_le w = write_u32_le (ucast w) @ write_u32_le (ucast (drop_bit 32 w))"

lemma length_write_u64_le [simp]: "length (write_u64_le w) = 8"
  by (simp add: write_u64_le_def)

lemma read_write_u64_le [simp]: "read_u64_le (write_u64_le w @ bs) = w"
  by (simp add: read_u64_le_def write_u64_le_def)
    (rule bit_word_eqI, auto simp: bit_simps)

text \<open>A directory entry as the device has it, and its \<open>DENT\<close> message in the two forms.\<close>

record Dent =
  dn_error :: u32
  dn_dev :: u64
  dn_ino :: u64
  dn_mode :: u32
  dn_nlink :: u32
  dn_uid :: u32
  dn_gid :: u32
  dn_size :: u64
  dn_atime :: u64
  dn_mtime :: u64
  dn_ctime :: u64
  dn_name :: string

definition stat_fields :: "Dent \<Rightarrow> byte list" where
  "stat_fields e =
     write_u32_le (dn_error e) @ write_u64_le (dn_dev e) @ write_u64_le (dn_ino e) @ write_u32_le (dn_mode e)
       @ write_u32_le (dn_nlink e) @ write_u32_le (dn_uid e) @ write_u32_le (dn_gid e)
       @ write_u64_le (dn_size e) @ write_u64_le (dn_atime e) @ write_u64_le (dn_mtime e)
       @ write_u64_le (dn_ctime e)"

definition stat_fields_v1 :: "Dent \<Rightarrow> byte list" where
  "stat_fields_v1 e =
     write_u32_le (dn_mode e) @ write_u32_le (ucast (dn_size e)) @ write_u32_le (ucast (dn_mtime e))"

definition dent_body :: "bool \<Rightarrow> Dent \<Rightarrow> byte list" where
  "dent_body v2 e =
     (if v2 then stat_fields e else stat_fields_v1 e) @ write_u32_le (of_nat (length (dn_name e)))"

definition encode_dent :: "bool \<Rightarrow> Dent \<Rightarrow> byte list" where
  "encode_dent v2 e =
     write_u32_le (if v2 then kDentV2 else kDentV1) @ dent_body v2 e @ bytes_of_string (dn_name e)"

definition encode_listing :: "bool \<Rightarrow> Dent list \<Rightarrow> byte list" where
  "encode_listing v2 es =
     concat (map (encode_dent v2) es)
       @ write_u32_le kDone @ replicate (if v2 then kDentV2BodySize else kDentV1BodySize) 0"

text \<open>What a listing should report: in v1 the device sends the low halves of size and time.\<close>

definition dent_view :: "bool \<Rightarrow> Dent \<Rightarrow> DirEntry" where
  "dent_view v2 e =
     \<lparr>de_name = dn_name e, de_mode = dn_mode e,
      de_size = (if v2 then dn_size e else ucast (ucast (dn_size e) :: u32)),
      de_mtime = (if v2 then sint (dn_mtime e) else uint (ucast (dn_mtime e) :: u32))\<rparr>"

definition listed :: "bool \<Rightarrow> Dent list \<Rightarrow> DirEntry list" where
  "listed v2 es = map (dent_view v2) (filter (\<lambda>e. v2 \<longrightarrow> dn_error e = 0) es)"

lemma sync_ids_distinct [simp]:
  "kDentV1 \<noteq> kFail" "kDentV2 \<noteq> kFail" "kDentV1 \<noteq> kDone" "kDentV2 \<noteq> kDone" "kDone \<noteq> kFail" "kData \<noteq> kFail"
  "kData \<noteq> kDone" "kSyncOkay \<noteq> kFail" "kFail \<noteq> kSyncOkay"
  by (simp_all add: kDentV1_def kDentV2_def kFail_def kDone_def kData_def kSyncOkay_def make_command_def
      push_bit_eq_mult)

lemma length_dent_body [simp]: "length (dent_body v2 e) = (if v2 then kDentV2BodySize else kDentV1BodySize)"
  by (simp add: dent_body_def stat_fields_def stat_fields_v1_def kDentV1BodySize_def kDentV2BodySize_def)

lemma dent_body_fields:
  "read_u32_le (drop kErrorOffset (dent_body True e)) = dn_error e"
  "read_u32_le (drop kDentV2NameLengthOffset (dent_body True e)) = of_nat (length (dn_name e))"
  "read_u32_le (drop kDentV1NameLengthOffset (dent_body False e)) = of_nat (length (dn_name e))"
  "dent_entry v2 (dent_body v2 e) (bytes_of_string (dn_name e)) = dent_view v2 e"
  by (cases v2; simp add: dent_body_def stat_fields_def stat_fields_v1_def sync_layout dent_entry_def
      dent_view_def del: of_nat_Suc)+

lemma plist_step:
  assumes "length (dn_name e) \<le> kMaxNameLength"
  shows "plist ev v2 acc (encode_dent v2 e @ rest) = plist ev v2 (acc @ listed v2 [e]) rest"
proof -
  have n: "unat (of_nat (length (dn_name e)) :: u32) = length (dn_name e)"
    using assms by (simp add: unat_of_nat kMaxNameLength_def)
  show ?thesis
    using assms n
    by (subst plist.simps, cases v2)
      (simp_all add: encode_dent_def bind_pread_append dent_body_fields listed_def Let_def)
qed

lemma plist_encode:
  assumes "\<forall>e \<in> set es. length (dn_name e) \<le> kMaxNameLength"
  shows "plist ev v2 acc (encode_listing v2 es @ rest) = (Inr (acc @ listed v2 es), rest)"
  using assms
proof (induction es arbitrary: acc)
  case Nil
  show ?case
    by (subst plist.simps) (simp add: encode_listing_def bind_pread_append listed_def Let_def seq_simps)
next
  case (Cons e es)
  have "encode_listing v2 (e # es) @ rest = encode_dent v2 e @ encode_listing v2 es @ rest"
    by (simp add: encode_listing_def)
  with Cons plist_step [of e ev v2 acc "encode_listing v2 es @ rest"] show ?case
    by (simp add: listed_def)
qed

text \<open>The metadata of one path.\<close>

definition stat_value :: "bool \<Rightarrow> byte list \<Rightarrow> FileStat option" where
  "stat_value v2 body =
     (if v2 then
        if read_u32_le (drop kErrorOffset body) \<noteq> 0 then None
        else Some \<lparr>fs_mode = read_u32_le (drop kDentV2ModeOffset body),
          fs_size = read_u64_le (drop kDentV2SizeOffset body),
          fs_mtime = sint (read_u64_le (drop kDentV2MtimeOffset body))\<rparr>
      else
        if read_u32_le (drop kDentV1ModeOffset body) = 0 \<and> read_u32_le (drop kDentV1SizeOffset body) = 0
           \<and> read_u32_le (drop kDentV1MtimeOffset body) = 0 then None
        else Some \<lparr>fs_mode = read_u32_le (drop kDentV1ModeOffset body),
          fs_size = ucast (read_u32_le (drop kDentV1SizeOffset body)),
          fs_mtime = uint (read_u32_le (drop kDentV1MtimeOffset body))\<rparr>)"

definition pstat :: "stream_event \<Rightarrow> bool \<Rightarrow> FileStat option reader" where
  "pstat ev v2 =
     bind_st (pread ev 4)
       (\<lambda>_. bind_st (pread ev (if v2 then kStatV2BodySize else kStatV1BodySize))
         (\<lambda>body. ok_st (stat_value v2 body)))"

definition stat_view :: "bool \<Rightarrow> Dent \<Rightarrow> FileStat option" where
  "stat_view v2 e =
     (if v2 then
        (if dn_error e \<noteq> 0 then None
         else Some \<lparr>fs_mode = dn_mode e, fs_size = dn_size e, fs_mtime = sint (dn_mtime e)\<rparr>)
      else if dn_mode e = 0 \<and> (ucast (dn_size e) :: u32) = 0 \<and> (ucast (dn_mtime e) :: u32) = 0 then None
      else Some \<lparr>fs_mode = dn_mode e, fs_size = ucast (ucast (dn_size e) :: u32),
             fs_mtime = uint (ucast (dn_mtime e) :: u32)\<rparr>)"

lemma pstat_encode:
  assumes "length id_bytes = 4"
  shows "pstat ev v2 (id_bytes @ (if v2 then stat_fields e else stat_fields_v1 e) @ rest) =
    (Inr (stat_view v2 e), rest)"
proof (cases v2)
  case True
  have "length (stat_fields e) = kStatV2BodySize" by (simp add: stat_fields_def kStatV2BodySize_def)
  moreover have "stat_value True (stat_fields e) = stat_view True e"
    by (simp add: stat_value_def stat_view_def stat_fields_def sync_layout)
  ultimately show ?thesis using True assms by (simp add: pstat_def bind_pread_append seq_simps)
next
  case False
  have "length (stat_fields_v1 e) = kStatV1BodySize" by (simp add: stat_fields_v1_def kStatV1BodySize_def)
  moreover have "stat_value False (stat_fields_v1 e) = stat_view False e"
    by (simp add: stat_value_def stat_view_def stat_fields_v1_def sync_layout)
  ultimately show ?thesis using False assms by (simp add: pstat_def bind_pread_append seq_simps)
qed

section \<open>Listing and metadata over a byte channel\<close>

definition path_request :: "u32 \<Rightarrow> string \<Rightarrow> byte list" where
  "path_request i path = write_u32_le i @ write_u32_le (of_nat (length path)) @ bytes_of_string path"

definition quit_request :: "byte list" where
  "quit_request = write_u32_le kQuit @ replicate 4 0"

lemma length_requests [simp]:
  "length (path_request i path) = 8 + length path" "length quit_request = 8"
  by (simp_all add: path_request_def quit_request_def)

lemma bind_io_assoc: "bind_io (bind_io m f) g S = bind_io m (\<lambda>a. bind_io (f a) g) S"
  by (auto simp: bind_io_def split: option.splits prod.splits sum.splits)

lemma stat_body_eq:
  "stat_body T v2 path =
     bind_io (lift_io (stream_write T (path_request (if v2 then kStatV2 else kStatV1) path)))
       (\<lambda>_. bind_io (bind_io (stream_read T 4)
             (\<lambda>_. bind_io (stream_read T (if v2 then kStatV2BodySize else kStatV1BodySize))
               (\<lambda>body. ok_io (stat_value v2 body))))
         (\<lambda>res. bind_io (lift_io (stream_write T quit_request)) (\<lambda>_. ok_io res)))"
  by (cases v2)
    (auto simp: fun_eq_iff stat_body_def write_path_request_def write_quit_def path_request_def quit_request_def
      bind_io_assoc bind_io_def ok_io_def stat_value_def
      split: option.splits prod.splits sum.splits)

text \<open>
  A request, a reader for the reply, and \<open>QUIT\<close>: the shape of \<open>LIST\<close> and \<open>STAT\<close>.
\<close>

definition exchange ::
  "'t Transport_ops \<Rightarrow> byte list \<Rightarrow> ('t streaming, 'a) io \<Rightarrow> ('t streaming, 'a) io" where
  "exchange T request reply =
     bind_io (lift_io (stream_write T request))
       (\<lambda>_. bind_io reply (\<lambda>res. bind_io (lift_io (stream_write T quit_request)) (\<lambda>_. ok_io res)))"

lemma list_body_eq:
  "list_body T v2 path = exchange T (path_request (if v2 then kListV2 else kListV1) path) (list_from T v2 [])"
  by (simp add: list_body_def exchange_def write_path_request_def write_quit_def path_request_def
      quit_request_def)

context byte_channel
begin

lemma dialogue_then_write:
  assumes "dialogue good pending sent base tail S0 S d ev q" "length x \<le> unat (max_data (snd S0))"
  obtains S' where "lift_io (stream_write T x) S = Some (Inr (), S')"
    "dialogue good pending sent base tail S0 S' d ev (q @ [wrte_frame (fst S0) x])"
proof -
  from dialogue_write [OF assms] obtain S' where "stream_write T x S = (Inr (), S')"
    "dialogue good pending sent base tail S0 S' d ev (q @ [wrte_frame (fst S0) x])"
    by blast
  then show thesis by (intro that [of S']) (simp_all add: seq_simps)
qed

lemma exchange_spec:
  assumes "dialogue good pending sent base tail S0 S d ev q" "length request \<le> unat (max_data (snd S0))"
    and "8 \<le> unat (max_data (snd S0))"
    and "\<And>q. meets good pending sent base tail S0 ev q reply p d" "tail = [] \<or> isr (fst (p d))"
  shows "\<exists>S'. exchange T request reply S = Some (fst (p d), S')
    \<and> (isr (fst (p d)) \<longrightarrow> dialogue good pending sent base tail S0 S' (snd (p d)) ev
         (q @ [wrte_frame (fst S0) request, wrte_frame (fst S0) quit_request]))"
proof -
  obtain S1 where 1: "lift_io (stream_write T request) S = Some (Inr (), S1)"
    "dialogue good pending sent base tail S0 S1 d ev (q @ [wrte_frame (fst S0) request])"
    using dialogue_then_write [OF assms(1,2)] by metis
  from assms(4) [unfolded meets_def, rule_format, OF 1(2) assms(5)] obtain S2 where
    2: "reply S1 = Some (fst (p d), S2)"
      "isr (fst (p d)) \<Longrightarrow>
        dialogue good pending sent base tail S0 S2 (snd (p d)) ev (q @ [wrte_frame (fst S0) request])"
    by blast
  show ?thesis
  proof (cases "fst (p d)")
    case (Inl e)
    with 1(1) 2(1) show ?thesis by (simp add: exchange_def bind_io_def ok_io_def)
  next
    case (Inr a)
    obtain S3 where "lift_io (stream_write T quit_request) S2 = Some (Inr (), S3)"
      "dialogue good pending sent base tail S0 S3 (snd (p d)) ev
         ((q @ [wrte_frame (fst S0) request]) @ [wrte_frame (fst S0) quit_request])"
      using dialogue_then_write [OF 2(2), of quit_request] assms(3) Inr by auto
    with 1(1) 2(1) Inr show ?thesis by (simp add: exchange_def bind_io_def ok_io_def)
  qed
qed

lemma exchange_service:
  fixes c :: "'t Connection"
  assumes "spoken good pending sent base (fs @ tail) c q" "Suc (length svc) < 2 ^ 31"
    and "open_reply (next_local_id c) fs = (Inr rid, gs)" "unaddressed (next_local_id c + 1) tail fs"
    and "length request \<le> unat (max_data c)" "8 \<le> unat (max_data c)"
    and meets: "\<And>S0 q d. meets good pending sent base tail S0 (stream_end (next_local_id c) gs) q reply p d"
  defines "st \<equiv> opened svc (next_local_id c) rid" and "d \<equiv> stream_data (next_local_id c) gs"
  assumes tail: "tail = [] \<or> isr (fst (p d))"
  shows "\<exists>c'. with_stream T svc (exchange T request reply) c = Some (fst (p d), c')
    \<and> (isr (fst (p d)) \<longrightarrow> (\<exists>s. c' = next_connection c s) \<and> spoken good pending sent base tail c'
         (q @ [open_request_frame c svc, wrte_frame st request, wrte_frame st quit_request, clse_frame st]))"
proof (cases "isr (fst (p d))")
  case False
  have "\<exists>c'. with_stream T svc (exchange T request reply) c = Some (fst (p d), c')"
    unfolding d_def
  proof (rule with_stream_returns [OF assms(1-4)], goal_cases)
    case (1 s)
    from exchange_spec [OF 1 _ _ meets, of request] assms(5,6) tail show ?case by (auto simp: d_def)
  qed
  with False show ?thesis by simp
next
  case True
  let ?S = "\<lambda>s. (st, next_connection c s)" and ?q = "q @ [open_request_frame c svc]"
  have "\<exists>S. exchange T request reply (?S s) = Some (fst (p d), S) \<and> same_link (?S s) S
      \<and> spoken good pending sent base tail (snd S) (?q @ [wrte_frame st request, wrte_frame st quit_request])
      \<and> stream_closed (fst S) = False"
    if "dialogue good pending sent base tail (?S s) (?S s) d (stream_end (next_local_id c) gs) ?q" for s
    using exchange_spec [OF that _ _ meets, of request] assms(5,6) True dialogue_spoken by fastforce
  from with_stream_spec [OF assms(1-4), of "exchange T request reply", OF this [unfolded st_def d_def]]
  show ?thesis by (auto simp: st_def d_def)
qed

lemma meets_stat:
  "meets good pending sent base tail S0 ev q
     (bind_io (stream_read T 4)
        (\<lambda>_. bind_io (stream_read T (if v2 then kStatV2BodySize else kStatV1BodySize))
          (\<lambda>body. ok_io (stat_value v2 body)))) (pstat ev v2) d"
  unfolding pstat_def by (intro meets_intros)

end

text \<open>The frames of a request on a sync stream: OPEN, the request, QUIT and CLSE.\<close>

definition sync_frames :: "'t Connection \<Rightarrow> u32 \<Rightarrow> byte list \<Rightarrow> Frame list" where
  "sync_frames c rid request =
     (let st = opened ''sync:'' (next_local_id c) rid in
      [open_frame (next_local_id c) (if delayed_ack c then kInitialDelayedAckBytes else 0) ''sync:'',
       wrte_frame st request, wrte_frame st quit_request, clse_frame st])"

context byte_channel
begin

lemma sync_list_spec:
  fixes c :: "'t Connection"
  assumes "spoken good pending sent base (fs @ tail) c q" "open_reply (next_local_id c) fs = (Inr rid, gs)"
    and "unaddressed (next_local_id c + 1) tail fs"
    and "8 + length path \<le> unat (max_data c)" "length path \<le> kMaxPathLength"
  defines "v2 \<equiv> ''ls_v2'' \<in> set (features c)"
    and "r \<equiv> fst (plist (stream_end (next_local_id c) gs) (''ls_v2'' \<in> set (features c)) []
                (stream_data (next_local_id c) gs))"
  assumes tail: "tail = [] \<or> isr r"
  shows "\<exists>c'. sync_list T path c = Some (r, c') \<and> (isr r \<longrightarrow> (\<exists>s. c' = next_connection c s) \<and> spoken good pending sent base tail c'
      (q @ sync_frames c rid (path_request (if v2 then kListV2 else kListV1) path)))"
proof -
  have "length (path_request (if v2 then kListV2 else kListV1) path) \<le> unat (max_data c)"
    "8 \<le> unat (max_data c)" "Suc (length ''sync:'') < 2 ^ 31"
    using assms(4) by simp_all
  from exchange_service [OF assms(1) this(3) assms(2,3) this(1,2) meets_list [of base _ _ _ _ v2 "[]"]] show ?thesis
    using assms(5) tail
    by (simp add: sync_list_def list_body_eq supports_feature_def v2_def r_def sync_frames_def Let_def)
qed

lemma sync_stat_spec:
  fixes c :: "'t Connection"
  assumes "spoken good pending sent base (fs @ tail) c q" "open_reply (next_local_id c) fs = (Inr rid, gs)"
    and "unaddressed (next_local_id c + 1) tail fs"
    and "8 + length path \<le> unat (max_data c)" "length path \<le> kMaxPathLength"
  defines "v2 \<equiv> ''stat_v2'' \<in> set (features c)"
    and "r \<equiv> fst (pstat (stream_end (next_local_id c) gs) (''stat_v2'' \<in> set (features c))
                (stream_data (next_local_id c) gs))"
  assumes tail: "tail = [] \<or> isr r"
  shows "\<exists>c'. sync_stat T path c = Some (r, c') \<and> (isr r \<longrightarrow> (\<exists>s. c' = next_connection c s) \<and> spoken good pending sent base tail c'
      (q @ sync_frames c rid (path_request (if v2 then kStatV2 else kStatV1) path)))"
proof -
  have "length (path_request (if v2 then kStatV2 else kStatV1) path) \<le> unat (max_data c)"
    "8 \<le> unat (max_data c)" "Suc (length ''sync:'') < 2 ^ 31"
    using assms(4) by simp_all
  from exchange_service [OF assms(1) this(3) assms(2,3) this(1,2) meets_stat [of base _ _ _ _ v2]] show ?thesis
    using assms(5) tail
    by (simp add: sync_stat_def stat_body_eq exchange_def [symmetric] supports_feature_def v2_def r_def
        sync_frames_def Let_def)
qed

end

section \<open>Properties of listing and metadata\<close>

text \<open>
  Listing a directory over any byte channel follows the device's reply: for every sequence of bytes
  the device may send, the call returns, and it returns what the listing format makes of those bytes:
  the entries, the device's reason for a FAIL, or the error of a malformed or truncated reply. A path
  over the limit is refused before anything is sent.
\<close>

theorem list_follows_reply:
  fixes c :: "'t Connection"
  assumes "byte_channel T good pending sent" "conn_stage good pending sent base c fs []"
    and "open_reply (next_local_id c) fs = (Inr rid, gs)" "8 + length path \<le> unat (max_data c)"
  shows "if kMaxPathLength < length path then sync_list T path c = Some (Inl path_limit, c)
    else \<exists>c'. sync_list T path c =
      Some (fst (plist (stream_end (next_local_id c) gs) (''ls_v2'' \<in> set (features c)) []
                   (stream_data (next_local_id c) gs)), c')"
  using byte_channel.sync_list_spec [OF assms(1) spoken_start_Nil [OF assms(2)] assms(3) unaddressed_Nil(2) assms(4)]
  by (auto simp: sync_list_def seq_simps)

text \<open>Concrete replies for the witnesses: a listing with one entry, cut in the middle of it.\<close>

definition sample_dent :: Dent where
  "sample_dent = \<lparr>dn_error = 0, dn_dev = 1, dn_ino = 2, dn_mode = 0x81A4, dn_nlink = 1, dn_uid = 0, dn_gid = 0,
     dn_size = 5, dn_atime = 0, dn_mtime = 7, dn_ctime = 0, dn_name = ''a.txt''\<rparr>"

lemma sample_dent_sel [simp]:
  "dn_error sample_dent = 0" "dn_mode sample_dent = 0x81A4" "dn_size sample_dent = 5"
  "dn_mtime sample_dent = 7" "dn_name sample_dent = ''a.txt''"
  by (simp_all add: sample_dent_def)

definition reply_frames :: "byte list \<Rightarrow> Frame list" where
  "reply_frames bs = [device_frame kOkay 2 [], device_frame kWrte 2 (take 7 bs), device_frame kWrte 2 (drop 7 bs)]"

lemma reply_frames_valid [simp]: "length bs \<le> 1000 \<Longrightarrow> list_all valid_frame (reply_frames bs)"
  by (simp add: reply_frames_def)

lemma reply_frames_open [simp]:
  "open_reply 2 (reply_frames bs) = (Inr 9, tl (reply_frames bs))"
  "stream_data 2 (tl (reply_frames bs)) = bs" "stream_end 2 (tl (reply_frames bs)) = End"
  by (simp_all add: reply_frames_def open_reply_def)

lemma length_sample_listing [simp]: "length (encode_listing False [sample_dent]) = 45"
  by (simp add: encode_listing_def encode_dent_def kDentV1BodySize_def)

theorem list_follows_reply_witness:
  "\<exists>c'. sync_list mock_ops ''/d'' (mock_connection (reply_frames (encode_listing False [sample_dent]))) =
     Some (Inr (listed False [sample_dent]), c')"
proof -
  let ?fs = "reply_frames (encode_listing False [sample_dent])"
  have "plist End False [] (encode_listing False [sample_dent] @ []) = (Inr ([] @ listed False [sample_dent]), [])"
    by (rule plist_encode) (simp add: kMaxNameLength_def)
  with list_follows_reply [OF mock.byte_channel_axioms, of "[]" "mock_connection ?fs" ?fs 9 "tl ?fs" "''/d''"]
  show ?thesis by (simp add: kMaxPathLength_def)
qed

text \<open>
  C30. A listing round trip: whatever entries the device lists, in the v2 form when it has \<open>ls_v2\<close> and in
  the v1 form otherwise, the caller gets exactly those entries, in order and with their name, mode,
  size and time, less those whose own \<open>lstat\<close> failed. The host sends one LIST, then QUIT, then closes
  the stream.
\<close>

theorem list_round_trip:
  fixes c :: "'t Connection"
  assumes "byte_channel T good pending sent" "conn_stage good pending sent base c fs []"
    and "open_reply (next_local_id c) fs = (Inr rid, gs)" "8 + length path \<le> unat (max_data c)"
    and "length path \<le> kMaxPathLength" "\<forall>e \<in> set es. length (dn_name e) \<le> kMaxNameLength"
    and "stream_data (next_local_id c) gs = encode_listing (''ls_v2'' \<in> set (features c)) es @ rest"
  shows "\<exists>c'. sync_list T path c = Some (Inr (listed (''ls_v2'' \<in> set (features c)) es), c')
    \<and> spoken good pending sent base [] c'
        (sync_frames c rid (path_request (if ''ls_v2'' \<in> set (features c) then kListV2 else kListV1) path))"
  using byte_channel.sync_list_spec [OF assms(1) spoken_start_Nil [OF assms(2)] assms(3) unaddressed_Nil(2) assms(4,5)]
    assms(6,7)
  by (auto simp: plist_encode)

theorem list_round_trip_witness:
  "\<exists>c'. sync_list mock_ops ''/d'' (mock_connection (reply_frames (encode_listing False [sample_dent]))) =
      Some (Inr [\<lparr>de_name = ''a.txt'', de_mode = 0x81A4, de_size = 5, de_mtime = 7\<rparr>], c')
    \<and> spoken mock_good mock_pending mock_written [] [] c'
        (sync_frames (mock_connection []) 9 (path_request kListV1 ''/d''))"
  using list_round_trip [OF mock.byte_channel_axioms, of "[]"
      "mock_connection (reply_frames (encode_listing False [sample_dent]))"
      "reply_frames (encode_listing False [sample_dent])" 9
      "tl (reply_frames (encode_listing False [sample_dent]))" "''/d''" "[sample_dent]" "[]"]
  by (simp add: kMaxPathLength_def kMaxNameLength_def listed_def dent_view_def sync_frames_def)

text \<open>
  A metadata round trip: for a path the device has, the caller gets its mode, size and time; a
  missing path, which v2 reports by an error and v1 by zeros, is no value rather than an error. The
  host sends one STAT, then QUIT, then closes the stream. The four bytes of the reply's id are not
  looked at: any id gives the same result.
\<close>

theorem stat_round_trip:
  fixes c :: "'t Connection"
  assumes "byte_channel T good pending sent" "conn_stage good pending sent base c fs []"
    and "open_reply (next_local_id c) fs = (Inr rid, gs)" "8 + length path \<le> unat (max_data c)"
    and "length path \<le> kMaxPathLength" "length id_bytes = 4"
    and "stream_data (next_local_id c) gs =
      id_bytes @ (if ''stat_v2'' \<in> set (features c) then stat_fields e else stat_fields_v1 e) @ rest"
  shows "\<exists>c'. sync_stat T path c = Some (Inr (stat_view (''stat_v2'' \<in> set (features c)) e), c')
    \<and> spoken good pending sent base [] c'
        (sync_frames c rid (path_request (if ''stat_v2'' \<in> set (features c) then kStatV2 else kStatV1) path))"
  using byte_channel.sync_stat_spec [OF assms(1) spoken_start_Nil [OF assms(2)] assms(3) unaddressed_Nil(2) assms(4,5)]
    assms(6)
  by (simp only: assms(7) pstat_encode fst_conv) auto

theorem stat_round_trip_witness:
  "\<exists>c'. sync_stat mock_ops ''/d'' (mock_connection (reply_frames (write_u32_le kFail @ stat_fields_v1 sample_dent))) =
      Some (Inr (Some \<lparr>fs_mode = 0x81A4, fs_size = 5, fs_mtime = 7\<rparr>), c')
    \<and> spoken mock_good mock_pending mock_written [] [] c'
        (sync_frames (mock_connection []) 9 (path_request kStatV1 ''/d''))"
  using stat_round_trip [OF mock.byte_channel_axioms, of "[]"
      "mock_connection (reply_frames (write_u32_le kFail @ stat_fields_v1 sample_dent))"
      "reply_frames (write_u32_le kFail @ stat_fields_v1 sample_dent)" 9
      "tl (reply_frames (write_u32_le kFail @ stat_fields_v1 sample_dent))" "''/d''" "write_u32_le kFail"
      sample_dent "[]"]
  by (simp add: kMaxPathLength_def stat_view_def sync_frames_def stat_fields_v1_def)

end
