(* ===== verification/Adb_Pull_Spec.thy ===== *)
theory Adb_Pull_Spec
  imports Adb_Sync_Spec
begin

text \<open>
  Pulling a file over a byte channel. The readers of \<open>Adb_Sync_Spec\<close> are extended with the host's
  files: \<open>meets_on\<close> relates an operation on a stream and the host to an operation on the device's bytes
  and the host. From it follow what a pull makes of any reply, and the round trip of a file in the
  plain and in the compressed form.
\<close>

section \<open>Readers beside local files\<close>

definition on_data :: "'a reader \<Rightarrow> (byte list \<times> Host, 'a) io" where
  "on_data p X = (case X of (d, h) \<Rightarrow> Some (case p d of (r, d') \<Rightarrow> (r, (d', h))))"

definition succeeds :: "('a Result \<times> 's) option \<Rightarrow> bool" where
  "succeeds x \<longleftrightarrow> (\<exists>a s. x = Some (Inr a, s))"

lemma succeeds_simps [simp]: "succeeds (Some (Inr a, s))" "\<not> succeeds (Some (Inl e, s))" "\<not> succeeds None"
  by (simp_all add: succeeds_def)

definition meets_on ::
  "('t \<Rightarrow> bool) \<Rightarrow> ('t \<Rightarrow> byte list) \<Rightarrow> ('t \<Rightarrow> byte list) \<Rightarrow> byte list \<Rightarrow> Frame list \<Rightarrow> 't streaming
     \<Rightarrow> stream_event \<Rightarrow> Frame list \<Rightarrow> ('t streaming \<times> Host, 'a) io \<Rightarrow> (byte list \<times> Host, 'a) io \<Rightarrow> byte list \<times> Host \<Rightarrow> bool" where
  "meets_on good pending sent base tail S0 ev q m p X \<longleftrightarrow>
     (\<forall>S. dialogue good pending sent base tail S0 S (fst X) ev q \<longrightarrow> tail = [] \<or> succeeds (p X) \<longrightarrow>
        (case p X of
           None \<Rightarrow> m (S, snd X) = None
         | Some (r, X') \<Rightarrow>
             \<exists>S'. m (S, snd X) = Some (r, (S', snd X')) \<and> same_link S0 S'
               \<and> spoken good pending sent base tail (snd S') q
               \<and> (\<forall>a. r = Inr a \<longrightarrow> dialogue good pending sent base tail S0 S' (fst X') ev q)))"

text \<open>The reader of a v1 and of a v2 transfer.\<close>

partial_function (option) ppull ::
  "stream_event \<Rightarrow> string \<Rightarrow> byte list \<times> Host \<Rightarrow> (unit Result \<times> (byte list \<times> Host)) option" where
  "ppull ev path X =
     bind_io (on_data (pread ev 4))
       (\<lambda>id_bytes. let i = read_u32_le id_bytes in
          if i = kFail then on_data (pfail ev)
          else bind_io (on_data (pread ev 4))
            (\<lambda>size_bytes. let size = read_u32_le size_bytes in
              if i = kDone then ok_io ()
              else if i \<noteq> kData then fail_io (mk_error Protocol ''unexpected sync response'')
              else if kMaxChunkSize < unat size then
                fail_io (mk_error Protocol ''the sync chunk is larger than 64 KiB'')
              else bind_io (on_data (pread ev (unat size)))
                (\<lambda>chunk. bind_io (write_output path chunk) (\<lambda>_ X1. ppull ev path X1)))) X"

partial_function (option) ppull_v2 ::
  "Build \<Rightarrow> 'd Codecs \<Rightarrow> stream_event \<Rightarrow> string \<Rightarrow> 'd ChunkDecoder \<Rightarrow> byte list \<times> Host
     \<Rightarrow> (unit Result \<times> (byte list \<times> Host)) option" where
  "ppull_v2 b L ev path cd X =
     bind_io (on_data (pread ev 4))
       (\<lambda>id_bytes. let i = read_u32_le id_bytes in
          if i = kFail then on_data (pfail ev)
          else bind_io (on_data (pread ev 4))
            (\<lambda>size_bytes. let size = read_u32_le size_bytes in
              if i = kDone then ok_io ()
              else if i \<noteq> kData then fail_io (mk_error Protocol ''unexpected sync response'')
              else if max_compressed_chunk_size b L < unat size then
                fail_io (mk_error Protocol ''the sync chunk is larger than the compression bound'')
              else bind_io (on_data (pread ev (unat size)))
                (\<lambda>chunk. bind_io (decode_output b L path chunk cd) (\<lambda>cd' X1. ppull_v2 b L ev path cd' X1)))) X"

lemma on_data_Inr:
  "on_data p X = Some (Inr a, X') \<longleftrightarrow> p (fst X) = (Inr a, fst X') \<and> snd X' = snd X"
  by (cases X; cases X') (auto simp: on_data_def split: prod.splits)

lemma write_output_fst: "write_output path bs X = Some (r, X') \<Longrightarrow> fst X' = fst X"
  by (auto simp: write_output_def split: prod.splits)

lemma decode_output_fst: "decode_output b L path bs cd X = Some (r, X') \<Longrightarrow> fst X' = fst X"
  by (auto simp: decode_output_def bind_io_def ok_io_def split: option.splits prod.splits sum.splits
      dest: write_output_fst)

context byte_channel
begin

lemma meets_on_data:
  assumes "meets good pending sent base tail S0 ev q m p (fst X)"
  shows "meets_on good pending sent base tail S0 ev q (on_stream m) (on_data p) X"
  unfolding meets_on_def
proof (intro allI impI)
  obtain d h where X: "X = (d, h)" by (cases X)
  obtain r d' where p: "p d = (r, d')" by fastforce
  have data: "on_data p X = Some (r, (d', h))" by (simp add: on_data_def X p)
  fix S
  assume *: "dialogue good pending sent base tail S0 S (fst X) ev q" and tail: "tail = [] \<or> succeeds (on_data p X)"
  have "tail = [] \<or> isr (fst (p (fst X)))" using tail by (cases r) (simp_all add: data, simp_all add: X p)
  from assms [unfolded meets_def, rule_format, OF * this] obtain S' where "m S = Some (r, S')" "same_link S0 S'"
    "spoken good pending sent base tail (snd S') q" "isr r \<longrightarrow> dialogue good pending sent base tail S0 S' d' ev q"
    by (auto simp: X p)
  then show "case on_data p X of None \<Rightarrow> on_stream m (S, snd X) = None
      | Some (r, X') \<Rightarrow> \<exists>S'. on_stream m (S, snd X) = Some (r, (S', snd X')) \<and> same_link S0 S'
          \<and> spoken good pending sent base tail (snd S') q
          \<and> (\<forall>a. r = Inr a \<longrightarrow> dialogue good pending sent base tail S0 S' (fst X') ev q)"
    unfolding data by (cases r) (simp_all add: on_stream_def X)
qed

lemma meets_on_ok: "meets_on good pending sent base tail S0 ev q (ok_io a) (ok_io a) X"
  by (auto simp: meets_on_def seq_simps dest: dialogue_spoken)

lemma meets_on_fail: "meets_on good pending sent base tail S0 ev q (fail_io e) (fail_io e) X"
  by (auto simp: meets_on_def seq_simps dest: dialogue_spoken)

lemma meets_on_write: "meets_on good pending sent base tail S0 ev q (write_output path bs) (write_output path bs) X"
  by (auto simp: meets_on_def write_output_def split: prod.splits dest: dialogue_spoken)

lemma meets_on_create: "meets_on good pending sent base tail S0 ev q (create_output path) (create_output path) X"
  by (auto simp: meets_on_def create_output_def split: prod.splits dest: dialogue_spoken)

lemma meets_on_if:
  assumes "c \<Longrightarrow> meets_on good pending sent base tail S0 ev q m p X"
    and "\<not> c \<Longrightarrow> meets_on good pending sent base tail S0 ev q m' p' X"
  shows "meets_on good pending sent base tail S0 ev q (if c then m else m') (if c then p else p') X"
  using assms by (cases c) simp_all

lemma meets_on_bind:
  assumes "meets_on good pending sent base tail S0 ev q m p X"
    and "\<And>a X'. p X = Some (Inr a, X') \<Longrightarrow> meets_on good pending sent base tail S0 ev q (f a) (g a) X'"
  shows "meets_on good pending sent base tail S0 ev q (bind_io m f) (bind_io p g) X"
  unfolding meets_on_def
proof (intro allI impI)
  fix S
  assume *: "dialogue good pending sent base tail S0 S (fst X) ev q" and tail: "tail = [] \<or> succeeds (bind_io p g X)"
  have "tail = [] \<or> succeeds (p X)"
    using tail by (auto simp: succeeds_def elim!: bind_io_InrE)
  note m = assms(1) [unfolded meets_on_def, rule_format, OF * this]
  let ?P = "\<lambda>M P. case P of None \<Rightarrow> M = None | Some (r, X') \<Rightarrow> \<exists>S'. M = Some (r, (S', snd X'))
      \<and> same_link S0 S' \<and> spoken good pending sent base tail (snd S') q
      \<and> (\<forall>a. r = Inr a \<longrightarrow> dialogue good pending sent base tail S0 S' (fst X') ev q)"
  show "?P (bind_io m f (S, snd X)) (bind_io p g X)"
  proof (cases "p X")
    case None
    with m show ?thesis by (simp add: seq_simps)
  next
    case (Some y)
    obtain r X' where y: "y = (r, X')" by (cases y)
    with m Some obtain S' where S': "m (S, snd X) = Some (r, (S', snd X'))" "same_link S0 S'"
      "spoken good pending sent base tail (snd S') q"
      "\<And>a. r = Inr a \<Longrightarrow> dialogue good pending sent base tail S0 S' (fst X') ev q"
      by auto
    show ?thesis
    proof (cases r)
      case (Inl e)
      with S' Some y show ?thesis by (auto simp: seq_simps)
    next
      case (Inr a)
      then have "bind_io m f (S, snd X) = f a (S', snd X')" "bind_io p g X = g a X'"
        using S'(1) Some y by (simp_all add: bind_io_def)
      moreover have "meets_on good pending sent base tail S0 ev q (f a) (g a) X'"
        using assms(2) Some y Inr by simp
      ultimately show ?thesis
        using S'(4) [OF Inr] tail by (simp only: meets_on_def)
    qed
  qed
qed

lemma meets_on_unfold:
  assumes "\<And>Y. m Y = m' Y" "\<And>X. p X = p' X" "meets_on good pending sent base tail S0 ev q m' p' X"
  shows "meets_on good pending sent base tail S0 ev q m p X"
proof -
  have "m = m'" "p = p'" using assms(1,2) by auto
  with assms(3) show ?thesis by simp
qed

lemma meets_on_decode:
  "meets_on good pending sent base tail S0 ev q (decode_output b L path chunk cd) (decode_output b L path chunk cd) X"
proof (cases "\<exists>cd' decoded. chunk_decode b L chunk cd = Some (Inr decoded, cd')")
  case True
  then obtain cd' decoded where cd: "chunk_decode b L chunk cd = Some (Inr decoded, cd')" by blast
  show ?thesis
    by (rule meets_on_unfold [of _ "bind_io (write_output path decoded) (\<lambda>_. ok_io cd')" _
          "bind_io (write_output path decoded) (\<lambda>_. ok_io cd')"])
      (simp_all add: decode_output_def cd meets_on_bind meets_on_write meets_on_ok)
next
  case False
  then show ?thesis
    by (auto simp: meets_on_def decode_output_def split: option.splits prod.splits sum.splits
        dest: dialogue_spoken)
qed

lemmas meets_on_intros = meets_on_bind meets_on_data meets_on_ok meets_on_fail meets_on_if meets_on_write
  meets_on_create meets_on_decode meets_read meets_sync_fail

lemma meets_pull: "meets_on good pending sent base tail S0 ev q (pull_from T path) (ppull ev path) X"
proof (induction "length (fst X)" arbitrary: X rule: less_induct)
  case less
  show ?case
    by (rule meets_on_unfold [OF pull_from.simps ppull.simps], unfold Let_def,
        intro meets_on_intros less)
      (auto simp: on_data_Inr dest!: pread_Inr write_output_fst)
qed

lemma meets_pull_v2:
  "meets_on good pending sent base tail S0 ev q (pull_v2_from b L T path cd) (ppull_v2 b L ev path cd) X"
proof (induction "length (fst X)" arbitrary: X cd rule: less_induct)
  case less
  show ?case
    by (rule meets_on_unfold [OF pull_v2_from.simps ppull_v2.simps], unfold Let_def,
        intro meets_on_intros less)
      (auto simp: on_data_Inr dest!: pread_Inr decode_output_fst)
qed

end

section \<open>What the readers compute\<close>

text \<open>A file as the device sends it: \<open>DATA\<close> chunks and a \<open>DONE\<close>.\<close>

definition encode_data :: "byte list \<Rightarrow> byte list" where
  "encode_data chunk = write_u32_le kData @ write_u32_le (of_nat (length chunk)) @ chunk"

definition encode_file :: "byte list list \<Rightarrow> byte list" where
  "encode_file chunks = concat (map encode_data chunks) @ write_u32_le kDone @ replicate 4 0"

lemma bind_on_data_append:
  "length xs = n \<Longrightarrow> bind_io (on_data (pread ev n)) f (xs @ ys, h) = f xs (ys, h)"
  by (simp add: bind_io_def on_data_def)

lemma ppull_chunk:
  assumes "length chunk \<le> kMaxChunkSize"
  shows "ppull ev path (encode_data chunk @ rest, h) =
    bind_io (write_output path chunk) (\<lambda>_. ppull ev path) (rest, h)"
proof -
  have "unat (of_nat (length chunk) :: u32) = length chunk"
    using assms by (simp add: unat_of_nat kMaxChunkSize_def)
  with assms show ?thesis
    by (subst ppull.simps) (simp add: encode_data_def bind_on_data_append Let_def)
qed

lemma ppull_done: "ppull ev path (write_u32_le kDone @ replicate 4 0 @ rest, h) = Some (Inr (), (rest, h))"
  by (subst ppull.simps) (simp add: bind_on_data_append Let_def seq_simps)

lemma write_output_fits:
  assumes "files h path \<noteq> None" "length bs \<le> disk_free h"
  obtains h' where "write_output path bs (x, h) = Some (Inr (), (x, h'))"
    "file_content h' path = file_content h path @ bs" "files h' path \<noteq> None"
    "disk_free h' = disk_free h - length bs" "\<And>p. p \<noteq> path \<Longrightarrow> files h' p = files h p"
  using out_write_fits [OF assms] that by (auto simp: write_output_def)

lemma ppull_file:
  assumes "\<forall>c \<in> set chunks. length c \<le> kMaxChunkSize" "files h path \<noteq> None"
    and "length (concat chunks) \<le> disk_free h"
  shows "\<exists>h'. ppull ev path (encode_file chunks @ rest, h) = Some (Inr (), (rest, h'))
    \<and> file_content h' path = file_content h path @ concat chunks \<and> (\<forall>p. p \<noteq> path \<longrightarrow> files h' p = files h p)"
  using assms
proof (induction chunks arbitrary: h)
  case Nil
  then show ?case using ppull_done [of ev path rest h] by (simp add: encode_file_def)
next
  case (Cons c cs)
  obtain h1 where 1: "write_output path c (encode_file cs @ rest, h) = Some (Inr (), (encode_file cs @ rest, h1))"
    "file_content h1 path = file_content h path @ c" "files h1 path \<noteq> None"
    "disk_free h1 = disk_free h - length c" "\<And>p. p \<noteq> path \<Longrightarrow> files h1 p = files h p"
    using write_output_fits [of h path c "encode_file cs @ rest"] Cons.prems(2,3) by auto
  have "encode_file (c # cs) @ rest = encode_data c @ encode_file cs @ rest"
    by (simp add: encode_file_def)
  then have "ppull ev path (encode_file (c # cs) @ rest, h) = ppull ev path (encode_file cs @ rest, h1)"
    using ppull_chunk [of c ev path "encode_file cs @ rest" h] Cons.prems(1) 1(1) by (simp add: bind_io_def)
  moreover have "\<exists>h'. ppull ev path (encode_file cs @ rest, h1) = Some (Inr (), (rest, h'))
      \<and> file_content h' path = file_content h1 path @ concat cs \<and> (\<forall>p. p \<noteq> path \<longrightarrow> files h' p = files h1 p)"
    using Cons.prems 1(3,4) by (intro Cons.IH) auto
  ultimately show ?case using 1(2,5) by auto
qed

text \<open>
  On any bytes at all: the reader returns, and nothing but the target changes.
\<close>

lemma write_output_other:
  "write_output path bs X = Some (r, X') \<Longrightarrow> p \<noteq> path \<Longrightarrow> files (snd X') p = files (snd X) p"
  by (auto simp: write_output_def out_write_def split: prod.splits option.splits)

lemma write_output_returns: "\<exists>r X'. write_output path bs X = Some (r, X')"
  by (auto simp: write_output_def split: prod.splits)

definition only_target :: "string \<Rightarrow> Host \<Rightarrow> ('a Result \<times> ('x \<times> Host)) option \<Rightarrow> bool" where
  "only_target path h res \<longleftrightarrow>
     (\<exists>r X'. res = Some (r, X') \<and> (\<forall>p. p \<noteq> path \<longrightarrow> files (snd X') p = files h p))"

lemma only_target_bind:
  assumes "only_target path h (m X)"
    and "\<And>a X'. m X = Some (Inr a, X') \<Longrightarrow> (\<And>p. p \<noteq> path \<Longrightarrow> files (snd X') p = files h p) \<Longrightarrow>
      only_target path h (f a X')"
  shows "only_target path h (bind_io m f X)"
  using assms unfolding only_target_def by (auto simp: bind_io_def split: option.splits sum.splits)

lemma only_target_data:
  "(\<And>p. p \<noteq> path \<Longrightarrow> files (snd X) p = files h p) \<Longrightarrow> only_target path h (on_data r X)"
  by (auto simp: only_target_def on_data_def split: prod.splits)

lemma only_target_simple:
  "(\<And>p. p \<noteq> path \<Longrightarrow> files (snd X) p = files h p) \<Longrightarrow> only_target path h (ok_io a X)"
  "(\<And>p. p \<noteq> path \<Longrightarrow> files (snd X) p = files h p) \<Longrightarrow> only_target path h (fail_io e X)"
  "(\<And>p. p \<noteq> path \<Longrightarrow> files (snd X) p = files h p) \<Longrightarrow> only_target path h (write_output path bs X)"
  using write_output_other [of path bs X] write_output_returns [of path bs X]
  by (auto simp: only_target_def seq_simps)

lemma only_target_if:
  "(c \<Longrightarrow> only_target path h (m X)) \<Longrightarrow> (\<not> c \<Longrightarrow> only_target path h (m' X)) \<Longrightarrow>
     only_target path h ((if c then m else m') X)"
  by (cases c) simp_all

lemma ppull_only_target:
  assumes "\<And>p. p \<noteq> path \<Longrightarrow> files (snd X) p = files h p"
  shows "only_target path h (ppull ev path X)"
  using assms
proof (induction "length (fst X)" arbitrary: X rule: less_induct)
  case less
  show ?case
    by (subst ppull.simps, unfold Let_def,
        intro only_target_bind only_target_data only_target_simple only_target_if less)
      (auto simp: on_data_Inr dest!: pread_Inr write_output_fst)
qed

text \<open>The compressed form: the file receives what the decoder makes of the chunks.\<close>

definition codec_lib :: "'d Codecs \<Rightarrow> CompressionCodec \<Rightarrow> 'd Codec_lib" where
  "codec_lib L codec = (case codec of Zstd \<Rightarrow> zstd_lib L | Lz4 \<Rightarrow> lz4_lib L | Brotli \<Rightarrow> brotli_lib L)"

definition built :: "Build \<Rightarrow> CompressionCodec \<Rightarrow> bool" where
  "built b codec = (case codec of Zstd \<Rightarrow> has_zstd b | Lz4 \<Rightarrow> has_lz4 b | Brotli \<Rightarrow> has_brotli b)"

definition cd_state :: "'d ChunkDecoder \<Rightarrow> 'd option" where
  "cd_state cd = (case cd_codec cd of Zstd \<Rightarrow> cd_zstd cd | Lz4 \<Rightarrow> cd_lz4 cd | Brotli \<Rightarrow> cd_brotli cd)"

lemma chunk_decode_correct:
  assumes "decodes (codec_lib L (cd_codec cd)) valid plain" "built b (cd_codec cd)" "cd_state cd = Some d"
    and "valid d (input @ ys)"
  shows "\<exists>out cd' d'. chunk_decode b L input cd = Some (Inr out, cd') \<and> cd_codec cd' = cd_codec cd
    \<and> cd_state cd' = Some d' \<and> valid d' ys \<and> plain d (input @ ys) = out @ plain d' ys"
proof (cases "cd_codec cd")
  case Zstd
  with assms zstd_decode_correct [of "zstd_lib L" valid plain d input ys] show ?thesis
    by (fastforce simp: chunk_decode_def codec_lib_def built_def cd_state_def)
next
  case Lz4
  with assms lz4_decode_correct [of "lz4_lib L" valid plain d input ys] show ?thesis
    by (fastforce simp: chunk_decode_def codec_lib_def built_def cd_state_def)
next
  case Brotli
  with assms brotli_decode_correct [of "brotli_lib L" valid plain d input ys] show ?thesis
    by (fastforce simp: chunk_decode_def codec_lib_def built_def cd_state_def)
qed

lemma ppull_v2_chunk:
  assumes "length chunk \<le> max_compressed_chunk_size b L" "length chunk < 2 ^ 32"
  shows "ppull_v2 b L ev path cd (encode_data chunk @ rest, h) =
    bind_io (decode_output b L path chunk cd) (\<lambda>cd'. ppull_v2 b L ev path cd') (rest, h)"
proof -
  have "unat (of_nat (length chunk) :: u32) = length chunk"
    using assms(2) by (simp add: unat_of_nat)
  with assms(1) show ?thesis
    by (subst ppull_v2.simps) (simp add: encode_data_def bind_on_data_append Let_def)
qed

lemma ppull_v2_file:
  assumes "\<forall>c \<in> set chunks. length c \<le> max_compressed_chunk_size b L \<and> length c < 2 ^ 32"
    and "decodes (codec_lib L codec) valid plain" "built b codec"
    and "cd_codec cd = codec" "cd_state cd = Some d" "valid d (concat chunks)"
    and "files h path \<noteq> None" "length (plain d (concat chunks)) \<le> disk_free h"
  shows "\<exists>h'. ppull_v2 b L ev path cd (encode_file chunks @ rest, h) = Some (Inr (), (rest, h'))
    \<and> file_content h' path = file_content h path @ plain d (concat chunks)
    \<and> (\<forall>p. p \<noteq> path \<longrightarrow> files h' p = files h p)"
  using assms(1,4-)
proof (induction chunks arbitrary: h cd d)
  case Nil
  have "plain d [] = []" using assms(2) Nil.prems(4) by (simp add: decodes_def)
  moreover have "ppull_v2 b L ev path cd (encode_file [] @ rest, h) = Some (Inr (), (rest, h))"
    by (subst ppull_v2.simps) (simp add: encode_file_def bind_on_data_append Let_def seq_simps)
  ultimately show ?case by simp
next
  case (Cons c cs)
  obtain out cd' d' where 1: "chunk_decode b L c cd = Some (Inr out, cd')" "cd_codec cd' = codec"
    "cd_state cd' = Some d'" "valid d' (concat cs)" "plain d (c @ concat cs) = out @ plain d' (concat cs)"
    using chunk_decode_correct [of L cd valid plain b d c "concat cs"] assms(2,3) Cons.prems(2-4) by auto
  have fits: "length out \<le> disk_free h" using 1(5) Cons.prems(6) by simp
  obtain h1 where 2: "write_output path out (encode_file cs @ rest, h) = Some (Inr (), (encode_file cs @ rest, h1))"
    "file_content h1 path = file_content h path @ out" "files h1 path \<noteq> None"
    "disk_free h1 = disk_free h - length out" "\<And>p. p \<noteq> path \<Longrightarrow> files h1 p = files h p"
    using write_output_fits [OF Cons.prems(5) fits, of "encode_file cs @ rest"] by auto
  have dec: "decode_output b L path c cd (encode_file cs @ rest, h) = Some (Inr cd', (encode_file cs @ rest, h1))"
    using 1(1) 2(1) by (simp add: decode_output_def bind_io_def ok_io_def)
  have "encode_file (c # cs) @ rest = encode_data c @ encode_file cs @ rest"
    by (simp add: encode_file_def)
  then have "ppull_v2 b L ev path cd (encode_file (c # cs) @ rest, h) =
      ppull_v2 b L ev path cd' (encode_file cs @ rest, h1)"
    using ppull_v2_chunk [of c b L ev path cd "encode_file cs @ rest" h] Cons.prems(1) dec
    by (simp add: bind_io_def)
  moreover have "\<exists>h'. ppull_v2 b L ev path cd' (encode_file cs @ rest, h1) = Some (Inr (), (rest, h'))
      \<and> file_content h' path = file_content h1 path @ plain d' (concat cs)
      \<and> (\<forall>p. p \<noteq> path \<longrightarrow> files h' p = files h1 p)"
    using Cons.prems(1,6) 1 2(3,4) by (intro Cons.IH) auto
  ultimately show ?case using 1(5) 2(2,5) by auto
qed

section \<open>Transfers over a byte channel\<close>

text \<open>A request, an operation that reads the reply beside the local files, and \<open>QUIT\<close>.\<close>

definition transfer ::
  "'t Transport_ops \<Rightarrow> byte list \<Rightarrow> ('t streaming \<times> Host, unit) io \<Rightarrow> ('t streaming \<times> Host, unit) io" where
  "transfer T request inner =
     bind_io (on_stream (lift_io (stream_write T request)))
       (\<lambda>_. bind_io inner (\<lambda>_. on_stream (lift_io (stream_write T quit_request))))"

definition recv_v2_request :: "string \<Rightarrow> u32 \<Rightarrow> byte list" where
  "recv_v2_request path flags = path_request kRecvV2 path @ write_u32_le kRecvV2 @ write_u32_le flags"

lemma pull_body_eq:
  "pull_body T remote path =
     transfer T (path_request kRecvV1 remote) (bind_io (create_output path) (\<lambda>_. pull_from T path))"
  by (simp add: fun_eq_iff pull_body_def transfer_def write_path_request_def write_quit_def path_request_def
      quit_request_def bind_io_assoc bind_io_def split: option.splits prod.splits sum.splits)

lemma pull_v2_body_eq:
  "pull_v2_body b L T remote path codec =
     transfer T (recv_v2_request remote (sync_flag_of codec))
       (bind_io (create_output path) (\<lambda>_. pull_v2_from b L T path (chunk_decoder_new L codec)))"
  by (simp add: fun_eq_iff pull_v2_body_def transfer_def write_recv_v2_def write_quit_def recv_v2_request_def
      path_request_def quit_request_def bind_io_assoc bind_io_def split: option.splits prod.splits sum.splits)

lemma with_stream_on_returns:
  assumes "with_stream T svc (\<lambda>S. map_option (\<lambda>(r, (S', h')). (Inr (r, h'), S')) (body (S, h))) c = Some (Inr (r, h'), c')"
  shows "with_stream_on T svc body (c, h) = Some (r, (c', h'))"
  using assms by (simp add: with_stream_on_def)

context byte_channel
begin

lemma transfer_spec:
  assumes "dialogue good pending sent base tail S0 S d ev q" "length request \<le> unat (max_data (snd S0))"
    and "8 \<le> unat (max_data (snd S0))"
    and meets: "\<And>q. meets_on good pending sent base tail S0 ev q inner p (d, h)"
    and p: "p (d, h) = Some (r, (d', h'))" and tail: "tail = [] \<or> r = Inr ()"
  shows "\<exists>S'. transfer T request inner (S, h) = Some (r, (S', h'))
    \<and> (r = Inr () \<longrightarrow> dialogue good pending sent base tail S0 S' d' ev
         (q @ [wrte_frame (fst S0) request, wrte_frame (fst S0) quit_request]))"
proof -
  obtain S1 where 1: "lift_io (stream_write T request) S = Some (Inr (), S1)"
    "dialogue good pending sent base tail S0 S1 d ev (q @ [wrte_frame (fst S0) request])"
    using dialogue_then_write [OF assms(1,2)] by metis
  have "tail = [] \<or> succeeds (Some (r, (d', h')))" using tail by auto
  then obtain S2 where 2: "inner (S1, h) = Some (r, (S2, h'))"
      "r = Inr () \<Longrightarrow> dialogue good pending sent base tail S0 S2 d' ev (q @ [wrte_frame (fst S0) request])"
    using meets [unfolded meets_on_def fst_conv snd_conv p option.case prod.case, rule_format, OF 1(2)] by blast
  show ?thesis
  proof (cases r)
    case (Inl e)
    with 1(1) 2(1) show ?thesis by (simp add: transfer_def bind_io_def on_stream_def)
  next
    case (Inr a)
    then obtain S3 where "lift_io (stream_write T quit_request) S2 = Some (Inr (), S3)"
      "dialogue good pending sent base tail S0 S3 d' ev
         ((q @ [wrte_frame (fst S0) request]) @ [wrte_frame (fst S0) quit_request])"
      using dialogue_then_write [OF 2(2), of quit_request] assms(3) by auto
    with 1(1) 2(1) Inr show ?thesis by (simp add: transfer_def bind_io_def on_stream_def)
  qed
qed

lemma transfer_service:
  fixes c :: "'t Connection"
  assumes "spoken good pending sent base (fs @ tail) c q0" "open_reply (next_local_id c) fs = (Inr rid, gs)"
    and "unaddressed (next_local_id c + 1) tail fs"
    and "length request \<le> unat (max_data c)" "8 \<le> unat (max_data c)"
    and meets: "\<And>S0 q. meets_on good pending sent base tail S0 (stream_end (next_local_id c) gs) q inner p
        (stream_data (next_local_id c) gs, h)"
    and p: "p (stream_data (next_local_id c) gs, h) = Some (r, (d', h'))" and tail: "tail = [] \<or> r = Inr ()"
  shows "\<exists>c'. with_stream_on T ''sync:'' (transfer T request inner) (c, h) = Some (r, (c', h'))
    \<and> (r = Inr () \<longrightarrow> (\<exists>s. c' = next_connection c s) \<and> spoken good pending sent base tail c' (q0 @ sync_frames c rid request))"
proof -
  let ?st = "opened ''sync:'' (next_local_id c) rid"
  let ?S = "\<lambda>s. (?st, next_connection c s)"
  let ?q = "q0 @ [open_request_frame c ''sync:'']"
  let ?d = "stream_data (next_local_id c) gs" and ?ev = "stream_end (next_local_id c) gs"
  let ?body = "\<lambda>S. map_option (\<lambda>(r, (S', h')). (Inr (r, h'), S')) (transfer T request inner (S, h))"
  have fits: "Suc (length ''sync:'') < 2 ^ 31" by simp
  have run: "\<exists>S'. transfer T request inner (?S s, h) = Some (r, (S', h'))
      \<and> (r = Inr () \<longrightarrow> dialogue good pending sent base tail (?S s) S' d' ?ev
           (?q @ [wrte_frame ?st request, wrte_frame ?st quit_request]))"
    if "dialogue good pending sent base tail (?S s) (?S s) ?d ?ev ?q" for s
    using transfer_spec [OF that _ _ meets p tail, of request] assms(4,5) by simp
  show ?thesis
  proof (cases r)
    case (Inl e)
    have "\<exists>c'. with_stream T ''sync:'' ?body c = Some (Inr (r, h'), c')"
      by (rule with_stream_returns [OF assms(1) fits assms(2,3)], drule run) auto
    with Inl with_stream_on_returns show ?thesis by fastforce
  next
    case (Inr a)
    have "\<exists>S'. ?body (?S s) = Some (Inr (r, h'), S') \<and> same_link (?S s) S'
        \<and> spoken good pending sent base tail (snd S') (?q @ [wrte_frame ?st request, wrte_frame ?st quit_request])
        \<and> stream_closed (fst S') = False"
      if "dialogue good pending sent base tail (?S s) (?S s) ?d ?ev ?q" for s
      using run [OF that] Inr dialogue_spoken by fastforce
    from with_stream_spec [OF assms(1) fits assms(2,3), of ?body, OF this] Inr show ?thesis
      by (fastforce simp: sync_frames_def Let_def dest: with_stream_on_returns)
  qed
qed

end

definition writable :: "Host \<Rightarrow> string \<Rightarrow> bool" where
  "writable h path \<longleftrightarrow> \<not> denied h path \<and> (files h path = None \<or> is_regular_file h path)"

lemma create_output_writable:
  assumes "writable h path"
  obtains h1 where "create_output path (x, h) = Some (Inr (), (x, h1))" "file_content h1 path = []"
    "files h1 path \<noteq> None" "disk_free h1 = disk_free h + length (file_content h path)"
    "\<And>p. p \<noteq> path \<Longrightarrow> files h1 p = files h p"
  using assms
  by (auto simp: create_output_def out_open_def writable_def Let_def file_content_def split: option.splits)

lemma only_target_create: "only_target path h (create_output path (x, h))"
  using out_open_others [of path h] by (auto simp: only_target_def create_output_def split: prod.splits)

context byte_channel
begin

lemma pull_service:
  fixes c :: "'t Connection"
  assumes "spoken good pending sent base (fs @ tail) c q0" "open_reply (next_local_id c) fs = (Inr rid, gs)"
    and "unaddressed (next_local_id c + 1) tail fs"
    and "8 + length remote \<le> unat (max_data c)" "length remote \<le> kMaxPathLength"
    and "transfer_codec b c compression = Inr None"
    and p: "bind_io (create_output path) (\<lambda>_. ppull (stream_end (next_local_id c) gs) path)
          (stream_data (next_local_id c) gs, h) = Some (r, (d', h'))"
    and tail: "tail = [] \<or> r = Inr ()"
  shows "\<exists>c'. sync_pull b L T remote path compression (c, h) = Some (r, (c', h'))
    \<and> (r = Inr () \<longrightarrow> (\<exists>s. c' = next_connection c s)
         \<and> spoken good pending sent base tail c' (q0 @ sync_frames c rid (path_request kRecvV1 remote)))"
proof -
  let ?d = "stream_data (next_local_id c) gs" and ?ev = "stream_end (next_local_id c) gs"
  let ?p = "bind_io (create_output path) (\<lambda>_. ppull ?ev path)"
  let ?inner = "bind_io (create_output path) (\<lambda>_. pull_from T path)"
  have len: "length (path_request kRecvV1 remote) \<le> unat (max_data c)" and max: "8 \<le> unat (max_data c)"
    using assms(4) by simp_all
  have meets: "meets_on good pending sent base tail S0 ?ev q ?inner ?p (?d, h)" for S0 q
    by (intro meets_on_bind meets_on_create meets_pull)
  from transfer_service [OF assms(1-3) len max meets p tail] assms(5,6) show ?thesis
    by (simp add: sync_pull_def pull_body_eq)
qed

lemma pull_v2_service:
  fixes c :: "'t Connection"
  assumes "spoken good pending sent base (fs @ tail) c q0" "open_reply (next_local_id c) fs = (Inr rid, gs)"
    and "unaddressed (next_local_id c + 1) tail fs"
    and "16 + length remote \<le> unat (max_data c)" "length remote \<le> kMaxPathLength"
    and "transfer_codec b c compression = Inr (Some codec)"
    and p: "bind_io (create_output path)
          (\<lambda>_. ppull_v2 b L (stream_end (next_local_id c) gs) path (chunk_decoder_new L codec))
          (stream_data (next_local_id c) gs, h) = Some (r, (d', h'))"
    and tail: "tail = [] \<or> r = Inr ()"
  shows "\<exists>c'. sync_pull b L T remote path compression (c, h) = Some (r, (c', h'))
    \<and> (r = Inr () \<longrightarrow> (\<exists>s. c' = next_connection c s)
         \<and> spoken good pending sent base tail c' (q0 @ sync_frames c rid (recv_v2_request remote (sync_flag_of codec))))"
proof -
  let ?d = "stream_data (next_local_id c) gs" and ?ev = "stream_end (next_local_id c) gs"
  let ?cd = "chunk_decoder_new L codec" and ?req = "recv_v2_request remote (sync_flag_of codec)"
  let ?p = "bind_io (create_output path) (\<lambda>_. ppull_v2 b L ?ev path ?cd)"
  let ?inner = "bind_io (create_output path) (\<lambda>_. pull_v2_from b L T path ?cd)"
  have len: "length ?req \<le> unat (max_data c)" and max: "8 \<le> unat (max_data c)"
    using assms(4) by (simp_all add: recv_v2_request_def)
  have meets: "meets_on good pending sent base tail S0 ?ev q ?inner ?p (?d, h)" for S0 q
    by (intro meets_on_bind meets_on_create meets_pull_v2)
  from transfer_service [OF assms(1-3) len max meets p tail] assms(5,6) show ?thesis
    by (simp add: sync_pull_def pull_v2_def pull_v2_body_eq)
qed

text \<open>A file whose chunks the device sends ends up on the host's disk.\<close>

lemma pull_file:
  fixes c :: "'t Connection"
  assumes "spoken good pending sent base (fs @ tail) c q0"
    and "open_reply (next_local_id c) fs = (Inr rid, gs)" "unaddressed (next_local_id c + 1) tail fs"
    and "8 + length remote \<le> unat (max_data c)"
    and "transfer_codec b c compression = Inr None" "length remote \<le> kMaxPathLength"
    and "stream_data (next_local_id c) gs = encode_file chunks @ rest"
    and "\<forall>chunk \<in> set chunks. length chunk \<le> kMaxChunkSize"
    and "writable h path" "length (concat chunks) \<le> disk_free h"
  shows "\<exists>s h'. sync_pull b L T remote path compression (c, h) = Some (Inr (), (next_connection c s, h'))
    \<and> file_content h' path = concat chunks \<and> (\<forall>p. p \<noteq> path \<longrightarrow> files h' p = files h p)
    \<and> spoken good pending sent base tail (next_connection c s) (q0 @ sync_frames c rid (path_request kRecvV1 remote))"
proof -
  let ?d = "stream_data (next_local_id c) gs" and ?ev = "stream_end (next_local_id c) gs"
  let ?p = "bind_io (create_output path) (\<lambda>_. ppull ?ev path)"
  obtain h1 where 1: "create_output path (?d, h) = Some (Inr (), (?d, h1))" "file_content h1 path = []"
    "files h1 path \<noteq> None" "disk_free h1 = disk_free h + length (file_content h path)"
    "\<And>p. p \<noteq> path \<Longrightarrow> files h1 p = files h p"
    using create_output_writable [OF assms(9), where x = ?d] by blast
  obtain h' where 2: "ppull ?ev path (?d, h1) = Some (Inr (), (rest, h'))" "file_content h' path = concat chunks"
    "\<forall>p. p \<noteq> path \<longrightarrow> files h' p = files h1 p"
    using ppull_file [OF assms(8) 1(3), of ?ev rest] assms(7,10) 1(2,4) by auto
  have "?p (?d, h) = Some (Inr (), (rest, h'))" using 1(1) 2(1) by (simp add: bind_io_def)
  from pull_service [OF assms(1-4,6,5) this, of L] obtain s where
    "sync_pull b L T remote path compression (c, h) = Some (Inr (), (next_connection c s, h'))"
    "spoken good pending sent base tail (next_connection c s) (q0 @ sync_frames c rid (path_request kRecvV1 remote))"
    by auto
  with 1(5) 2(2,3) show ?thesis by auto
qed

end

text \<open>A host and a build for the witnesses.\<close>

definition sample_host :: Host where
  "sample_host = \<lparr>files = (\<lambda>p. if p = ''old'' then Some \<lparr>lf_content = [9], lf_mode = 0x81A4, lf_mtime = 0,
     lf_regular = True\<rparr> else None), denied = (\<lambda>_. False), disk_free = 100, read_fault = (\<lambda>_. None),
     system_now = 5, file_clock_now = 5\<rparr>"

definition sample_codecs :: "unit Codecs" where
  "sample_codecs = \<lparr>zstd_lib = store_lib, lz4_lib = store_lib, brotli_lib = store_lib\<rparr>"

lemma sample_host_sel [simp]:
  "writable sample_host p" "disk_free sample_host = 100" "read_fault sample_host p = None"
  "files sample_host ''old'' = Some \<lparr>lf_content = [9], lf_mode = 0x81A4, lf_mtime = 0, lf_regular = True\<rparr>"
  by (simp_all add: sample_host_def writable_def is_regular_file_def)

lemma plain_codec [simp]: "features c = [] \<Longrightarrow> transfer_codec b c CompressAuto = Inr None"
  by (simp add: transfer_codec_def choose_codec_def supports_feature_def)

lemma length_encode_file [simp]:
  "length (encode_file chunks) = 8 + sum_list (map (\<lambda>c. 8 + length c) chunks)"
  by (induction chunks) (simp_all add: encode_file_def encode_data_def)

section \<open>Properties\<close>



text \<open>
  C10. A pull round trip: whatever chunks of at most 64 KiB the device cuts the file into, and whatever
  frames carry them, the local file ends up holding exactly the device's bytes, whether it existed
  before or not. The host sends one RECV, then QUIT, then closes the stream.
\<close>

theorem pull_round_trip:
  fixes c :: "'t Connection"
  assumes "byte_channel T good pending sent" "conn_stage good pending sent base c fs []"
    and "open_reply (next_local_id c) fs = (Inr rid, gs)" "8 + length remote \<le> unat (max_data c)"
    and "transfer_codec b c compression = Inr None" "length remote \<le> kMaxPathLength"
    and "stream_data (next_local_id c) gs = encode_file chunks @ rest"
    and "\<forall>chunk \<in> set chunks. length chunk \<le> kMaxChunkSize"
    and "writable h path" "length (concat chunks) \<le> disk_free h"
  shows "\<exists>c' h'. sync_pull b L T remote path compression (c, h) = Some (Inr (), (c', h'))
    \<and> file_content h' path = concat chunks \<and> (\<forall>p. p \<noteq> path \<longrightarrow> files h' p = files h p)
    \<and> spoken good pending sent base [] c' (sync_frames c rid (path_request kRecvV1 remote))"
  using byte_channel.pull_file [OF assms(1) spoken_start_Nil [OF assms(2)] assms(3) unaddressed_Nil(2) assms(4-10), of L]
  by auto

theorem pull_round_trip_witness:
  "\<exists>c' h'. sync_pull sample_build sample_codecs mock_ops ''/f'' ''old'' CompressAuto
       (mock_connection (reply_frames (encode_file [[1, 2], [3]])), sample_host) = Some (Inr (), (c', h'))
    \<and> file_content h' ''old'' = [1, 2, 3] \<and> (\<forall>p. p \<noteq> ''old'' \<longrightarrow> files h' p = files sample_host p)
    \<and> spoken mock_good mock_pending mock_written [] [] c'
        (sync_frames (mock_connection []) 9 (path_request kRecvV1 ''/f''))"
  using pull_round_trip [OF mock.byte_channel_axioms, of "[]"
      "mock_connection (reply_frames (encode_file [[1, 2], [3]]))" "reply_frames (encode_file [[1, 2], [3]])" 9
      "tl (reply_frames (encode_file [[1, 2], [3]]))" "''/f''" sample_build CompressAuto "[[1, 2], [3]]" "[]"
      sample_host "''old''" sample_codecs]
  by (simp add: kMaxPathLength_def kMaxChunkSize_def sync_frames_def)



end
