(* ===== verification/Adb_Push_Spec.thy ===== *)
theory Adb_Push_Spec
  imports Adb_Pull_Spec
begin

text \<open>
  Pushing a file over a byte channel. A push is two services on one connection: the metadata of the
  destination, on a first stream, and the transfer, on a second. The specification is the sequence of
  frames the host sends: the file cut into blocks, its time, \<open>QUIT\<close>, and what the device's status
  makes of the result.
\<close>

section \<open>The blocks of a file\<close>

fun chunks :: "nat \<Rightarrow> 'a list \<Rightarrow> 'a list list" where
  "chunks n xs = (if n = 0 \<or> xs = [] then [] else take n xs # chunks n (drop n xs))"

declare chunks.simps [simp del]

lemma chunks_Nil [simp]: "chunks n [] = []"
  by (simp add: chunks.simps)

lemma chunks_step: "0 < n \<Longrightarrow> xs \<noteq> [] \<Longrightarrow> chunks n xs = take n xs # chunks n (drop n xs)"
  by (simp add: chunks.simps [of n xs])

lemma concat_chunks: "0 < n \<Longrightarrow> concat (chunks n xs) = xs"
proof (induction n xs rule: chunks.induct)
  case (1 n xs)
  then show ?case by (cases "xs = []") (simp_all add: chunks_step)
qed

lemma chunks_length: "c \<in> set (chunks n xs) \<Longrightarrow> 0 < length c \<and> length c \<le> n"
proof (induction n xs rule: chunks.induct)
  case (1 n xs)
  then show ?case by (subst (asm) (2) chunks.simps) (auto split: if_splits)
qed

text \<open>The blocks that are sent for some chunks, when each of them can be encoded.\<close>

fun blocks :: "('a \<Rightarrow> 'b Result) \<Rightarrow> 'a list \<Rightarrow> 'b list" where
  "blocks enc [] = []"
| "blocks enc (c # cs) = (case enc c of Inl e \<Rightarrow> [] | Inr b \<Rightarrow> b # blocks enc cs)"

lemma blocks_list_all2:
  "(\<And>c. c \<in> set cs \<Longrightarrow> isr (enc c)) \<Longrightarrow> list_all2 (\<lambda>c b. enc c = Inr b) cs (blocks enc cs)"
proof (induction cs)
  case (Cons c cs)
  from Cons.prems [of c] obtain b where "enc c = Inr b" by (cases "enc c") auto
  with Cons show ?case by simp
qed simp

section \<open>The transfer on its stream\<close>

definition done_request :: "int \<Rightarrow> byte list" where
  "done_request mtime = write_u32_le kDone @ write_u32_le (word_of_int mtime)"

definition send_v2_request :: "string \<Rightarrow> u32 \<Rightarrow> u32 \<Rightarrow> byte list" where
  "send_v2_request path mode flags =
     path_request kSendV2 path @ write_u32_le kSendV2 @ write_u32_le mode @ write_u32_le flags"

definition pstatus :: "stream_event \<Rightarrow> unit reader" where
  "pstatus ev =
     bind_st (pread ev 4)
       (\<lambda>id_bytes d. let i = read_u32_le id_bytes in
          if i = kFail then pfail ev d
          else if i \<noteq> kSyncOkay then fail_st (mk_error Protocol ''unexpected sync response'') d
          else bind_st (pread ev 4) (\<lambda>_. ok_st ()) d)"

lemma pstatus_okay:
  "length pad = 4 \<Longrightarrow> pstatus ev (write_u32_le kSyncOkay @ pad @ rest) = (Inr (), rest)"
  by (simp add: pstatus_def bind_pread_append Let_def seq_simps)

lemma pstatus_fail:
  assumes "length reason < 2 ^ 32"
  shows "fst (pstatus ev (write_u32_le kFail @ write_u32_le (of_nat (length reason)) @ bytes_of_string reason @ rest)) =
    Inl (mk_error Device (''the sync request failed: '' @ reason))"
proof -
  have "unat (of_nat (length reason) :: u32) = length reason" using assms by (simp add: unat_of_nat)
  then show ?thesis
    by (simp add: pstatus_def pfail_def bind_pread_append Let_def seq_simps)
qed

text \<open>The frames of the second stream.\<close>

definition push_frames :: "Stream \<Rightarrow> byte list \<Rightarrow> byte list list \<Rightarrow> int \<Rightarrow> Frame list" where
  "push_frames st request bs mtime =
     wrte_frame st request # map (\<lambda>b. wrte_frame st (encode_data b)) bs
       @ [wrte_frame st (done_request mtime), wrte_frame st quit_request]"

text \<open>A file whose every chunk can be encoded into a block that fits a frame.\<close>

definition sendable :: "(byte list \<Rightarrow> byte list Result) \<Rightarrow> u32 \<Rightarrow> byte list \<Rightarrow> bool" where
  "sendable enc limit content \<longleftrightarrow>
     (\<forall>c \<in> set (chunks kMaxChunkSize content). isr (enc c) \<and> 8 + length (projr (enc c)) \<le> unat limit)"

lemma kMaxChunkSize_pos [simp]: "0 < kMaxChunkSize" "kMaxChunkSize \<noteq> 0"
  by (simp_all add: kMaxChunkSize_def)

context byte_channel
begin

lemma meets_status: "meets good pending sent base tail S0 ev q (read_status T) (pstatus ev) d"
  unfolding read_status_def pstatus_def Let_def by (intro meets_intros)

lemma push_chunks_spec:
  assumes "dialogue good pending sent base tail S0 S d ev q" "read_fault h path = None"
    and "sendable enc (max_data (snd S0)) (drop pos (file_content h path))"
  shows "\<exists>S'. push_chunks T enc h path pos S = (Inr True, S')
    \<and> dialogue good pending sent base tail S0 S' d ev
        (q @ map (\<lambda>b. wrte_frame (fst S0) (encode_data b))
               (blocks enc (chunks kMaxChunkSize (drop pos (file_content h path)))))"
  using assms(1,3)
proof (induction "length (file_content h path) - pos" arbitrary: pos S q rule: less_induct)
  case less
  let ?rest = "drop pos (file_content h path)"
  have rd: "in_read path pos kMaxChunkSize h =
      (take kMaxChunkSize ?rest, if pos + kMaxChunkSize \<le> length (file_content h path) then Good else Eof)"
    by (rule in_read_ok [OF assms(2)])
  show ?case
  proof (cases "?rest = []")
    case True
    with rd less.prems(1) show ?thesis by (subst push_chunks.simps) (auto simp: kMaxChunkSize_def)
  next
    case False
    let ?c = "take kMaxChunkSize ?rest" and ?rest' = "drop (pos + kMaxChunkSize) (file_content h path)"
    have step: "chunks kMaxChunkSize ?rest = ?c # chunks kMaxChunkSize ?rest'"
      using False by (simp add: chunks_step add.commute)
    obtain b where b: "enc ?c = Inr b" "8 + length b \<le> unat (max_data (snd S0))"
      using less.prems(2) by (cases "enc ?c") (auto simp: sendable_def step)
    have sendable: "sendable enc (max_data (snd S0)) ?rest'"
      using less.prems(2) by (simp add: sendable_def step)
    obtain S1 where S1: "stream_write T (encode_data b) S = (Inr (), S1)"
      "dialogue good pending sent base tail S0 S1 d ev (q @ [wrte_frame (fst S0) (encode_data b)])"
      using dialogue_write [OF less.prems(1), of "encode_data b"] b(2) by (auto simp: encode_data_def)
    have "?c \<noteq> []" using False by simp
    show ?thesis
    proof (cases "pos + kMaxChunkSize \<le> length (file_content h path)")
      case True
      then have "length ?c = kMaxChunkSize" by simp
      then have "push_chunks T enc h path pos S = push_chunks T enc h path (pos + kMaxChunkSize) S1"
        using rd b(1) S1(1) \<open>?c \<noteq> []\<close> True
        by (subst push_chunks.simps) (simp add: encode_data_def)
      moreover have "length (file_content h path) - (pos + kMaxChunkSize) < length (file_content h path) - pos"
        using True kMaxChunkSize_pos(1) by linarith
      from less.hyps [OF this S1(2) sendable] obtain S' where
        "push_chunks T enc h path (pos + kMaxChunkSize) S1 = (Inr True, S')"
        "dialogue good pending sent base tail S0 S' d ev ((q @ [wrte_frame (fst S0) (encode_data b)])
           @ map (\<lambda>b. wrte_frame (fst S0) (encode_data b)) (blocks enc (chunks kMaxChunkSize ?rest')))"
        by blast
      ultimately show ?thesis using b(1) by (simp add: step)
    next
      case eof: False
      then have "?rest' = []" by simp
      with rd b(1) S1 \<open>?c \<noteq> []\<close> eof show ?thesis
        by (subst push_chunks.simps) (simp add: step encode_data_def)
    qed
  qed
qed

lemma push_contents_spec:
  assumes "dialogue good pending sent base tail S0 S d ev q" "read_fault h path = None" "in_open path h"
    and "sendable enc (max_data (snd S0)) (file_content h path)" "8 \<le> unat (max_data (snd S0))"
    and "tail = [] \<or> isr (fst (pstatus ev d))"
  shows "\<exists>S'. push_contents T enc h path S = Some (fst (pstatus ev d), S')
    \<and> (isr (fst (pstatus ev d)) \<longrightarrow> dialogue good pending sent base tail S0 S' (snd (pstatus ev d)) ev
         (q @ map (\<lambda>b. wrte_frame (fst S0) (encode_data b)) (blocks enc (chunks kMaxChunkSize (file_content h path)))
            @ [wrte_frame (fst S0) (done_request (local_mtime h path)), wrte_frame (fst S0) quit_request]))"
proof -
  let ?q = "q @ map (\<lambda>b. wrte_frame (fst S0) (encode_data b)) (blocks enc (chunks kMaxChunkSize (file_content h path)))"
  let ?done = "done_request (local_mtime h path)"
  obtain S1 where 1: "push_chunks T enc h path 0 S = (Inr True, S1)"
    "dialogue good pending sent base tail S0 S1 d ev ?q"
    using push_chunks_spec [OF assms(1,2), of enc 0] assms(4) by auto
  obtain S2 where 2: "lift_io (stream_write T ?done) S1 = Some (Inr (), S2)"
    "dialogue good pending sent base tail S0 S2 d ev (?q @ [wrte_frame (fst S0) ?done])"
    using dialogue_then_write [OF 1(2), of ?done] assms(5) by (auto simp: done_request_def)
  from meets_status [unfolded meets_def, rule_format, OF 2(2) assms(6)] obtain S3 where
    3: "read_status T S2 = Some (fst (pstatus ev d), S3)"
      "isr (fst (pstatus ev d)) \<Longrightarrow> dialogue good pending sent base tail S0 S3 (snd (pstatus ev d)) ev
         (?q @ [wrte_frame (fst S0) ?done])"
    by blast
  have run: "push_contents T enc h path S = bind_io (read_status T) (\<lambda>_. lift_io (write_quit T)) S2"
    using assms(3) 1(1) 2(1) by (simp add: push_contents_def push_finish_def done_request_def bind_io_def lift_io_def)
  show ?thesis
  proof (cases "fst (pstatus ev d)")
    case (Inl e)
    with run 3(1) show ?thesis by (simp add: bind_io_def)
  next
    case (Inr a)
    then obtain S4 where "lift_io (stream_write T quit_request) S3 = Some (Inr (), S4)"
      "dialogue good pending sent base tail S0 S4 (snd (pstatus ev d)) ev
         ((?q @ [wrte_frame (fst S0) ?done]) @ [wrte_frame (fst S0) quit_request])"
      using dialogue_then_write [OF 3(2), of quit_request] assms(5) by auto
    with Inr run 3(1) show ?thesis by (simp add: bind_io_def write_quit_def quit_request_def)
  qed
qed

text \<open>The service that sends a file, for any request and any encoding of the blocks.\<close>

lemma push_service:
  fixes c :: "'t Connection"
  assumes "spoken good pending sent base (fs @ tail) c q"
    and "open_reply (next_local_id c) fs = (Inr rid, gs)" "unaddressed (next_local_id c + 1) tail fs"
    and "length request \<le> unat (max_data c)" "8 \<le> unat (max_data c)"
    and "sendable enc (max_data c) (file_content h path)" "read_fault h path = None" "in_open path h"
  defines "st \<equiv> opened ''sync:'' (next_local_id c) rid"
    and "r \<equiv> fst (pstatus (stream_end (next_local_id c) gs) (stream_data (next_local_id c) gs))"
  assumes "tail = [] \<or> isr r"
  shows "\<exists>c'. with_stream T ''sync:''
        (bind_io (lift_io (stream_write T request)) (\<lambda>_. push_contents T enc h path)) c = Some (r, c')
    \<and> (isr r \<longrightarrow> (\<exists>s. c' = next_connection c s) \<and> spoken good pending sent base tail c'
         (q @ open_request_frame c ''sync:'' # push_frames st request
            (blocks enc (chunks kMaxChunkSize (file_content h path))) (local_mtime h path) @ [clse_frame st]))"
proof -
  let ?body = "bind_io (lift_io (stream_write T request)) (\<lambda>_. push_contents T enc h path)"
  let ?S = "\<lambda>s. (st, next_connection c s)" and ?q = "q @ [open_request_frame c ''sync:'']"
  let ?p = "pstatus (stream_end (next_local_id c) gs) (stream_data (next_local_id c) gs)"
  let ?q' = "?q @ push_frames st request (blocks enc (chunks kMaxChunkSize (file_content h path))) (local_mtime h path)"
  have fits: "Suc (length ''sync:'') < 2 ^ 31" by simp
  have body: "\<exists>S'. ?body (?S s) = Some (r, S')
      \<and> (isr r \<longrightarrow> dialogue good pending sent base tail (?S s) S' (snd ?p) (stream_end (next_local_id c) gs) ?q')"
    if 0: "dialogue good pending sent base tail (?S s) (?S s) (stream_data (next_local_id c) gs)
        (stream_end (next_local_id c) gs) ?q" for s
  proof -
    obtain S1 where 1: "lift_io (stream_write T request) (?S s) = Some (Inr (), S1)"
      "dialogue good pending sent base tail (?S s) S1 (stream_data (next_local_id c) gs)
         (stream_end (next_local_id c) gs) (?q @ [wrte_frame st request])"
      using dialogue_then_write [OF 0, of request] assms(4) by auto
    from push_contents_spec [OF 1(2) assms(7,8), of enc] assms(5,6,11) 1(1) show ?thesis
      by (simp add: bind_io_def r_def push_frames_def)
  qed
  show ?thesis
  proof (cases "isr r")
    case False
    have "\<exists>c'. with_stream T ''sync:'' ?body c = Some (r, c')"
      by (rule with_stream_returns [OF assms(1) fits assms(2,3)], fold st_def, drule body) blast
    with False show ?thesis by blast
  next
    case True
    have "\<exists>S'. ?body (?S s) = Some (r, S') \<and> same_link (?S s) S'
        \<and> spoken good pending sent base tail (snd S') ?q' \<and> stream_closed (fst S') = False"
      if "dialogue good pending sent base tail (?S s) (?S s) (stream_data (next_local_id c) gs)
        (stream_end (next_local_id c) gs) ?q" for s
      using body [OF that] True dialogue_spoken by blast
    from with_stream_spec [OF assms(1) fits assms(2,3), folded st_def, of ?body, OF this] show ?thesis
      by auto
  qed
qed

end

section \<open>A push\<close>

text \<open>The request and the encoding of a transfer, in its plain and in its compressed form.\<close>

definition push_request :: "string \<Rightarrow> u32 \<Rightarrow> CompressionCodec option \<Rightarrow> byte list" where
  "push_request destination mode codec =
     (case codec of
        None \<Rightarrow> path_request kSendV1 (push_spec destination mode)
      | Some k \<Rightarrow> send_v2_request destination mode (sync_flag_of k))"

definition push_encoder ::
  "Build \<Rightarrow> 'd Codecs \<Rightarrow> CompressionCodec option \<Rightarrow> byte list \<Rightarrow> byte list Result" where
  "push_encoder b L codec = (case codec of None \<Rightarrow> Inr | Some k \<Rightarrow> compress_chunk b L k)"

lemma transfer_codec_features:
  "features c' = features c \<Longrightarrow> transfer_codec b c' compression = transfer_codec b c compression"
  by (simp only: transfer_codec_def choose_codec_def supports_feature_def)

lemma push_transfer_eq:
  assumes "transfer_codec b c compression = Inr codec"
  shows "(case transfer_codec b c compression of
        Inl e \<Rightarrow> fail_io e c
      | Inr (Some k) \<Rightarrow> push_v2 b L T h path destination mode k c
      | Inr None \<Rightarrow> with_stream T ''sync:'' (push_body T h path (push_spec destination mode)) c) =
    with_stream T ''sync:'' (bind_io (lift_io (stream_write T (push_request destination mode codec)))
      (\<lambda>_. push_contents T (push_encoder b L codec) h path)) c"
  by (simp add: assms push_body_def push_v2_def push_v2_body_def write_path_request_def write_send_v2_def
      push_request_def push_encoder_def path_request_def send_v2_request_def split: option.splits)

text \<open>A block that does not fit the negotiated maximum.\<close>

definition too_large :: Error where
  "too_large = mk_error InvalidArgument ''the write is larger than the negotiated maximum payload''"

lemma push_chunks_too_large:
  assumes "read_fault h path = None" "kMaxChunkSize \<le> length (file_content h path)"
    and "unat (max_data (snd S)) < 8 + kMaxChunkSize"
  shows "push_chunks T Inr h path 0 S = (Inl too_large, S)"
proof -
  have "in_read path 0 kMaxChunkSize h = (take kMaxChunkSize (file_content h path), Good)"
    using in_read_ok [OF assms(1), of 0 kMaxChunkSize] assms(2) by simp
  moreover have "take kMaxChunkSize (file_content h path) \<noteq> []"
    using assms(2) kMaxChunkSize_pos(1) by fastforce
  moreover have "stream_write T (write_u32_le kData @ write_u32_le w @ take kMaxChunkSize (file_content h path)) S =
      (Inl too_large, S)" for w
    using assms(2,3) by (cases S) (simp add: stream_write_def too_large_def)
  ultimately show ?thesis
    by (subst push_chunks.simps) (simp add: min_absorb2 [OF assms(2)])
qed

context byte_channel
begin

lemma sync_push_start:
  fixes c :: "'t Connection"
  assumes "spoken good pending sent base (fs1 @ fs2) c q" "is_regular_file h path"
    and codec: "transfer_codec b c compression = Inr codec"
    and stat: "open_reply (next_local_id c) fs1 = (Inr rid1, gs1)" "unaddressed (next_local_id c + 1) fs2 fs1"
      "stream_data (next_local_id c) gs1 =
         id_bytes @ (if ''stat_v2'' \<in> set (features c) then stat_fields e else stat_fields_v1 e) @ rest"
      "length id_bytes = 4" "length remote \<le> kMaxPathLength" "8 + length remote \<le> unat (max_data c)"
  defines "dest \<equiv> push_destination path remote (stat_view (''stat_v2'' \<in> set (features c)) e)"
  shows "\<exists>s. sync_push b L T h path remote compression c =
      with_stream T ''sync:'' (bind_io (lift_io (stream_write T (push_request dest (local_mode h path) codec)))
        (\<lambda>_. push_contents T (push_encoder b L codec) h path)) (next_connection c s)
    \<and> spoken good pending sent base fs2 (next_connection c s)
        (q @ sync_frames c rid1 (path_request (if ''stat_v2'' \<in> set (features c) then kStatV2 else kStatV1) remote))"
proof -
  let ?v2 = "''stat_v2'' \<in> set (features c)"
  have "pstat (stream_end (next_local_id c) gs1) ?v2 (stream_data (next_local_id c) gs1) = (Inr (stat_view ?v2 e), rest)"
    unfolding stat(3) by (rule pstat_encode [OF stat(4)])
  with sync_stat_spec [OF assms(1) stat(1,2,6,5)] obtain s1 where
    1: "sync_stat T remote c = Some (Inr (stat_view ?v2 e), next_connection c s1)"
      "spoken good pending sent base fs2 (next_connection c s1)
         (q @ sync_frames c rid1 (path_request (if ?v2 then kStatV2 else kStatV1) remote))"
    by auto
  have codec1: "transfer_codec b (next_connection c s1) compression = Inr codec"
    using codec transfer_codec_features [of "next_connection c s1" c b compression] by simp
  have "sync_push b L T h path remote compression c =
      with_stream T ''sync:'' (bind_io (lift_io (stream_write T (push_request dest (local_mode h path) codec)))
        (\<lambda>_. push_contents T (push_encoder b L codec) h path)) (next_connection c s1)"
    using assms(2) 1(1) push_transfer_eq [OF codec1, of T h path
        "push_destination path remote (stat_view ?v2 e)" "local_mode h path" L]
    unfolding dest_def by (simp add: sync_push_def bind_io_def Let_def)
  with 1(2) show ?thesis by blast
qed

lemma sync_push_spec:
  fixes c :: "'t Connection"
  assumes "spoken good pending sent base (fs1 @ fs2 @ tail) c q"
    and src: "is_regular_file h path" "\<not> denied h path" "read_fault h path = None"
    and codec: "transfer_codec b c compression = Inr codec"
    and stat: "open_reply (next_local_id c) fs1 = (Inr rid1, gs1)" "unaddressed (next_local_id c + 1) (fs2 @ tail) fs1"
      "stream_data (next_local_id c) gs1 =
         id_bytes @ (if ''stat_v2'' \<in> set (features c) then stat_fields e else stat_fields_v1 e) @ rest"
      "length id_bytes = 4" "length remote \<le> kMaxPathLength" "8 + length remote \<le> unat (max_data c)"
    and send: "open_reply (next_local_id c + 1) fs2 = (Inr rid2, gs2)" "unaddressed (next_local_id c + 2) tail fs2"
  defines "dest \<equiv> push_destination path remote (stat_view (''stat_v2'' \<in> set (features c)) e)"
    and "st \<equiv> opened ''sync:'' (next_local_id c + 1) rid2"
    and "r \<equiv> fst (pstatus (stream_end (next_local_id c + 1) gs2) (stream_data (next_local_id c + 1) gs2))"
  assumes room: "length (push_request dest (local_mode h path) codec) \<le> unat (max_data c)"
      "sendable (push_encoder b L codec) (max_data c) (file_content h path)"
    and tail: "tail = [] \<or> isr r"
  shows "\<exists>c'. sync_push b L T h path remote compression c = Some (r, c')
    \<and> (isr r \<longrightarrow> (\<exists>s. c' = c\<lparr>next_local_id := next_local_id c + 2, conn_session := s\<rparr>)
         \<and> spoken good pending sent base tail c'
             (q @ sync_frames c rid1 (path_request (if ''stat_v2'' \<in> set (features c) then kStatV2 else kStatV1) remote)
                @ open_request_frame (c\<lparr>next_local_id := next_local_id c + 1\<rparr>) ''sync:'' # push_frames st
                    (push_request dest (local_mode h path) codec)
                    (blocks (push_encoder b L codec) (chunks kMaxChunkSize (file_content h path)))
                    (local_mtime h path) @ [clse_frame st]))"
proof -
  let ?req = "push_request dest (local_mode h path) codec"
  have eight: "8 \<le> unat (max_data c)" and opn: "in_open path h"
    using stat(6) src by (auto simp: in_open_def is_regular_file_def split: option.splits)
  obtain s1 where 1: "sync_push b L T h path remote compression c =
      with_stream T ''sync:'' (bind_io (lift_io (stream_write T ?req))
        (\<lambda>_. push_contents T (push_encoder b L codec) h path)) (next_connection c s1)"
    "spoken good pending sent base (fs2 @ tail) (next_connection c s1)
       (q @ sync_frames c rid1 (path_request (if ''stat_v2'' \<in> set (features c) then kStatV2 else kStatV1) remote))"
    using sync_push_start [OF assms(1) src(1) codec stat, where L = L] unfolding dest_def by blast
  show ?thesis
    using push_service [OF 1(2), of rid2 gs2 ?req "push_encoder b L codec" h path] send room tail eight src(3) opn
    unfolding 1(1) by (auto simp: r_def st_def add.assoc)
qed

lemma sync_push_too_large:
  fixes c :: "'t Connection"
  assumes "spoken good pending sent base (fs1 @ fs2) c q"
    and src: "is_regular_file h path" "\<not> denied h path" "read_fault h path = None"
    and codec: "transfer_codec b c compression = Inr None"
    and stat: "open_reply (next_local_id c) fs1 = (Inr rid1, gs1)" "unaddressed (next_local_id c + 1) fs2 fs1"
      "stream_data (next_local_id c) gs1 =
         id_bytes @ (if ''stat_v2'' \<in> set (features c) then stat_fields e else stat_fields_v1 e) @ rest"
      "length id_bytes = 4" "length remote \<le> kMaxPathLength" "8 + length remote \<le> unat (max_data c)"
    and send: "open_reply (next_local_id c + 1) fs2 = (Inr rid2, gs2)"
  defines "dest \<equiv> push_destination path remote (stat_view (''stat_v2'' \<in> set (features c)) e)"
  assumes room: "8 + length (push_spec dest (local_mode h path)) \<le> unat (max_data c)"
      "kMaxChunkSize \<le> length (file_content h path)" "unat (max_data c) < 8 + kMaxChunkSize"
  shows "\<exists>c'. sync_push b L T h path remote compression c = Some (Inl too_large, c')"
proof -
  let ?req = "push_request dest (local_mode h path) None"
  let ?body = "bind_io (lift_io (stream_write T ?req)) (\<lambda>_. push_contents T Inr h path)"
  have req: "length ?req \<le> unat (max_data c)" using room(1) by (simp add: push_request_def path_request_def)
  have opn: "in_open path h"
    using src by (auto simp: in_open_def is_regular_file_def split: option.splits)
  obtain s1 where 1: "sync_push b L T h path remote compression c = with_stream T ''sync:'' ?body (next_connection c s1)"
    "spoken good pending sent base (fs2 @ []) (next_connection c s1)
       (q @ sync_frames c rid1 (path_request (if ''stat_v2'' \<in> set (features c) then kStatV2 else kStatV1) remote))"
    using sync_push_start [OF assms(1) src(1) codec stat, where L = L] unfolding dest_def push_encoder_def by auto
  have fits: "Suc (length ''sync:'') < 2 ^ 31"
    and reply: "open_reply (next_local_id (next_connection c s1)) fs2 = (Inr rid2, gs2)" using send by simp_all
  have body: "\<exists>S. ?body S0 = Some (Inl too_large, S)"
    if 0: "dialogue good pending sent base [] S0 S0 d ev q" "max_data (snd S0) = max_data c" for S0 d ev q
  proof -
    obtain S1 where "lift_io (stream_write T ?req) S0 = Some (Inr (), S1)"
      "dialogue good pending sent base [] S0 S1 d ev (q @ [wrte_frame (fst S0) ?req])"
      using dialogue_then_write [OF 0(1), of ?req] req 0(2) by auto
    moreover from this have "max_data (snd S1) = max_data c"
      using dialogue_spoken same_link_max_data 0(2) by metis
    ultimately show ?thesis
      using push_chunks_too_large [OF src(3) room(2), of S1 T] room(3) opn
      by (simp add: bind_io_def push_contents_def lift_io_def)
  qed
  show ?thesis
    unfolding 1(1)
    by (rule with_stream_returns [OF 1(2) fits reply unaddressed_Nil(2)]) (rule body, auto)
qed

end

section \<open>A push to any device\<close>

text \<open>Whatever the device answers and whatever becomes of the local file, a push comes back.\<close>

definition same_settings :: "'t Connection \<Rightarrow> 't Connection \<Rightarrow> bool" where
  "same_settings c c' \<longleftrightarrow> (\<exists>lid s. c' = c\<lparr>next_local_id := lid, conn_session := s\<rparr>)"

lemma same_settings_refl [simp]: "same_settings c c"
  unfolding same_settings_def by (intro exI [of _ "next_local_id c"] exI [of _ "conn_session c"]) simp

lemma same_settings_next [simp]: "same_settings c (next_connection c s)"
  unfolding same_settings_def by blast

lemma same_settings_trans [trans]: "same_settings c c' \<Longrightarrow> same_settings c' c'' \<Longrightarrow> same_settings c c''"
  unfolding same_settings_def by force

context byte_channel
begin

lemma keeps_chunks: "keeps base (lift_io (push_chunks T enc h path pos))"
proof (induction "Suc (length (file_content h path)) - pos" arbitrary: pos rule: less_induct)
  case less
  obtain bs state where rd: "in_read path pos kMaxChunkSize h = (bs, state)" by fastforce
  have more: "keeps base (lift_io (push_chunks T enc h path (pos + length bs)))" if "bs \<noteq> []" "state = Good"
  proof (rule less)
    have "length bs = kMaxChunkSize" "pos + kMaxChunkSize \<le> length (file_content h path)"
      using in_read_Good_length [of path pos kMaxChunkSize h bs] rd that by simp_all
    with kMaxChunkSize_pos(1)
    show "Suc (length (file_content h path)) - (pos + length bs) < Suc (length (file_content h path)) - pos"
      by linarith
  qed
  let ?block = "\<lambda>b. write_u32_le kData @ write_u32_le (of_nat (length b)) @ b"
  have "lift_io (push_chunks T enc h path pos) =
      (if bs = [] then ok_io (state = Eof)
       else case enc bs of
         Inl e \<Rightarrow> fail_io e
       | Inr b \<Rightarrow> bind_io (lift_io (stream_write T (?block b)))
           (\<lambda>_. if state = Good then lift_io (push_chunks T enc h path (pos + length bs)) else ok_io (state = Eof)))"
    by (rule ext, subst lift_io_def, subst (1) push_chunks.simps)
      (auto simp: rd lift_io_def ok_io_def fail_io_def bind_io_def split: sum.splits prod.splits)
  with more show ?case
    by (auto split: sum.splits intro!: keeps_intros)
qed

lemma keeps_sync_fail: "keeps base (sync_fail T)"
  unfolding sync_fail_def by (intro keeps_intros)

lemma keeps_push_contents: "keeps base (push_contents T enc h path)"
  unfolding push_contents_def push_finish_def read_status_def write_quit_def Let_def
  by (intro keeps_intros keeps_chunks keeps_sync_fail)

lemma keeps_stat_body: "keeps base (stat_body T v2 path)"
  unfolding stat_body_def write_path_request_def write_quit_def by (intro keeps_intros)

lemma keeps_push_body:
  "keeps base (push_body T h path spec)" "keeps base (push_v2_body b L T h path destination mode codec)"
  unfolding push_body_def push_v2_body_def write_path_request_def write_send_v2_def
  by (intro keeps_intros keeps_push_contents)+

text \<open>
  A service on a sync stream whose body keeps the stream, and a push. Each opens its streams, one and two
  unless it is refused or fails before.
\<close>

lemma sync_service_talks:
  fixes c :: "'t Connection"
  assumes "spoken good pending sent base [] c q" "talks base body"
  shows "\<exists>r s q'. with_stream T ''sync:'' body c = Some (r, next_connection c s)
    \<and> spoken good pending sent base [] (next_connection c s) (q @ q') \<and> services q' = [''sync:'']"
proof -
  have "Suc (length ''sync:'') < 2 ^ 31" by simp
  from with_stream_talks [OF assms(1) this assms(2)] obtain r s q' where
    "with_stream T ''sync:'' body c = Some (r, next_connection c s)"
    "spoken good pending sent base [] (next_connection c s) (q @ open_request_frame c ''sync:'' # q')" "opens q' = []"
    by blast
  then show ?thesis
    by (intro exI [of _ r] exI [of _ s] exI [of _ "open_request_frame c ''sync:'' # q'"]) (simp add: services_none)
qed

lemma sync_stat_talks:
  fixes c :: "'t Connection"
  assumes "spoken good pending sent base [] c q"
  shows "\<exists>r c' q'. sync_stat T path c = Some (r, c') \<and> same_settings c c'
    \<and> spoken good pending sent base [] c' (q @ q') \<and> (services q' = [''sync:''] \<or> isl r \<and> services q' = [])"
proof (cases "kMaxPathLength < length path")
  case True
  with assms show ?thesis
    by (intro exI [of _ "Inl path_limit"] exI [of _ c] exI [of _ "[]"]) (simp add: sync_stat_def seq_simps)
next
  case False
  from sync_service_talks [OF assms keeps_talks [OF keeps_stat_body], of "supports_feature c ''stat_v2''" path] False
  show ?thesis by (force simp: sync_stat_def)
qed

lemma sync_push_talks:
  fixes c :: "'t Connection"
  assumes "spoken good pending sent base [] c q"
  shows "\<exists>r c' q'. sync_push b L T h path remote compression c = Some (r, c') \<and> same_settings c c'
    \<and> spoken good pending sent base [] c' (q @ q')
    \<and> (services q' = [''sync:'', ''sync:''] \<or> isl r \<and> (services q' = [] \<or> services q' = [''sync:'']))"
proof (cases "is_regular_file h path")
  case False
  with assms show ?thesis
    by (intro exI [of _ "Inl _"] exI [of _ c] exI [of _ "[]"]) (simp add: sync_push_def seq_simps)
next
  case True
  obtain r1 c1 q1 where 1: "sync_stat T remote c = Some (r1, c1)" "same_settings c c1"
    "spoken good pending sent base [] c1 (q @ q1)" "services q1 = [''sync:''] \<or> isl r1 \<and> services q1 = []"
    using sync_stat_talks [OF assms] by metis
  show ?thesis
  proof (cases r1)
    case (Inl e)
    with True 1 show ?thesis
      by (intro exI [of _ "Inl e"] exI [of _ c1] exI [of _ q1]) (auto simp: sync_push_def bind_io_def)
  next
    case (Inr existing)
    let ?dest = "push_destination path remote existing" and ?mode = "local_mode h path"
    have step: "sync_push b L T h path remote compression c =
        (case transfer_codec b c1 compression of
           Inl e \<Rightarrow> fail_io e c1
         | Inr (Some codec) \<Rightarrow> push_v2 b L T h path ?dest ?mode codec c1
         | Inr None \<Rightarrow> with_stream T ''sync:'' (push_body T h path (push_spec ?dest ?mode)) c1)"
      using True 1(1) Inr by (simp add: sync_push_def bind_io_def Let_def)
    show ?thesis
    proof (cases "transfer_codec b c1 compression")
      case (Inl e)
      with step 1 show ?thesis
        by (intro exI [of _ "Inl e"] exI [of _ c1] exI [of _ q1]) (auto simp: seq_simps)
    next
      case codec: (Inr codec)
      then have "\<exists>body. keeps base body \<and> sync_push b L T h path remote compression c = with_stream T ''sync:'' body c1"
        using step keeps_push_body by (cases codec) (simp_all add: push_v2_def, blast+)
      then obtain body where "keeps base body"
        "sync_push b L T h path remote compression c = with_stream T ''sync:'' body c1" by blast
      moreover from sync_service_talks [OF 1(3) keeps_talks [OF this(1)]] obtain r s q' where
        "with_stream T ''sync:'' body c1 = Some (r, next_connection c1 s)"
        "spoken good pending sent base [] (next_connection c1 s) ((q @ q1) @ q')" "services q' = [''sync:'']"
        by blast
      moreover have "services q1 = [''sync:'']" using 1(4) Inr by simp
      ultimately show ?thesis
        using same_settings_trans [OF 1(2) same_settings_next]
        by (intro exI [of _ r] exI [of _ "next_connection c1 s"] exI [of _ "q1 @ q'"]) simp
    qed
  qed
qed

end

section \<open>Properties\<close>

text \<open>The device's status after a transfer.\<close>

definition encode_status :: "string option \<Rightarrow> byte list" where
  "encode_status failure =
     (case failure of
        None \<Rightarrow> write_u32_le kSyncOkay @ replicate 4 0
      | Some reason \<Rightarrow> write_u32_le kFail @ write_u32_le (of_nat (length reason)) @ bytes_of_string reason)"

definition status_result :: "string option \<Rightarrow> unit Result" where
  "status_result failure =
     (case failure of
        None \<Rightarrow> Inr ()
      | Some reason \<Rightarrow> Inl (mk_error Device (''the sync request failed: '' @ reason)))"

lemma pstatus_encode:
  assumes "\<And>reason. failure = Some reason \<Longrightarrow> length reason < 2 ^ 32"
  shows "fst (pstatus ev (encode_status failure @ rest)) = status_result failure"
  using assms pstatus_okay [of "replicate 4 0" ev rest] pstatus_fail [of _ ev rest]
  by (cases failure) (simp_all add: encode_status_def status_result_def)

text \<open>
  C9. Pushing a file over any byte channel: the destination's metadata is asked for on a first stream, and
  the file goes to the destination, or into it under its own name when it is a directory, on a second.
  The file is cut into pieces of at most 64 KiB whose concatenation is its content, each piece goes
  out as one DATA block, compressed when a codec was chosen, in order, then DONE with the file's time,
  and QUIT after the device's OKAY. A FAIL of the device is the error that is returned.
\<close>

theorem push_round_trip:
  fixes c :: "'t Connection" and L :: "'d Codecs"
  assumes "byte_channel T good pending sent" "conn_stage good pending sent base c (fs1 @ fs2) []"
    and "is_regular_file h path" "\<not> denied h path" "read_fault h path = None"
    and "transfer_codec b c compression = Inr codec"
    and "open_reply (next_local_id c) fs1 = (Inr rid1, gs1)" "\<forall>f \<in> set fs1. arg1 (header f) \<noteq> next_local_id c + 1"
    and "stream_data (next_local_id c) gs1 =
      id_bytes @ (if ''stat_v2'' \<in> set (features c) then stat_fields e else stat_fields_v1 e) @ rest"
    and "length id_bytes = 4" "length remote \<le> kMaxPathLength" "8 + length remote \<le> unat (max_data c)"
    and "open_reply (next_local_id c + 1) fs2 = (Inr rid2, gs2)"
    and "stream_data (next_local_id c + 1) gs2 = encode_status failure @ rest2"
    and "\<And>reason. failure = Some reason \<Longrightarrow> length reason < 2 ^ 32"
  defines "dest \<equiv> push_destination path remote (stat_view (''stat_v2'' \<in> set (features c)) e)"
    and "st \<equiv> opened ''sync:'' (next_local_id c + 1) rid2"
  assumes "length (push_request dest (local_mode h path) codec) \<le> unat (max_data c)"
    and "sendable (push_encoder b L codec) (max_data c) (file_content h path)"
  shows "\<exists>c' cs bs. sync_push b L T h path remote compression c = Some (status_result failure, c')
    \<and> concat cs = file_content h path \<and> (\<forall>ch \<in> set cs. 0 < length ch \<and> length ch \<le> kMaxChunkSize)
    \<and> list_all2 (\<lambda>ch blk. push_encoder b L codec ch = Inr blk) cs bs
    \<and> (failure = None \<longrightarrow> spoken good pending sent base [] c'
         (sync_frames c rid1 (path_request (if ''stat_v2'' \<in> set (features c) then kStatV2 else kStatV1) remote)
            @ open_request_frame (c\<lparr>next_local_id := next_local_id c + 1\<rparr>) ''sync:''
            # push_frames st (push_request dest (local_mode h path) codec) bs (local_mtime h path) @ [clse_frame st]))"
proof -
  let ?cs = "chunks kMaxChunkSize (file_content h path)" and ?enc = "push_encoder b L codec"
  have sp: "spoken good pending sent base (fs1 @ fs2 @ []) c []"
    using spoken_start_Nil [OF assms(2)] by simp
  have un: "unaddressed (next_local_id c + 1) (fs2 @ []) fs1" "unaddressed (next_local_id c + 2) [] fs2"
    using assms(8) by (simp_all add: unaddressed_def)
  have r: "fst (pstatus (stream_end (next_local_id c + 1) gs2) (stream_data (next_local_id c + 1) gs2)) = status_result failure"
    unfolding assms(14) by (rule pstatus_encode [OF assms(15)])
  have all: "list_all2 (\<lambda>ch blk. ?enc ch = Inr blk) ?cs (blocks ?enc ?cs)"
    using assms(19) by (intro blocks_list_all2) (simp add: sendable_def)
  have "\<exists>c'. sync_push b L T h path remote compression c = Some (status_result failure, c')
    \<and> (failure = None \<longrightarrow> spoken good pending sent base [] c'
         ([] @ sync_frames c rid1 (path_request (if ''stat_v2'' \<in> set (features c) then kStatV2 else kStatV1) remote)
            @ open_request_frame (c\<lparr>next_local_id := next_local_id c + 1\<rparr>) ''sync:''
            # push_frames st (push_request dest (local_mode h path) codec) (blocks ?enc ?cs) (local_mtime h path)
            @ [clse_frame st]))"
    using byte_channel.sync_push_spec [OF assms(1) sp assms(3-7) un(1) assms(9-13) un(2), where L = L] assms(18,19)
    unfolding r dest_def st_def by (cases failure) (auto simp: status_result_def)
  with all concat_chunks [OF kMaxChunkSize_pos(1), of "file_content h path"] chunks_length show ?thesis
    by (metis append_Nil)
qed

text \<open>A device that answers a push into a directory: the metadata on stream 2, the status on stream 3.\<close>

definition push_metadata :: Dent where
  "push_metadata = sample_dent\<lparr>dn_mode := 0x41ED\<rparr>"

definition metadata_frames :: "Frame list" where
  "metadata_frames =
     [device_frame kOkay 2 [], device_frame kWrte 2 (write_u32_le 0 @ stat_fields_v1 push_metadata), device_frame kClse 2 []]"

definition status_frames :: "Frame list" where
  "status_frames = [device_frame kOkay 3 [], device_frame kOkay 3 [], device_frame kWrte 3 (encode_status None)]"

lemma chunks_sample [simp]: "chunks kMaxChunkSize [x] = [[x]]"
  by (simp add: chunks_step kMaxChunkSize_def)

lemma sample_host_old [simp]:
  "is_regular_file sample_host ''old''" "\<not> denied sample_host ''old''" "read_fault sample_host ''old'' = None"
  "file_content sample_host ''old'' = [9]" "local_mode sample_host ''old'' = 420" "local_mtime sample_host ''old'' = 0"
  by (simp_all add: sample_host_def is_regular_file_def file_content_def local_mode_def posix_stat_def
      local_mtime_def last_write_time_def)

lemma push_metadata_destination:
  "push_destination ''old'' ''/d/x'' (stat_view False push_metadata) = ''/d/x/old''"
  by (simp add: push_destination_def stat_view_def push_metadata_def sample_dent_def is_directory_def filename_def)

lemma push_frames_answer [simp]:
  "open_reply 2 metadata_frames = (Inr 9, tl metadata_frames)"
  "stream_data 2 (tl metadata_frames) = write_u32_le 0 @ stat_fields_v1 push_metadata"
  "open_reply 3 status_frames = (Inr 9, tl status_frames)"
  "stream_data 3 (tl status_frames) = encode_status None"
  "\<forall>f \<in> set metadata_frames. arg1 (header f) \<noteq> 3"
  by (simp_all add: metadata_frames_def status_frames_def open_reply_def)

lemma push_frames_valid [simp]: "list_all valid_frame (metadata_frames @ status_frames)"
  by (simp add: metadata_frames_def status_frames_def encode_status_def stat_fields_v1_def)

theorem push_round_trip_witness:
  "\<exists>c' bs. sync_push sample_build sample_codecs mock_ops sample_host ''old'' ''/d/x'' CompressNone
      (mock_connection (metadata_frames @ status_frames)) = Some (Inr (), c')
    \<and> concat bs = [9] \<and> spoken mock_good mock_pending mock_written [] [] c'
        (sync_frames (mock_connection []) 9 (path_request kStatV1 ''/d/x'')
           @ open_frame 3 0 ''sync:'' # push_frames (opened ''sync:'' 3 9) (path_request kSendV1 ''/d/x/old,420'') bs 0
           @ [clse_frame (opened ''sync:'' 3 9)])"
proof -
  let ?c = "mock_connection (metadata_frames @ status_frames)"
  have codec: "transfer_codec sample_build ?c CompressNone = Inr None"
    by (simp add: transfer_codec_def choose_codec_def)
  have enc: "list_all2 (\<lambda>ch blk. push_encoder sample_build sample_codecs None ch = Inr blk) cs bs \<Longrightarrow> cs = bs" for cs bs
    by (induction rule: list_all2_induct) (simp_all add: push_encoder_def)
  have spec: "push_request ''/d/x/old'' 420 None = path_request kSendV1 ''/d/x/old,420''"
    by (simp add: push_request_def push_spec_def to_string.simps char_of_def bit_0)
  have "\<exists>c' cs bs. sync_push sample_build sample_codecs mock_ops sample_host ''old'' ''/d/x'' CompressNone ?c =
      Some (status_result None, c')
    \<and> concat cs = [9] \<and> (\<forall>ch \<in> set cs. 0 < length ch \<and> length ch \<le> kMaxChunkSize)
    \<and> list_all2 (\<lambda>ch blk. push_encoder sample_build sample_codecs None ch = Inr blk) cs bs
    \<and> spoken mock_good mock_pending mock_written [] [] c'
        (sync_frames ?c 9 (path_request kStatV1 ''/d/x'')
           @ open_frame 3 0 ''sync:'' # push_frames (opened ''sync:'' 3 9) (path_request kSendV1 ''/d/x/old,420'') bs 0
           @ [clse_frame (opened ''sync:'' 3 9)])"
    using push_round_trip [OF mock.byte_channel_axioms mock_connection_stage [OF push_frames_valid], of sample_host "''old''"
        sample_build CompressNone None 9 "tl metadata_frames" "write_u32_le 0" push_metadata "[]" "''/d/x''" 9
        "tl status_frames" None "[]" sample_codecs]
    by (simp add: codec push_metadata_destination spec kMaxPathLength_def sendable_def push_encoder_def)
  then show ?thesis using enc by (fastforce simp: status_result_def sync_frames_def)
qed

text \<open>The codecs a build and a device share, and the first of them.\<close>

definition codec_feature :: "CompressionCodec \<Rightarrow> string" where
  "codec_feature k =
     (case k of Zstd \<Rightarrow> ''sendrecv_v2_zstd'' | Lz4 \<Rightarrow> ''sendrecv_v2_lz4'' | Brotli \<Rightarrow> ''sendrecv_v2_brotli'')"

definition available :: "Build \<Rightarrow> 't Connection \<Rightarrow> CompressionCodec \<Rightarrow> bool" where
  "available b c k \<longleftrightarrow> built b k \<and> {''sendrecv_v2'', codec_feature k} \<subseteq> set (features c)"

definition requested :: "SyncCompression \<Rightarrow> CompressionCodec option" where
  "requested compression =
     (case compression of CompressZstd \<Rightarrow> Some Zstd | CompressLz4 \<Rightarrow> Some Lz4 | CompressBrotli \<Rightarrow> Some Brotli | _ \<Rightarrow> None)"

text \<open>
  The form of a transfer: without compression it is the plain one; left open it is the first of
  zstd, lz4 and brotli that the build and the device share, or the plain one; a codec that is asked
  for by name and not shared is refused as an argument. A codec that is asked for and shared gives the
  first shared one, which is another codec when a better one is shared too.
\<close>

theorem transfer_codec_correct:
  fixes c :: "'t Connection" and b :: Build
  defines "first \<equiv> find (available b c) [Zstd, Lz4, Brotli]"
  shows "transfer_codec b c CompressNone = Inr None \<and> transfer_codec b c CompressAuto = Inr first
    \<and> (\<forall>k. requested compression = Some k \<longrightarrow>
         (if available b c k then transfer_codec b c compression = Inr first
          else \<exists>m. transfer_codec b c compression = Inl (mk_error InvalidArgument m)))"
proof -
  have z: "has_compression b" if "available b c k" for k
    using that by (cases k) (auto simp: available_def built_def has_compression_def)
  have a: "available b c Zstd \<longleftrightarrow> has_zstd b \<and> supports_feature c ''sendrecv_v2'' \<and> supports_feature c ''sendrecv_v2_zstd''"
    "available b c Lz4 \<longleftrightarrow> has_lz4 b \<and> supports_feature c ''sendrecv_v2'' \<and> supports_feature c ''sendrecv_v2_lz4''"
    "available b c Brotli \<longleftrightarrow> has_brotli b \<and> supports_feature c ''sendrecv_v2'' \<and> supports_feature c ''sendrecv_v2_brotli''"
    by (auto simp: available_def built_def codec_feature_def supports_feature_def)
  have n: "choose_codec b c CompressNone = Inr None" "choose_codec b c CompressAuto = Inr first"
    by (simp_all add: choose_codec_def first_def a Let_def)
  have r: "choose_codec b c compression = (if available b c k then Inr first
        else Inl (mk_error InvalidArgument ((case k of Zstd \<Rightarrow> ''zstd'' | Lz4 \<Rightarrow> ''lz4'' | Brotli \<Rightarrow> ''brotli'')
          @ '' compression is not available for this device or build'')))"
    if "requested compression = Some k" for k
    using that by (cases compression) (auto simp: requested_def choose_codec_def first_def a Let_def)
  have f: "first = None" if "\<not> has_compression b" using that z by (auto simp: first_def)
  have named: "compression \<in> {CompressZstd, CompressLz4, CompressBrotli}" if "requested compression = Some k" for k
    using that by (cases compression) (auto simp: requested_def)
  have some: "first \<noteq> None" if "available b c k" for k
    using that by (cases k) (auto simp: first_def)
  show ?thesis
    using n f
    by (intro conjI allI impI)
      (auto simp: transfer_codec_def r split: option.splits dest: z some named)
qed

theorem transfer_codec_correct_witness:
  "transfer_codec \<lparr>has_zstd = True, has_lz4 = True, has_brotli = False\<rparr>
     ((mock_connection [])\<lparr>features := [''sendrecv_v2'', ''sendrecv_v2_zstd'', ''sendrecv_v2_lz4'']\<rparr>) CompressLz4 =
     Inr (Some Zstd)"
  using transfer_codec_correct [of "\<lparr>has_zstd = True, has_lz4 = True, has_brotli = False\<rparr>"
      "(mock_connection [])\<lparr>features := [''sendrecv_v2'', ''sendrecv_v2_zstd'', ''sendrecv_v2_lz4'']\<rparr>" CompressLz4]
  by (simp add: requested_def available_def built_def codec_feature_def)

text \<open>
  C40. The blocks of a plain push are not fitted to the device: a file of at least 64 KiB cannot be pushed
  to a device whose maximum payload is below 64 KiB and the eight bytes of the block's header. The
  call fails with an argument error, after the metadata was read and the request was sent.
\<close>

theorem push_needs_room:
  fixes c :: "'t Connection" and L :: "'d Codecs"
  assumes "byte_channel T good pending sent" "conn_stage good pending sent base c (fs1 @ fs2) []"
    and "is_regular_file h path" "\<not> denied h path" "read_fault h path = None"
    and "transfer_codec b c compression = Inr None"
    and "open_reply (next_local_id c) fs1 = (Inr rid1, gs1)" "\<forall>f \<in> set fs1. arg1 (header f) \<noteq> next_local_id c + 1"
    and "stream_data (next_local_id c) gs1 =
      id_bytes @ (if ''stat_v2'' \<in> set (features c) then stat_fields e else stat_fields_v1 e) @ rest"
    and "length id_bytes = 4" "length remote \<le> kMaxPathLength" "8 + length remote \<le> unat (max_data c)"
    and "open_reply (next_local_id c + 1) fs2 = (Inr rid2, gs2)"
  defines "dest \<equiv> push_destination path remote (stat_view (''stat_v2'' \<in> set (features c)) e)"
  assumes "8 + length (push_spec dest (local_mode h path)) \<le> unat (max_data c)"
    and "kMaxChunkSize \<le> length (file_content h path)" "unat (max_data c) < 8 + kMaxChunkSize"
  shows "\<exists>c'. sync_push b L T h path remote compression c = Some (Inl too_large, c')"
proof -
  have sp: "spoken good pending sent base (fs1 @ fs2) c []" using spoken_start_Nil [OF assms(2)] by simp
  have un: "unaddressed (next_local_id c + 1) fs2 fs1" using assms(8) by (simp add: unaddressed_def)
  show ?thesis
    by (rule byte_channel.sync_push_too_large [OF assms(1) sp assms(3-7) un assms(9-13)])
      (use assms(15-17) in \<open>simp_all only: dest_def\<close>)
qed

definition large_host :: Host where
  "large_host = sample_host\<lparr>files := (\<lambda>p. if p = ''old'' then Some \<lparr>lf_content = replicate kMaxChunkSize 7, lf_mode = 0x81A4,
     lf_mtime = 0, lf_regular = True\<rparr> else None)\<rparr>"

lemma large_host_old [simp]:
  "is_regular_file large_host ''old''" "\<not> denied large_host ''old''" "read_fault large_host ''old'' = None"
  "file_content large_host ''old'' = replicate kMaxChunkSize 7" "local_mode large_host ''old'' = 420"
  by (simp_all add: large_host_def sample_host_def is_regular_file_def file_content_def local_mode_def posix_stat_def)

theorem push_needs_room_witness:
  "\<exists>c'. sync_push sample_build sample_codecs mock_ops large_host ''old'' ''/d/x'' CompressNone
      (mock_connection (metadata_frames @ status_frames)) = Some (Inl too_large, c')"
proof -
  let ?c = "mock_connection (metadata_frames @ status_frames)"
  have codec: "transfer_codec sample_build ?c CompressNone = Inr None"
    by (simp add: transfer_codec_def choose_codec_def)
  have spec: "push_spec ''/d/x/old'' 420 = ''/d/x/old,420''"
    by (simp add: push_spec_def to_string.simps char_of_def bit_0)
  show ?thesis
    using push_needs_room [OF mock.byte_channel_axioms mock_connection_stage [OF push_frames_valid], of large_host "''old''"
        sample_build CompressNone 9 "tl metadata_frames" "write_u32_le 0" push_metadata "[]" "''/d/x''" 9
        "tl status_frames" sample_codecs]
    by (simp add: codec push_metadata_destination spec kMaxPathLength_def)
      (simp add: kMaxChunkSize_def)
qed

end
