(* ===== verification/Adb_Shell.thy ===== *)
theory Adb_Shell
  imports Adb_Dialogue
begin

text \<open>
  The shell service of \<open>include/adbcpp/shell.hpp\<close> and \<open>src/shell.cpp\<close>: running a command over the v1
  service, whose output is raw, and over the v2 service, whose output is a sequence of packets with
  an id, a length and data.

  The specification of the v2 format is \<open>encode_packets\<close>: the loop over the raw bytes recovers
  exactly the packets that were encoded, and ignores an incomplete packet at the end.
\<close>

section \<open>The shell service\<close>

definition kStdout :: byte where "kStdout = 1"
definition kStderr :: byte where "kStderr = 2"
definition kExit :: byte where "kExit = 3"

record CommandResult =
  cmd_output :: string
  standard_output :: string
  error_output :: string
  exit_code :: byte
  success :: bool

datatype ShellProtocol = ShellAuto | ShellV2 | ShellV1

definition empty_CommandResult :: CommandResult where
  "empty_CommandResult =
     \<lparr>cmd_output = [], standard_output = [], error_output = [], exit_code = 0, success = False\<rparr>"

definition run_v1 :: "'t Transport_ops \<Rightarrow> string \<Rightarrow> ('t Connection, CommandResult) io" where
  "run_v1 T cmd =
     with_stream T (''shell:'' @ cmd)
       (bind_io (read_all T)
         (\<lambda>raw. ok_io (empty_CommandResult\<lparr>cmd_output := string_of_bytes raw, success := True\<rparr>)))"

text \<open>What one packet does to the result.\<close>

definition apply_packet :: "byte \<Rightarrow> byte list \<Rightarrow> CommandResult \<Rightarrow> CommandResult" where
  "apply_packet i data r =
     (if i = kStdout then
        r\<lparr>standard_output := standard_output r @ string_of_bytes data,
          cmd_output := cmd_output r @ string_of_bytes data\<rparr>
      else if i = kStderr then
        r\<lparr>error_output := error_output r @ string_of_bytes data,
          cmd_output := cmd_output r @ string_of_bytes data\<rparr>
      else if i = kExit then (if 1 \<le> length data then r\<lparr>exit_code := hd data\<rparr> else r)
      else r)"

text \<open>The loop over the packets, from an offset into the raw bytes.\<close>

function packets_from :: "byte list \<Rightarrow> nat \<Rightarrow> CommandResult \<Rightarrow> CommandResult" where
  "packets_from raw offset r =
     (if offset + 5 \<le> length raw then
        let i = raw ! offset;
            n = unat (read_u32_le (drop (offset + 1) raw));
            offset1 = offset + 5 in
        if length raw < offset1 + n then r
        else packets_from raw (offset1 + n) (apply_packet i (take n (drop offset1 raw)) r)
      else r)"
  by pat_completeness auto
termination
  by (relation "measure (\<lambda>(raw, offset, r). length raw - offset)") auto

declare packets_from.simps [simp del]

definition shell_result :: "byte list \<Rightarrow> CommandResult" where
  "shell_result raw =
     (let r = packets_from raw 0 empty_CommandResult in r\<lparr>success := exit_code r = 0\<rparr>)"

definition run_v2 :: "'t Transport_ops \<Rightarrow> string \<Rightarrow> ('t Connection, CommandResult) io" where
  "run_v2 T cmd =
     with_stream T (''shell,v2,raw:'' @ cmd)
       (bind_io (read_all T) (\<lambda>raw. ok_io (shell_result raw)))"

definition shell_run ::
  "'t Transport_ops \<Rightarrow> string \<Rightarrow> ShellProtocol \<Rightarrow> ('t Connection, CommandResult) io" where
  "shell_run T cmd protocol c =
     (let use_v2 = (protocol = ShellV2 \<or> protocol = ShellAuto \<and> supports_feature c ''shell_v2'') in
      if \<not> use_v2 then run_v1 T cmd c else run_v2 T cmd c)"

section \<open>The packet format\<close>

type_synonym packet = "byte \<times> byte list"

definition encode_packet :: "packet \<Rightarrow> byte list" where
  "encode_packet p = fst p # write_u32_le (of_nat (length (snd p))) @ snd p"

definition encode_packets :: "packet list \<Rightarrow> byte list" where
  "encode_packets ps = concat (map encode_packet ps)"

lemma encode_packets_simps [simp]:
  "encode_packets [] = []" "encode_packets (p # ps) = encode_packet p @ encode_packets ps"
  by (simp_all add: encode_packets_def)

text \<open>Bytes that hold no complete packet.\<close>

definition incomplete :: "byte list \<Rightarrow> bool" where
  "incomplete bs \<longleftrightarrow> length bs < 5 \<or> length bs < 5 + unat (read_u32_le (tl bs))"

text \<open>The packets of a stream selected by their id, and the result they stand for.\<close>

definition packet_text :: "byte \<Rightarrow> packet list \<Rightarrow> string" where
  "packet_text i ps = concat (map (\<lambda>p. string_of_bytes (snd p)) (filter (\<lambda>p. fst p = i) ps))"

definition exit_status :: "packet list \<Rightarrow> byte" where
  "exit_status ps =
     (let es = filter (\<lambda>p. fst p = kExit \<and> snd p \<noteq> []) ps in if es = [] then 0 else hd (snd (last es)))"

definition packets_result :: "packet list \<Rightarrow> CommandResult" where
  "packets_result ps =
     \<lparr>cmd_output = concat (map (\<lambda>p. string_of_bytes (snd p)) (filter (\<lambda>p. fst p = kStdout \<or> fst p = kStderr) ps)),
      standard_output = packet_text kStdout ps, error_output = packet_text kStderr ps,
      exit_code = exit_status ps, success = (exit_status ps = 0)\<rparr>"

lemma packet_ids_distinct [simp]:
  "kStdout \<noteq> kStderr" "kStderr \<noteq> kStdout" "kStdout \<noteq> kExit" "kExit \<noteq> kStdout" "kStderr \<noteq> kExit" "kExit \<noteq> kStderr"
  by (simp_all add: kStdout_def kStderr_def kExit_def)

lemma packets_from_incomplete:
  assumes "incomplete bs" "raw = pre @ bs" "offset = length pre"
  shows "packets_from raw offset r = r"
  using assms
  by (subst packets_from.simps) (auto simp: incomplete_def Let_def drop_Suc)

lemma packets_from_packet:
  assumes "length (snd p) < 2 ^ 32"
  shows "packets_from (pre @ encode_packet p @ post) (length pre) r =
    packets_from ((pre @ encode_packet p) @ post) (length (pre @ encode_packet p))
      (apply_packet (fst p) (snd p) r)"
proof -
  have "unat (of_nat (length (snd p)) :: u32) = length (snd p)"
    using assms by (simp add: unat_of_nat)
  then show ?thesis
    by (subst packets_from.simps) (simp add: encode_packet_def Let_def drop_Suc nth_append add_ac)
qed

lemma packets_from_fold:
  assumes "\<And>p. p \<in> set ps \<Longrightarrow> length (snd p) < 2 ^ 32" "incomplete rest"
  shows "packets_from (pre @ encode_packets ps @ rest) (length pre) r =
    fold (\<lambda>p. apply_packet (fst p) (snd p)) ps r"
  using assms(1)
proof (induction ps arbitrary: pre r)
  case Nil
  then show ?case using packets_from_incomplete [OF assms(2)] by simp
next
  case (Cons p ps)
  have "packets_from (pre @ encode_packets (p # ps) @ rest) (length pre) r =
    packets_from ((pre @ encode_packet p) @ encode_packets ps @ rest) (length (pre @ encode_packet p))
      (apply_packet (fst p) (snd p) r)"
    using packets_from_packet [of p pre "encode_packets ps @ rest" r] Cons.prems by simp
  also have "\<dots> = fold (\<lambda>p. apply_packet (fst p) (snd p)) ps (apply_packet (fst p) (snd p) r)"
    using Cons.prems by (intro Cons.IH) simp
  finally show ?case by simp
qed

lemma exit_status_snoc [simp]:
  "exit_status (ps @ [p]) = (if fst p = kExit \<and> snd p \<noteq> [] then hd (snd p) else exit_status ps)"
  by (simp add: exit_status_def Let_def)

lemma fold_packets_result:
  "fold (\<lambda>p. apply_packet (fst p) (snd p)) ps empty_CommandResult =
     (packets_result ps)\<lparr>success := False\<rparr>"
proof (induction ps rule: rev_induct)
  case Nil
  then show ?case
    by (simp add: packets_result_def empty_CommandResult_def packet_text_def exit_status_def)
next
  case (snoc p ps)
  then show ?case
    by (cases "snd p") (auto simp: apply_packet_def packets_result_def packet_text_def)
qed

lemma shell_result_packets:
  assumes "\<And>p. p \<in> set ps \<Longrightarrow> length (snd p) < 2 ^ 32" "incomplete rest"
  shows "shell_result (encode_packets ps @ rest) = packets_result ps"
  using packets_from_fold [of ps rest "[]" empty_CommandResult, OF assms]
  by (simp add: shell_result_def fold_packets_result Let_def) (simp add: packets_result_def)

section \<open>Commands over a byte channel\<close>

text \<open>The version that is used, the service that is opened, and the result its output stands for.\<close>

definition uses_v2 :: "ShellProtocol \<Rightarrow> 't Connection \<Rightarrow> bool" where
  "uses_v2 protocol c \<longleftrightarrow> protocol = ShellV2 \<or> protocol = ShellAuto \<and> ''shell_v2'' \<in> set (features c)"

definition shell_service :: "bool \<Rightarrow> string \<Rightarrow> string" where
  "shell_service v2 cmd = (if v2 then ''shell,v2,raw:'' else ''shell:'') @ cmd"

definition command_result :: "bool \<Rightarrow> byte list \<Rightarrow> CommandResult" where
  "command_result v2 raw =
     (if v2 then shell_result raw
      else \<lparr>cmd_output = string_of_bytes raw, standard_output = [], error_output = [], exit_code = 0, success = True\<rparr>)"

context byte_channel
begin

lemma read_all_service:
  fixes c :: "'t Connection"
  assumes "spoken good pending sent base (fs @ tail) c q" "Suc (length svc) < 2 ^ 31"
    and "open_reply (next_local_id c) fs = (Inr rid, gs)" "unaddressed (next_local_id c + 1) tail fs"
    and "stream_end (next_local_id c) gs = Closed"
  shows "\<exists>s. with_stream T svc (bind_io (read_all T) (\<lambda>raw. ok_io (f raw))) c =
      Some (Inr (f (stream_data (next_local_id c) gs)), next_connection c s)
    \<and> spoken good pending sent base tail (next_connection c s) (q @ [open_request_frame c svc])"
proof -
  let ?S = "\<lambda>s. (opened svc (next_local_id c) rid, next_connection c s)"
  let ?d = "stream_data (next_local_id c) gs" and ?q = "q @ [open_request_frame c svc]"
  have body: "\<exists>S. bind_io (read_all T) (\<lambda>raw. ok_io (f raw)) (?S s) = Some (Inr (f ?d), S) \<and> same_link (?S s) S
      \<and> spoken good pending sent base tail (snd S) ?q \<and> stream_closed (fst S) = True"
    if "dialogue good pending sent base tail (?S s) (?S s) ?d (stream_end (next_local_id c) gs) ?q" for s
    using dialogue_read_all [OF that [unfolded assms(5)]] by (auto simp: seq_simps)
  from with_stream_spec [OF assms(1-4), OF this] show ?thesis by simp
qed

lemma shell_run_eq:
  "shell_run T cmd protocol c =
     with_stream T (shell_service (uses_v2 protocol c) cmd)
       (bind_io (read_all T) (\<lambda>raw. ok_io (command_result (uses_v2 protocol c) raw))) c"
  by (auto simp: shell_run_def run_v1_def run_v2_def shell_service_def uses_v2_def command_result_def
      supports_feature_def empty_CommandResult_def)

text \<open>A command, with the requests before it in \<open>q\<close> and the frames after it in \<open>tail\<close>.\<close>

lemma shell_run_spec:
  fixes c :: "'t Connection"
  assumes "spoken good pending sent base (fs @ tail) c q" "length cmd < 2 ^ 31 - 20"
    and "open_reply (next_local_id c) fs = (Inr rid, gs)" "unaddressed (next_local_id c + 1) tail fs"
    and "stream_end (next_local_id c) gs = Closed"
  shows "\<exists>s. shell_run T cmd protocol c =
      Some (Inr (command_result (uses_v2 protocol c) (stream_data (next_local_id c) gs)), next_connection c s)
    \<and> spoken good pending sent base tail (next_connection c s)
        (q @ [open_request_frame c (shell_service (uses_v2 protocol c) cmd)])"
proof -
  have "Suc (length (shell_service (uses_v2 protocol c) cmd)) < 2 ^ 31"
    using assms(2) by (simp add: shell_service_def)
  from read_all_service [OF assms(1) this assms(3-5)] show ?thesis unfolding shell_run_eq .
qed

lemma talks_read_all: "talks base (bind_io (read_all T) (\<lambda>raw. ok_io (f raw)))"
proof -
  have "\<exists>r S'. bind_io (read_all T) (\<lambda>raw. ok_io (f raw)) S = Some (r, S') \<and> same_link S0 S'
      \<and> spoken good pending sent base [] (snd S') q"
    if "dialogue good pending sent base [] S0 S d ev q" for S0 S d ev q
    using dialogue_read_all [OF that] by (auto simp: seq_simps split: if_splits)
  then show ?thesis unfolding talks_def by (metis append_Nil2 opens_simps(1))
qed

lemma shell_run_talks:
  fixes c :: "'t Connection"
  assumes "spoken good pending sent base [] c q" "length cmd < 2 ^ 31 - 20"
  shows "\<exists>r s q'. shell_run T cmd protocol c = Some (r, next_connection c s)
    \<and> spoken good pending sent base [] (next_connection c s)
        (q @ open_request_frame c (shell_service (uses_v2 protocol c) cmd) # q') \<and> opens q' = []"
proof -
  have "Suc (length (shell_service (uses_v2 protocol c) cmd)) < 2 ^ 31"
    using assms(2) by (simp add: shell_service_def)
  from with_stream_talks [OF assms(1) this talks_read_all] show ?thesis unfolding shell_run_eq .
qed

end

section \<open>Properties\<close>

text \<open>
  C31. The v2 packet loop is the inverse of the packet format: from the bytes of any sequence of
  packets it recovers each stream's text, the combined text in the order the device produced it, and
  the status of the last exit packet; an incomplete packet after them changes nothing. Success
  means exit status 0.
\<close>

theorem shell_v2_round_trip:
  assumes "\<And>p. p \<in> set ps \<Longrightarrow> length (snd p) < 2 ^ 32" "incomplete rest"
  shows "shell_result (encode_packets ps @ rest) = packets_result ps"
  by (rule shell_result_packets [OF assms])

theorem shell_v2_round_trip_witness:
  "shell_result (encode_packets [(kStdout, bytes_of_string ''hi''), (kStderr, bytes_of_string ''!''), (kExit, [4])] @ [1, 2]) =
     \<lparr>cmd_output = ''hi!'', standard_output = ''hi'', error_output = ''!'', exit_code = 4, success = False\<rparr>"
proof -
  have "shell_result (encode_packets [(kStdout, bytes_of_string ''hi''), (kStderr, bytes_of_string ''!''), (kExit, [4])] @ [1, 2]) =
      packets_result [(kStdout, bytes_of_string ''hi''), (kStderr, bytes_of_string ''!''), (kExit, [4])]"
    by (rule shell_v2_round_trip) (auto simp: incomplete_def)
  then show ?thesis
    by (simp add: packets_result_def packet_text_def exit_status_def)
qed

text \<open>
  Running a command over any byte channel: when the device accepts the stream and closes it after
  its output, the call returns the result the output stands for, read as packets when the v2
  service was used and verbatim with exit status 0 when it was v1. The v2 service is used when it
  is asked for, or when the choice is left open and the device has the feature. The host sends
  one OPEN with the command line and no CLSE of its own.
\<close>

theorem shell_run_correct:
  fixes c :: "'t Connection" and protocol :: ShellProtocol
  assumes "byte_channel T good pending sent" "conn_stage good pending sent base c fs []"
    and "length cmd < 2 ^ 31 - 20" "open_reply (next_local_id c) fs = (Inr rid, gs)"
    and "stream_end (next_local_id c) gs = Closed"
  defines "v2 \<equiv> protocol = ShellV2 \<or> protocol = ShellAuto \<and> ''shell_v2'' \<in> set (features c)"
    and "raw \<equiv> stream_data (next_local_id c) gs"
  shows "\<exists>c'. shell_run T cmd protocol c =
      Some (Inr (if v2 then shell_result raw
                 else \<lparr>cmd_output = string_of_bytes raw, standard_output = [], error_output = [],
                       exit_code = 0, success = True\<rparr>), c')
    \<and> spoken good pending sent base [] c'
        [open_frame (next_local_id c) (if delayed_ack c then kInitialDelayedAckBytes else 0)
           ((if v2 then ''shell,v2,raw:'' else ''shell:'') @ cmd)]"
proof -
  have "spoken good pending sent base (fs @ []) c []" using spoken_start [OF assms(2)] by simp
  from byte_channel.shell_run_spec [OF assms(1) this assms(3,4) unaddressed_Nil(2) assms(5), of protocol]
  show ?thesis by (fastforce simp: uses_v2_def v2_def raw_def command_result_def shell_service_def)
qed

theorem shell_run_correct_witness:
  "\<exists>c'. shell_run mock_ops ''id'' ShellAuto
        (mock_connection [device_frame kOkay 2 [], device_frame kWrte 2 (bytes_of_string ''o''), device_frame kWrte 2 (bytes_of_string ''k''),
           device_frame kClse 2 []]) =
      Some (Inr \<lparr>cmd_output = ''ok'', standard_output = [], error_output = [], exit_code = 0, success = True\<rparr>, c')
    \<and> spoken mock_good mock_pending mock_written [] [] c' [open_frame 2 0 ''shell:id'']"
  using shell_run_correct [OF mock.byte_channel_axioms, of "[]"
      "mock_connection [device_frame kOkay 2 [], device_frame kWrte 2 (bytes_of_string ''o''), device_frame kWrte 2 (bytes_of_string ''k''),
           device_frame kClse 2 []]"
      "[device_frame kOkay 2 [], device_frame kWrte 2 (bytes_of_string ''o''), device_frame kWrte 2 (bytes_of_string ''k''),
           device_frame kClse 2 []]" "''id''" 9
      "[device_frame kWrte 2 (bytes_of_string ''o''), device_frame kWrte 2 (bytes_of_string ''k''), device_frame kClse 2 []]" ShellAuto]
  by (simp add: open_reply_def)

end
