(* ===== verification/Adb_App.thy ===== *)
theory Adb_App
  imports Adb_Push_Spec Adb_Shell
begin

text \<open>
  Applications on the device, \<open>include/adbcpp/app.hpp\<close> and \<open>src/app.cpp\<close>: installing, uninstalling,
  launching, stopping and asking for an application, all of them shell commands, with a push before
  an installation.

  The specification of quoting is the way \<open>sh\<close> cuts a command line into words, \<open>sh_words\<close>: a quoted
  argument is one word, whatever characters it has.
\<close>

section \<open>Commands\<close>

text \<open>The quote and the backslash of the shell.\<close>

abbreviation quote :: char where "quote \<equiv> CHR 0x27"
abbreviation backslash :: char where "backslash \<equiv> CHR 0x5C"

definition quote_char :: "char \<Rightarrow> string" where
  "quote_char character = (if character = quote then [quote, backslash, quote, quote] else [character])"

definition shell_quote :: "string \<Rightarrow> string" where
  "shell_quote text = [quote] @ concat (map quote_char text) @ [quote]"

type_synonym PackageResult = CommandResult

definition package_result :: "CommandResult \<Rightarrow> PackageResult" where
  "package_result result =
     \<lparr>cmd_output = cmd_output result, standard_output = standard_output result,
      error_output = error_output result, exit_code = exit_code result,
      success = (exit_code result = 0 \<and> str_find ''Success'' (cmd_output result) \<noteq> None)\<rparr>"

definition failure_prefix :: string where
  "failure_prefix = ''Failure [''"

definition failure_reason :: "PackageResult \<Rightarrow> string" where
  "failure_reason r =
     (let prefix = failure_prefix in
      case str_find prefix (cmd_output r) of
        None \<Rightarrow> []
      | Some start \<Rightarrow>
          let reason_start = start + length prefix in
          (case str_find_from '']'' (cmd_output r) reason_start of
             None \<Rightarrow> drop reason_start (cmd_output r)
           | Some end \<Rightarrow> take (end - reason_start) (drop reason_start (cmd_output r))))"

text \<open>The command lines.\<close>

definition remove_command :: "string \<Rightarrow> string" where
  "remove_command path = ''rm -f '' @ shell_quote path"

definition install_command :: "string \<Rightarrow> string \<Rightarrow> string" where
  "install_command options remote =
     (let command = ''pm install'';
          command = (if options \<noteq> [] then (command @ '' '') @ options else command) in
      (command @ '' '') @ shell_quote remote)"

definition uninstall_command :: "string \<Rightarrow> bool \<Rightarrow> string" where
  "uninstall_command package keep_data =
     (let command = ''pm uninstall''; command = (if keep_data then command @ '' -k'' else command) in
      (command @ '' '') @ shell_quote package)"

definition launch_command :: "string \<Rightarrow> string" where
  "launch_command package = ''monkey -p '' @ shell_quote package @ '' -c android.intent.category.LAUNCHER 1''"

definition close_command :: "string \<Rightarrow> string" where
  "close_command package = ''am force-stop '' @ shell_quote package"

definition running_command :: "string \<Rightarrow> string" where
  "running_command package = ''pidof '' @ shell_quote package"

section \<open>Operations\<close>

definition remove_quietly :: "'t Transport_ops \<Rightarrow> string \<Rightarrow> ('t Connection, unit) io" where
  "remove_quietly T path c =
     (case shell_run T (remove_command path) ShellAuto c of None \<Rightarrow> None | Some (_, c') \<Rightarrow> Some (Inr (), c'))"

definition remote_apk :: "string \<Rightarrow> string" where
  "remote_apk apk = ''/data/local/tmp/'' @ filename apk"

definition install ::
  "Build \<Rightarrow> 'd Codecs \<Rightarrow> 't Transport_ops \<Rightarrow> Host \<Rightarrow> string \<Rightarrow> string \<Rightarrow> ('t Connection, PackageResult) io" where
  "install b L T h apk options c =
     (if \<not> is_regular_file h apk then fail_io (mk_error InvalidArgument ''the APK is not a regular file'') c
      else let remote = remote_apk apk; command = install_command options remote in
        (case sync_push b L T h apk remote CompressAuto c of
           None \<Rightarrow> None
         | Some (Inl e, c1) \<Rightarrow> bind_io (remove_quietly T remote) (\<lambda>_. fail_io e) c1
         | Some (Inr _, c1) \<Rightarrow>
             (case shell_run T command ShellAuto c1 of
                None \<Rightarrow> None
              | Some (result, c2) \<Rightarrow>
                  bind_io (remove_quietly T remote)
                    (\<lambda>_. case result of Inl e \<Rightarrow> fail_io e | Inr r \<Rightarrow> ok_io (package_result r)) c2)))"

definition uninstall ::
  "'t Transport_ops \<Rightarrow> string \<Rightarrow> bool \<Rightarrow> ('t Connection, PackageResult) io" where
  "uninstall T package keep_data =
     bind_io (shell_run T (uninstall_command package keep_data) ShellAuto) (\<lambda>result. ok_io (package_result result))"

definition launch :: "'t Transport_ops \<Rightarrow> string \<Rightarrow> ('t Connection, CommandResult) io" where
  "launch T package = shell_run T (launch_command package) ShellAuto"

definition app_close :: "'t Transport_ops \<Rightarrow> string \<Rightarrow> ('t Connection, unit) io" where
  "app_close T package = bind_io (shell_run T (close_command package) ShellAuto) (\<lambda>_. ok_io ())"

definition is_running :: "'t Transport_ops \<Rightarrow> string \<Rightarrow> ('t Connection, bool) io" where
  "is_running T package = bind_io (shell_run T (running_command package) ShellAuto) (\<lambda>result. ok_io (success result))"

section \<open>Words of a command line\<close>

text \<open>
  How \<open>sh\<close> cuts a simple command into words: blanks separate words, a single quote starts and ends a
  part that is taken as it is, a backslash takes the next character as it is. The value is \<open>None\<close> for
  a line that is not just words: one with a character that the shell gives a meaning, or with a quote
  that is not closed.
\<close>

definition sh_special :: "char \<Rightarrow> bool" where
  "sh_special ch \<longleftrightarrow> ch \<in> set ''|&;<>()$`*?[#~!{}'' \<or> ch \<in> {CHR 0x22, CHR 0x0A, CHR 0x00}"

datatype sh_state = Between | Word string | Quoted string | Escaped string

definition sh_part :: "sh_state \<Rightarrow> string" where
  "sh_part st = (case st of Between \<Rightarrow> [] | Word w \<Rightarrow> w | Quoted w \<Rightarrow> w | Escaped w \<Rightarrow> w)"

definition sh_complete :: "sh_state \<Rightarrow> string list" where
  "sh_complete st = (case st of Between \<Rightarrow> [] | _ \<Rightarrow> [sh_part st])"

definition sh_step :: "sh_state \<Rightarrow> char \<Rightarrow> (sh_state \<times> string list) option" where
  "sh_step st ch =
     (case st of
        Quoted w \<Rightarrow> Some (if ch = quote then Word w else Quoted (w @ [ch]), [])
      | Escaped w \<Rightarrow> if ch = CHR 0x0A then None else Some (Word (w @ [ch]), [])
      | _ \<Rightarrow>
          if ch = CHR '' '' \<or> ch = CHR 0x09 then Some (Between, sh_complete st)
          else if ch = quote then Some (Quoted (sh_part st), [])
          else if ch = backslash then Some (Escaped (sh_part st), [])
          else if sh_special ch then None
          else Some (Word (sh_part st @ [ch]), []))"

fun sh_scan :: "sh_state \<Rightarrow> string \<Rightarrow> string list option" where
  "sh_scan st [] = (case st of Quoted _ \<Rightarrow> None | Escaped _ \<Rightarrow> None | _ \<Rightarrow> Some (sh_complete st))"
| "sh_scan st (ch # s) =
     (case sh_step st ch of None \<Rightarrow> None | Some (st', ws) \<Rightarrow> map_option (\<lambda>ws'. ws @ ws') (sh_scan st' s))"

definition sh_words :: "string \<Rightarrow> string list option" where
  "sh_words s = sh_scan Between s"

lemma map_option_append_Nil: "map_option ((@) []) x = x"
  by (cases x) simp_all

lemma sh_scan_quoted:
  "sh_scan (Quoted w) (concat (map quote_char t) @ quote # s) = sh_scan (Word (w @ t)) s"
  by (induction t arbitrary: w) (simp_all add: quote_char_def sh_step_def sh_part_def map_option_append_Nil)

lemma sh_scan_quote [simp]: "sh_scan Between (shell_quote t @ s) = sh_scan (Word t) s"
  using sh_scan_quoted [of "[]" t s]
  by (simp add: shell_quote_def sh_step_def sh_part_def map_option_append_Nil)

lemma sh_scan_blank:
  "sh_scan st s = Some ws \<Longrightarrow> sh_scan st (s @ CHR '' '' # s') = map_option (\<lambda>ws'. ws @ ws') (sh_scan Between s')"
proof (induction s arbitrary: st ws)
  case Nil
  then show ?case by (auto simp: sh_step_def split: sh_state.splits)
next
  case (Cons ch s)
  then obtain st' vs ws' where "sh_step st ch = Some (st', vs)" "sh_scan st' s = Some ws'" "ws = vs @ ws'"
    by (auto split: option.splits)
  with Cons.IH [of st' ws'] show ?case by (simp add: option.map_comp o_def)
qed

text \<open>A command line is put together from a part that is words, a blank, and the rest.\<close>

lemma sh_words_append:
  "sh_words s = Some ws \<Longrightarrow> sh_words (s @ CHR '' '' # s') = map_option (\<lambda>ws'. ws @ ws') (sh_words s')"
  unfolding sh_words_def by (rule sh_scan_blank)

lemma sh_words_Nil: "sh_words [] = Some []"
  by (simp add: sh_words_def sh_complete_def)

lemma sh_words_quote [simp]: "sh_words (shell_quote t) = Some [t]"
  using sh_scan_quote [of t "[]"] by (simp add: sh_words_def sh_complete_def sh_part_def)

section \<open>Properties of the commands\<close>



lemma str_find_iff: "str_find needle hay \<noteq> None \<longleftrightarrow> (\<exists>pre post. hay = pre @ needle @ post)"
proof
  assume "str_find needle hay \<noteq> None"
  then show "\<exists>pre post. hay = pre @ needle @ post" using str_find_Some by blast
next
  assume "\<exists>pre post. hay = pre @ needle @ post"
  then obtain pre post where "hay = pre @ needle @ post" by blast
  then have "take (length needle) (drop (length pre) hay) = needle" by simp
  then show "str_find needle hay \<noteq> None" using str_find_None by blast
qed

lemma failure_reason_cut:
  assumes "str_find failure_prefix (cmd_output r) = Some i"
  shows "\<exists>post. drop (i + length failure_prefix) (cmd_output r) = failure_reason r @ post \<and> CHR '']'' \<notin> set (failure_reason r)
    \<and> (post = [] \<or> hd post = CHR '']'')"
proof -
  let ?rest = "drop (i + length failure_prefix) (cmd_output r)"
  have len: "i + length failure_prefix \<le> length (cmd_output r)" using str_find_Some [OF assms] by simp
  show ?thesis
  proof (cases "str_find '']'' ?rest")
    case None
    with len have "failure_reason r = ?rest"
      by (simp add: failure_reason_def str_find_from_def Let_def assms)
    with None show ?thesis by (simp add: str_find_char_None)
  next
    case (Some k)
    with len have "failure_reason r = take k ?rest"
      by (simp add: failure_reason_def str_find_from_def Let_def assms)
    moreover from Some have "CHR '']'' \<notin> set (take k ?rest)" "?rest = take k ?rest @ CHR '']'' # drop (Suc k) ?rest"
      by (rule str_find_char_SomeE, blast)+
    ultimately show ?thesis by (intro exI [of _ "CHR '']'' # drop (Suc k) ?rest"]) simp
  qed
qed

text \<open>
  The reason of a failure is the text between the first \<open>Failure [\<close> and the next bracket, the rest
  of the output when no bracket follows, and empty without a failure. A package result is a success
  exactly when the command ended with status 0 and printed \<open>Success\<close> somewhere; its texts and its
  status are those of the command.
\<close>

theorem failure_reason_correct:
  fixes result r :: CommandResult
  defines "p \<equiv> package_result result"
  shows "(if \<exists>pre post. cmd_output r = pre @ failure_prefix @ post
      then \<exists>pre post. cmd_output r = pre @ failure_prefix @ failure_reason r @ post
        \<and> (\<forall>j < length pre. take (length failure_prefix) (drop j (cmd_output r)) \<noteq> failure_prefix)
        \<and> CHR '']'' \<notin> set (failure_reason r) \<and> (post = [] \<or> hd post = CHR '']'')
      else failure_reason r = [])
    \<and> success p = (exit_code result = 0 \<and> (\<exists>pre post. cmd_output result = pre @ ''Success'' @ post))
    \<and> p = result\<lparr>success := success p\<rparr>"
proof (intro conjI)
  show "success p = (exit_code result = 0 \<and> (\<exists>pre post. cmd_output result = pre @ ''Success'' @ post))"
    using str_find_iff [of "''Success''" "cmd_output result"] by (simp add: p_def package_result_def)
  show "p = result\<lparr>success := success p\<rparr>" by (simp add: p_def package_result_def)
  let ?out = "cmd_output r" and ?f = "failure_prefix"
  show "if \<exists>pre post. ?out = pre @ ?f @ post
      then \<exists>pre post. ?out = pre @ ?f @ failure_reason r @ post
        \<and> (\<forall>j < length pre. take (length failure_prefix) (drop j ?out) \<noteq> ?f) \<and> CHR '']'' \<notin> set (failure_reason r)
        \<and> (post = [] \<or> hd post = CHR '']'')
      else failure_reason r = []"
  proof (cases "str_find ?f ?out")
    case None
    then have "\<not> (\<exists>pre post. ?out = pre @ ?f @ post)" using str_find_iff by blast
    with None show ?thesis by (simp only: if_False) (simp add: failure_reason_def)
  next
    case (Some i)
    then have ex: "\<exists>pre post. ?out = pre @ ?f @ post" using str_find_iff by blast
    have split: "?out = take i ?out @ ?f @ drop (i + length failure_prefix) ?out" using str_find_Some [OF Some] by simp
    obtain post where post: "drop (i + length failure_prefix) ?out = failure_reason r @ post" "CHR '']'' \<notin> set (failure_reason r)"
      "post = [] \<or> hd post = CHR '']''"
      using failure_reason_cut [OF Some] by blast
    have first: "\<forall>j < length (take i ?out). take (length failure_prefix) (drop j ?out) \<noteq> ?f"
      using str_find_is_first [OF Some] by simp
    show ?thesis
      unfolding if_P [OF ex]
      by (intro exI [of _ "take i ?out"] exI [of _ post] conjI first post(2,3)) (use split post(1) in simp)
  qed
qed

theorem failure_reason_correct_witness:
  "\<exists>pre post. ''x Failure [OLD] y'' = pre @ failure_prefix @
     failure_reason \<lparr>cmd_output = ''x Failure [OLD] y'', standard_output = [], error_output = [], exit_code = 1, success = False\<rparr> @ post
    \<and> (post = [] \<or> hd post = CHR '']'')"
proof -
  let ?r = "\<lparr>cmd_output = ''x Failure [OLD] y'', standard_output = [], error_output = [], exit_code = 1, success = False\<rparr> :: CommandResult"
  have ex: "\<exists>pre post. cmd_output ?r = pre @ failure_prefix @ post"
    by (intro exI [of _ "''x ''"] exI [of _ "''OLD] y''"]) (simp add: failure_prefix_def)
  show ?thesis
    using failure_reason_correct [of ?r, THEN conjunct1, unfolded if_P [OF ex]] by auto
qed

section \<open>Operations over a byte channel\<close>

lemma length_shell_quote: "length (shell_quote t) \<le> 4 * length t + 2"
  by (induction t) (simp_all add: shell_quote_def quote_char_def)

lemma length_filename: "length (filename path) \<le> length path"
  using length_takeWhile_le [of "\<lambda>ch. ch \<noteq> CHR ''/''" "rev path"] by (simp add: filename_def)

lemma spoken_forget: "spoken good pending sent base tail c q \<Longrightarrow> spoken good pending sent base [] c q"
  by (auto simp: spoken_def)

text \<open>The OPEN of a command on the connection as it is.\<close>

definition command_frame :: "'t Connection \<Rightarrow> string \<Rightarrow> Frame" where
  "command_frame c cmd = open_request_frame c (shell_service (uses_v2 ShellAuto c) cmd)"

lemma command_frame_same:
  "same_settings c c' \<Longrightarrow> command_frame c' cmd = command_frame (c\<lparr>next_local_id := next_local_id c'\<rparr>) cmd"
  by (auto simp: same_settings_def command_frame_def uses_v2_def)

lemma opens_command_frame [simp]: "opens (command_frame c cmd # q) = command_frame c cmd # opens q"
  by (simp add: command_frame_def)

context byte_channel
begin

lemma command_spec:
  fixes c :: "'t Connection"
  assumes "spoken good pending sent base (fs @ tail) c q" "length cmd < 2 ^ 31 - 20"
    and "open_reply (next_local_id c) fs = (Inr rid, gs)" "unaddressed (next_local_id c + 1) tail fs"
    and "stream_end (next_local_id c) gs = Closed"
  shows "\<exists>s. shell_run T cmd ShellAuto c =
      Some (Inr (command_result (uses_v2 ShellAuto c) (stream_data (next_local_id c) gs)), next_connection c s)
    \<and> spoken good pending sent base tail (next_connection c s) (q @ [command_frame c cmd])"
  unfolding command_frame_def by (rule shell_run_spec [OF assms])

lemma remove_spec:
  fixes c :: "'t Connection"
  assumes "spoken good pending sent base [] c q" "length path < 2 ^ 28 + 16"
  shows "\<exists>c' q'. remove_quietly T path c = Some (Inr (), c')
    \<and> spoken good pending sent base [] c' (q @ command_frame c (remove_command path) # q') \<and> opens q' = []"
proof -
  have "length (remove_command path) < 2 ^ 31 - 20"
    using length_shell_quote [of path] assms(2) by (simp add: remove_command_def)
  from shell_run_talks [OF assms(1) this, of ShellAuto] obtain r s q' where
    "shell_run T (remove_command path) ShellAuto c = Some (r, next_connection c s)"
    "spoken good pending sent base [] (next_connection c s) (q @ command_frame c (remove_command path) # q')" "opens q' = []"
    unfolding command_frame_def by blast
  then show ?thesis by (auto simp: remove_quietly_def)
qed

text \<open>Whatever happens before it, the file is removed at the end.\<close>

lemma install_talks:
  fixes c :: "'t Connection"
  assumes "spoken good pending sent base [] c q" "is_regular_file h apk"
    and "length apk < 2 ^ 28" "length options < 2 ^ 28"
  shows "\<exists>r c' lid q1 q2. install b L T h apk options c = Some (r, c')
    \<and> spoken good pending sent base [] c'
        (q @ q1 @ command_frame (c\<lparr>next_local_id := lid\<rparr>) (remove_command (remote_apk apk)) # q2) \<and> opens q2 = []"
proof -
  let ?remote = "remote_apk apk" and ?cmd = "install_command options (remote_apk apk)"
  have short: "length ?remote < 2 ^ 28 + 16"
    using assms(3) length_filename [of apk] by (simp add: remote_apk_def)
  have cmd: "length ?cmd < 2 ^ 31 - 20"
    using length_shell_quote [of ?remote] short assms(4) by (simp add: install_command_def Let_def)
  have fin: "\<exists>r c' lid q1 q2. bind_io (remove_quietly T ?remote) f c0 = Some (r, c')
      \<and> spoken good pending sent base [] c'
          (q @ q1 @ command_frame (c\<lparr>next_local_id := lid\<rparr>) (remove_command ?remote) # q2) \<and> opens q2 = []"
    if 0: "spoken good pending sent base [] c0 (q @ q0)" "same_settings c c0" "\<And>c. \<exists>r. f () c = Some (r, c)" for f c0 q0
  proof -
    obtain c' q' where c': "remove_quietly T ?remote c0 = Some (Inr (), c')"
      "spoken good pending sent base [] c' ((q @ q0) @ command_frame c0 (remove_command ?remote) # q')" "opens q' = []"
      using remove_spec [OF 0(1) short] by blast
    obtain r where "f () c' = Some (r, c')" using 0(3) by blast
    with c' show ?thesis
      unfolding command_frame_same [OF 0(2)]
      by (intro exI [of _ r] exI [of _ c'] exI [of _ "next_local_id c0"] exI [of _ q0] exI [of _ q']) (simp add: seq_simps)
  qed
  obtain r1 c1 q1 where 1: "sync_push b L T h apk ?remote CompressAuto c = Some (r1, c1)" "same_settings c c1"
    "spoken good pending sent base [] c1 (q @ q1)"
    using sync_push_talks [OF assms(1)] by blast
  show ?thesis
  proof (cases r1)
    case (Inl e)
    then have "install b L T h apk options c = bind_io (remove_quietly T ?remote) (\<lambda>_. fail_io e) c1"
      using assms(2) 1(1) by (simp add: install_def Let_def)
    then show ?thesis using fin [OF 1(3,2), of "\<lambda>_. fail_io e"] by (simp add: seq_simps)
  next
    case (Inr a)
    obtain r2 s q2 where 2: "shell_run T ?cmd ShellAuto c1 = Some (r2, next_connection c1 s)"
      "spoken good pending sent base [] (next_connection c1 s) (q @ q1 @ command_frame c1 ?cmd # q2)"
      using shell_run_talks [OF 1(3) cmd, of ShellAuto] by (auto simp: command_frame_def)
    let ?f = "\<lambda>_ :: unit. case r2 of Inl e \<Rightarrow> fail_io e | Inr r \<Rightarrow> ok_io (package_result r)"
    have "install b L T h apk options c = bind_io (remove_quietly T ?remote) ?f (next_connection c1 s)"
      using assms(2) 1(1) 2(1) Inr by (simp add: install_def Let_def)
    then show ?thesis
      using fin [OF 2(2) same_settings_trans [OF 1(2) same_settings_next], of ?f]
      by (simp add: seq_simps split: sum.splits)
  qed
qed

text \<open>
  An installation that the device goes along with: metadata on the first stream, the file on the
  second, the package manager on the third; the removal is on the fourth, whatever becomes of it.
\<close>

lemma install_spec:
  fixes c :: "'t Connection"
  assumes "spoken good pending sent base (fs1 @ fs2 @ fs3 @ tail) c q"
    and src: "is_regular_file h apk" "\<not> denied h apk" "read_fault h apk = None"
    and codec: "transfer_codec b c CompressAuto = Inr codec"
    and stat: "open_reply (next_local_id c) fs1 = (Inr rid1, gs1)"
      "unaddressed (next_local_id c + 1) (fs2 @ fs3 @ tail) fs1"
      "stream_data (next_local_id c) gs1 =
         id_bytes @ (if ''stat_v2'' \<in> set (features c) then stat_fields e else stat_fields_v1 e) @ rest"
      "length id_bytes = 4" "length (remote_apk apk) \<le> kMaxPathLength" "8 + length (remote_apk apk) \<le> unat (max_data c)"
    and send: "open_reply (next_local_id c + 1) fs2 = (Inr rid2, gs2)" "unaddressed (next_local_id c + 2) (fs3 @ tail) fs2"
    and pm: "open_reply (next_local_id c + 2) fs3 = (Inr rid3, gs3)" "unaddressed (next_local_id c + 3) tail fs3"
      "stream_end (next_local_id c + 2) gs3 = Closed" "length options < 2 ^ 28"
  defines "dest \<equiv> push_destination apk (remote_apk apk) (stat_view (''stat_v2'' \<in> set (features c)) e)"
    and "st \<equiv> opened ''sync:'' (next_local_id c + 1) rid2"
  assumes room: "length (push_request dest (local_mode h apk) codec) \<le> unat (max_data c)"
      "sendable (push_encoder b L codec) (max_data c) (file_content h apk)"
    and okay: "fst (pstatus (stream_end (next_local_id c + 1) gs2) (stream_data (next_local_id c + 1) gs2)) = Inr ()"
  shows "\<exists>c' q'. install b L T h apk options c =
      Some (Inr (package_result (command_result (uses_v2 ShellAuto c) (stream_data (next_local_id c + 2) gs3))), c')
    \<and> spoken good pending sent base [] c'
        (q @ sync_frames c rid1
               (path_request (if ''stat_v2'' \<in> set (features c) then kStatV2 else kStatV1) (remote_apk apk))
           @ open_request_frame (c\<lparr>next_local_id := next_local_id c + 1\<rparr>) ''sync:'' # push_frames st
               (push_request dest (local_mode h apk) codec)
               (blocks (push_encoder b L codec) (chunks kMaxChunkSize (file_content h apk))) (local_mtime h apk)
           @ clse_frame st
           # command_frame (c\<lparr>next_local_id := next_local_id c + 2\<rparr>) (install_command options (remote_apk apk))
           # command_frame (c\<lparr>next_local_id := next_local_id c + 3\<rparr>) (remove_command (remote_apk apk)) # q')
    \<and> opens q' = []"
proof -
  let ?remote = "remote_apk apk" and ?cmd = "install_command options (remote_apk apk)"
  let ?q1 = "q @ sync_frames c rid1 (path_request (if ''stat_v2'' \<in> set (features c) then kStatV2 else kStatV1) ?remote)
      @ open_request_frame (c\<lparr>next_local_id := next_local_id c + 1\<rparr>) ''sync:'' # push_frames st
          (push_request dest (local_mode h apk) codec)
          (blocks (push_encoder b L codec) (chunks kMaxChunkSize (file_content h apk))) (local_mtime h apk)
      @ [clse_frame st]"
  have short: "length ?remote < 2 ^ 28 + 16" using stat(5) by (simp add: kMaxPathLength_def)
  have cmd: "length ?cmd < 2 ^ 31 - 20"
    using length_shell_quote [of ?remote] short pm(4) by (simp add: install_command_def Let_def)
  obtain s1 where 1: "sync_push b L T h apk ?remote CompressAuto c =
      Some (Inr (), c\<lparr>next_local_id := next_local_id c + 2, conn_session := s1\<rparr>)"
    "spoken good pending sent base (fs3 @ tail) (c\<lparr>next_local_id := next_local_id c + 2, conn_session := s1\<rparr>) ?q1"
    using sync_push_spec [OF assms(1) src codec stat send, where L = L] room okay
    unfolding dest_def st_def by auto
  let ?c1 = "c\<lparr>next_local_id := next_local_id c + 2, conn_session := s1\<rparr>"
  have reply: "open_reply (next_local_id ?c1) fs3 = (Inr rid3, gs3)" "unaddressed (next_local_id ?c1 + 1) tail fs3"
    "stream_end (next_local_id ?c1) gs3 = Closed"
    using pm(1-3) by (simp_all add: add.assoc)
  obtain s2 where 2: "shell_run T ?cmd ShellAuto ?c1 =
      Some (Inr (command_result (uses_v2 ShellAuto c) (stream_data (next_local_id c + 2) gs3)), next_connection ?c1 s2)"
    "spoken good pending sent base tail (next_connection ?c1 s2) (?q1 @ [command_frame ?c1 ?cmd])"
    using command_spec [OF 1(2) cmd reply] by (auto simp: uses_v2_def)
  let ?c2 = "next_connection ?c1 s2"
  obtain c' q' where 3: "remove_quietly T ?remote ?c2 = Some (Inr (), c')"
    "spoken good pending sent base [] c' ((?q1 @ [command_frame ?c1 ?cmd]) @ command_frame ?c2 (remove_command ?remote) # q')"
    "opens q' = []"
    using remove_spec [OF spoken_forget [OF 2(2)] short] by blast
  have frames: "command_frame ?c1 ?cmd = command_frame (c\<lparr>next_local_id := next_local_id c + 2\<rparr>) ?cmd"
    "command_frame ?c2 (remove_command ?remote) =
       command_frame (c\<lparr>next_local_id := next_local_id c + 3\<rparr>) (remove_command ?remote)"
    by (simp_all add: command_frame_def uses_v2_def add.assoc)
  have "install b L T h apk options c =
      Some (Inr (package_result (command_result (uses_v2 ShellAuto c) (stream_data (next_local_id c + 2) gs3))), c')"
    using src(1) 1(1) 2(1) 3(1) by (simp add: install_def Let_def seq_simps)
  with 3(2,3) show ?thesis unfolding frames by (intro exI [of _ c'] exI [of _ q']) simp
qed

end

section \<open>Properties of the operations\<close>

text \<open>
  C29. Uninstalling, launching, stopping and asking for an application, over any byte channel: each opens
  exactly one shell stream with its command line, in the protocol version the device has, and returns
  what the command's result means: the package manager's answer, the result itself, nothing, or
  whether the command ended with status 0. Over the first version, which reports no status, the last
  is always true: an application that does not run is reported as running.
\<close>

theorem app_calls_correct:
  fixes c :: "'t Connection"
  assumes "byte_channel T good pending sent" "conn_stage good pending sent base c fs []"
    and "open_reply (next_local_id c) fs = (Inr rid, gs)" "stream_end (next_local_id c) gs = Closed"
    and "length package < 2 ^ 28"
  defines "v2 \<equiv> ''shell_v2'' \<in> set (features c)" and "raw \<equiv> stream_data (next_local_id c) gs"
    and "asked \<equiv> \<lambda>cmd c'. spoken good pending sent base [] c' [command_frame c cmd]"
  shows "(\<exists>c'. uninstall T package keep c = Some (Inr (package_result (command_result v2 raw)), c')
        \<and> asked (uninstall_command package keep) c')
    \<and> (\<exists>c'. launch T package c = Some (Inr (command_result v2 raw), c') \<and> asked (launch_command package) c')
    \<and> (\<exists>c'. app_close T package c = Some (Inr (), c') \<and> asked (close_command package) c')
    \<and> (\<exists>c'. is_running T package c = Some (Inr (v2 \<longrightarrow> exit_code (shell_result raw) = 0), c')
        \<and> asked (running_command package) c')"
proof -
  have run: "\<exists>c'. shell_run T cmd ShellAuto c = Some (Inr (command_result v2 raw), c') \<and> asked cmd c'"
    if "length cmd < 2 ^ 31 - 20" for cmd
    using byte_channel.command_spec [OF assms(1) spoken_start_Nil [OF assms(2)] that assms(3) unaddressed_Nil(2) assms(4)]
    by (auto simp: v2_def raw_def uses_v2_def asked_def)
  have status: "success (command_result v2 raw) = (v2 \<longrightarrow> exit_code (shell_result raw) = 0)"
    by (simp add: command_result_def shell_result_def Let_def)
  note short = length_shell_quote [of package] assms(5)
  have "length (uninstall_command package keep) < 2 ^ 31 - 20" "length (launch_command package) < 2 ^ 31 - 20"
    "length (close_command package) < 2 ^ 31 - 20" "length (running_command package) < 2 ^ 31 - 20"
    using short by (simp_all add: uninstall_command_def launch_command_def close_command_def running_command_def Let_def)
  note this [THEN run]
  then show ?thesis
    unfolding uninstall_def launch_def app_close_def is_running_def
    by (intro conjI) (auto simp: bind_io_def ok_io_def status)
qed

theorem app_calls_correct_witness:
  "\<exists>c'. is_running mock_ops ''com.x'' (mock_connection [device_frame kOkay 2 [], device_frame kClse 2 []]) = Some (Inr True, c')
    \<and> spoken mock_good mock_pending mock_written [] [] c'
        [command_frame (mock_connection [device_frame kOkay 2 [], device_frame kClse 2 []]) (running_command ''com.x'')]"
  using app_calls_correct [OF mock.byte_channel_axioms, of "[]" "mock_connection [device_frame kOkay 2 [], device_frame kClse 2 []]"
      "[device_frame kOkay 2 [], device_frame kClse 2 []]" 9 "[device_frame kClse 2 []]" "''com.x''"]
  by (simp add: open_reply_def)


text \<open>A device on which the path is not there yet, and which accepts the package on stream 4.\<close>

definition missing_dent :: Dent where
  "missing_dent = sample_dent\<lparr>dn_mode := 0, dn_size := 0, dn_mtime := 0\<rparr>"

definition missing_frames :: "Frame list" where
  "missing_frames = [device_frame kOkay 2 [], device_frame kWrte 2 (write_u32_le 0 @ stat_fields_v1 missing_dent)]"

definition package_frames :: "Frame list" where
  "package_frames = [device_frame kOkay 4 [], device_frame kWrte 4 (bytes_of_string ''Success''), device_frame kClse 4 []]"

lemma install_frames_answer [simp]:
  "open_reply 2 missing_frames = (Inr 9, tl missing_frames)"
  "stream_data 2 (tl missing_frames) = write_u32_le 0 @ stat_fields_v1 missing_dent"
  "\<forall>f \<in> set missing_frames. arg1 (header f) \<noteq> 3" "\<forall>f \<in> set status_frames. arg1 (header f) \<noteq> 4"
  "open_reply 4 package_frames = (Inr 9, tl package_frames)" "\<forall>f \<in> set package_frames. arg1 (header f) \<noteq> 5"
  "stream_data 4 (tl package_frames) = bytes_of_string ''Success''" "stream_end 4 (tl package_frames) = Closed"
  by (simp_all add: missing_frames_def status_frames_def package_frames_def open_reply_def)

lemma install_frames_valid:
  "list_all valid_frame (missing_frames @ status_frames @ package_frames @ [])"
  by (simp add: missing_frames_def status_frames_def package_frames_def encode_status_def stat_fields_v1_def)

lemma remote_apk_old [simp]: "remote_apk ''old'' = ''/data/local/tmp/old''"
  by (simp add: remote_apk_def filename_def)

lemma missing_destination: "push_destination ''old'' remote (stat_view False missing_dent) = remote"
  by (simp add: push_destination_def stat_view_def missing_dent_def)




end
