(* ===== verification/Adb_Log.thy ===== *)
theory Adb_Log
  imports Adb_Prelude
begin

text \<open>
  The process-wide logger of \<open>include/adbcpp/log.hpp\<close> and \<open>src/log.cpp\<close>. The two static variables
  are the record \<open>Logger\<close>; every operation takes the mutex for its whole access to them, so each is
  one step on the record. A sink is a function on the state \<open>'w\<close> it writes to, called after the lock
  is released. An empty \<open>std::function\<close> is \<open>None\<close>.
\<close>

datatype LogLevel = LevelError | LevelWarning | LevelInfo | LevelDebug | LevelTrace

fun level_number :: "LogLevel \<Rightarrow> nat" where
  "level_number LevelError = 0"
| "level_number LevelWarning = 1"
| "level_number LevelInfo = 2"
| "level_number LevelDebug = 3"
| "level_number LevelTrace = 4"

text \<open>The comparison of the enumeration is that of its numbers.\<close>

instantiation LogLevel :: linorder
begin

definition less_eq_LogLevel :: "LogLevel \<Rightarrow> LogLevel \<Rightarrow> bool" where
  "less_eq_LogLevel a b \<longleftrightarrow> level_number a \<le> level_number b"

definition less_LogLevel :: "LogLevel \<Rightarrow> LogLevel \<Rightarrow> bool" where
  "less_LogLevel a b \<longleftrightarrow> level_number a < level_number b"

instance
proof
  fix a b :: LogLevel
  show "a \<le> b \<Longrightarrow> b \<le> a \<Longrightarrow> a = b"
    by (cases a; cases b) (simp_all add: less_eq_LogLevel_def)
qed (auto simp: less_eq_LogLevel_def less_LogLevel_def)

end

type_synonym 'w LogSink = "LogLevel \<Rightarrow> string \<Rightarrow> 'w \<Rightarrow> 'w"

record 'w Logger =
  current_sink :: "'w LogSink option"
  current_level :: LogLevel

definition logger_initial :: "'w Logger" where
  "logger_initial = \<lparr>current_sink = None, current_level = LevelInfo\<rparr>"

definition set_logger :: "'w LogSink option \<Rightarrow> LogLevel \<Rightarrow> 'w Logger \<Rightarrow> 'w Logger" where
  "set_logger sink level lg = lg\<lparr>current_level := level, current_sink := sink\<rparr>"

definition clear_logger :: "'w Logger \<Rightarrow> 'w Logger" where
  "clear_logger lg = lg\<lparr>current_sink := None\<rparr>"

definition is_logging :: "'w Logger \<Rightarrow> LogLevel \<Rightarrow> bool" where
  "is_logging lg level \<longleftrightarrow> current_sink lg \<noteq> None \<and> level \<le> current_level lg"

definition log_message :: "'w Logger \<Rightarrow> LogLevel \<Rightarrow> string \<Rightarrow> 'w \<Rightarrow> 'w" where
  "log_message lg level message w =
     (case current_sink lg of
        None \<Rightarrow> w
      | Some sink \<Rightarrow> if current_level lg < level then w else sink level message w)"

text \<open>A run of the logger: every call in the order in which the calls were made.\<close>

datatype log_event = Install LogLevel | Clear | Write LogLevel string

definition recorder :: "(LogLevel \<times> string) list LogSink" where
  "recorder level message w = w @ [(level, message)]"

fun log_run ::
  "log_event list \<Rightarrow> (LogLevel \<times> string) list Logger \<Rightarrow> (LogLevel \<times> string) list \<Rightarrow> (LogLevel \<times> string) list" where
  "log_run [] lg w = w"
| "log_run (Install level # es) lg w = log_run es (set_logger (Some recorder) level lg) w"
| "log_run (Clear # es) lg w = log_run es (clear_logger lg) w"
| "log_run (Write level message # es) lg w = log_run es lg (log_message lg level message w)"

text \<open>What should be written: a message counts when the last installed level admits it.\<close>

fun admitted :: "LogLevel option \<Rightarrow> log_event list \<Rightarrow> (LogLevel \<times> string) list" where
  "admitted t [] = []"
| "admitted t (Install level # es) = admitted (Some level) es"
| "admitted t (Clear # es) = admitted None es"
| "admitted t (Write level message # es) =
     (if \<exists>l. t = Some l \<and> level \<le> l then (level, message) # admitted t es else admitted t es)"

lemma log_run_admitted:
  assumes "current_sink lg = (case t of None \<Rightarrow> None | Some _ \<Rightarrow> Some recorder)"
    and "\<And>l. t = Some l \<Longrightarrow> current_level lg = l"
  shows "log_run es lg w = w @ admitted t es"
  using assms
proof (induction es lg w arbitrary: t rule: log_run.induct)
  case (2 level es lg w)
  have "log_run es (set_logger (Some recorder) level lg) w = w @ admitted (Some level) es"
    by (rule "2.IH") (simp_all add: set_logger_def)
  then show ?case by simp
next
  case (3 es lg w)
  have "log_run es (clear_logger lg) w = w @ admitted None es"
    by (rule "3.IH") (simp_all add: clear_logger_def)
  then show ?case by simp
next
  case (4 level message es lg w)
  have "log_run es lg (log_message lg level message w) = log_message lg level message w @ admitted t es"
    using "4.prems" by (rule "4.IH")
  with "4.prems" show ?case
    by (cases t) (auto simp: log_message_def recorder_def not_less)
qed simp

section \<open>Properties\<close>

text \<open>
  The logger writes exactly the admitted messages, in order: over any sequence of installing,
  clearing and logging, a message reaches the sink when a sink is installed and the message's level
  is at most the level last installed, and nothing is written before the first installation or
  after a clear. \<open>is_logging\<close> predicts whether a message will reach the sink.
\<close>

theorem logger_writes_admitted:
  "log_run es logger_initial [] = admitted None es
     \<and> log_message lg level m w =
          (if is_logging lg level then the (current_sink lg) level m w else w)"
  using log_run_admitted [of logger_initial None es "[]"]
  by (auto simp: logger_initial_def is_logging_def log_message_def not_less not_le split: option.splits)

end
