(* ===== verification/Adb_Key.thy ===== *)
theory Adb_Key
  imports Adb_Message Adb_Host
begin

text \<open>
  The key pair of \<open>include/adbcpp/crypto/adb_key.hpp\<close> and \<open>src/crypto/adb_key.cpp\<close>: the encoding of the
  public key as Android's \<open>RSAPublicKey\<close> structure, its fingerprint, and the key files shared with adb.

  mbedTLS is not part of the repository. Its calls are the record \<open>Mbedtls\<close>, over the bignums \<open>'m\<close>, the
  key contexts \<open>'k\<close> and a state \<open>'w\<close> that carries its entropy; a call that reports a failure returns
  \<open>None\<close> or a code other than zero. What the theorems need of them are the named conditions
  \<open>documented_mpi\<close> and \<open>documented_base64\<close>.

  A key's files are those of the \<open>Host\<close>; a directory is an entry that is not a regular file.
\<close>

section \<open>The library\<close>

record ('m, 'k, 'w) Mbedtls =
  mpi_lset :: "int \<Rightarrow> 'm option"
  mpi_shift_l :: "'m \<Rightarrow> nat \<Rightarrow> 'm option"
  mpi_mod_mpi :: "'m \<Rightarrow> 'm \<Rightarrow> 'm option"
  mpi_write_binary :: "'m \<Rightarrow> nat \<Rightarrow> byte list option"
  rsa_export :: "'k \<Rightarrow> ('m \<times> 'm) option"
  base64_encode :: "nat \<Rightarrow> byte list \<Rightarrow> byte list option"
  base64_decode :: "nat \<Rightarrow> byte list \<Rightarrow> byte list option"
  md5 :: "byte list \<Rightarrow> byte list"
  pk_setup_rsa :: "'k option"
  drbg_seed :: "'w \<Rightarrow> int \<times> 'w"
  rsa_gen_key :: "'k \<Rightarrow> nat \<Rightarrow> nat \<Rightarrow> 'w \<Rightarrow> (int \<times> 'k) \<times> 'w"
  pk_parse_keyfile :: "byte list option \<Rightarrow> 'w \<Rightarrow> (int \<times> 'k) \<times> 'w"
  pk_write_key_pem :: "'k \<Rightarrow> nat \<Rightarrow> byte list option"
  pk_get_len :: "'k \<Rightarrow> nat"
  pk_sign :: "'k \<Rightarrow> byte list \<Rightarrow> nat \<Rightarrow> 'w \<Rightarrow> (int \<times> byte list) \<times> 'w"

section \<open>The public key structure\<close>

definition kModulusBytes :: nat where "kModulusBytes = 256"
definition kBlobSize :: nat where "kBlobSize = 4 + 4 + kModulusBytes + kModulusBytes + 4"
definition kPemBufferSize :: nat where "kPemBufferSize = 8192"

primrec inverse_steps :: "nat \<Rightarrow> u32 \<Rightarrow> u32 \<Rightarrow> u32" where
  "inverse_steps 0 v x = x"
| "inverse_steps (Suc i) v x = inverse_steps i v (x * (2 - v * x))"

definition inverse_mod_2_32 :: "u32 \<Rightarrow> u32" where
  "inverse_mod_2_32 v = inverse_steps 5 v 1"

definition to_little_endian :: "('m, 'k, 'w) Mbedtls \<Rightarrow> 'm \<Rightarrow> nat \<Rightarrow> byte list Result" where
  "to_little_endian M v n =
     (case mpi_write_binary M v n of
        None \<Rightarrow> Inl (mk_error Crypto ''failed to serialize an RSA component'')
      | Some big_endian \<Rightarrow> Inr (rev big_endian))"

definition compute_rr :: "('m, 'k, 'w) Mbedtls \<Rightarrow> 'm \<Rightarrow> 'm Result" where
  "compute_rr M n =
     (case Option.bind (mpi_lset M 1)
             (\<lambda>rr. Option.bind (mpi_shift_l M rr (8 * kModulusBytes * 2)) (\<lambda>rr. mpi_mod_mpi M rr n)) of
        None \<Rightarrow> Inl (mk_error Crypto ''failed to derive RSA key parameters'')
      | Some rr \<Rightarrow> Inr rr)"

definition bind_result :: "'a Result \<Rightarrow> ('a \<Rightarrow> 'b Result) \<Rightarrow> 'b Result" where
  "bind_result r f = (case r of Inl e \<Rightarrow> Inl e | Inr a \<Rightarrow> f a)"

definition encode_public_key :: "('m, 'k, 'w) Mbedtls \<Rightarrow> 'k \<Rightarrow> string Result" where
  "encode_public_key M pk =
     (case rsa_export M pk of
        None \<Rightarrow> Inl (mk_error Crypto ''failed to export the RSA key'')
      | Some (n, e) \<Rightarrow>
          bind_result (compute_rr M n)
            (\<lambda>rr. bind_result (to_little_endian M n kModulusBytes)
              (\<lambda>modulus. bind_result (to_little_endian M rr kModulusBytes)
                (\<lambda>rr_bytes. bind_result (to_little_endian M e 4)
                  (\<lambda>exponent.
                    let n0 = read_u32_le modulus;
                        blob = write_u32_le (of_nat (kModulusBytes div 4))
                          @ write_u32_le (0 - inverse_mod_2_32 n0) @ modulus @ rr_bytes @ exponent in
                    (case base64_encode M (4 * ((kBlobSize + 2) div 3) + 1) blob of
                       None \<Rightarrow> Inl (mk_error Crypto ''failed to encode the public key'')
                     | Some encoded \<Rightarrow> Inr (string_of_bytes encoded @ '' adbcpp@localhost'')))))))"

section \<open>Keys\<close>

record 'k Key =
  key_pk :: 'k
  key_public :: string

definition hex_digit :: "nat \<Rightarrow> char" where
  "hex_digit i = ''0123456789ABCDEF'' ! i"

definition hex_byte :: "byte \<Rightarrow> string" where
  "hex_byte b = [hex_digit (unat (drop_bit 4 b)), hex_digit (unat (b AND 0x0F))]"

text \<open>The loop over the digest: a colon goes before every byte but the first.\<close>

fun hex_colons :: "nat \<Rightarrow> byte list \<Rightarrow> string" where
  "hex_colons i [] = []"
| "hex_colons i (b # bs) = (if i \<noteq> 0 then '':'' else []) @ hex_byte b @ hex_colons (Suc i) bs"

definition encoded_part :: "string \<Rightarrow> string" where
  "encoded_part key = (case str_find '' '' key of None \<Rightarrow> key | Some i \<Rightarrow> take i key)"

definition fingerprint :: "('m, 'k, 'w) Mbedtls \<Rightarrow> 'k Key \<Rightarrow> string Result" where
  "fingerprint M key =
     (case base64_decode M (4 * ((kBlobSize + 2) div 3) + 1) (bytes_of_string (encoded_part (key_public key))) of
        None \<Rightarrow> Inl (mk_error Crypto ''failed to decode the ADB public key'')
      | Some blob \<Rightarrow> Inr (hex_colons 0 (md5 M blob)))"

definition with_public_key :: "('m, 'k, 'w) Mbedtls \<Rightarrow> 'k \<Rightarrow> 'k Key Result" where
  "with_public_key M pk =
     bind_result (encode_public_key M pk) (\<lambda>s. Inr \<lparr>key_pk = pk, key_public = s\<rparr>)"

definition key_generate :: "('m, 'k, 'w) Mbedtls \<Rightarrow> ('w, 'k Key) st" where
  "key_generate M w =
     (case pk_setup_rsa M of
        None \<Rightarrow> (Inl (mk_error Crypto ''failed to set up an RSA key''), w)
      | Some pk \<Rightarrow>
          (case drbg_seed M w of
             (rc, w1) \<Rightarrow>
               (case (if rc = 0 then rsa_gen_key M pk 2048 65537 w1 else ((rc, pk), w1)) of
                  ((rc, pk), w2) \<Rightarrow>
                    if rc \<noteq> 0 then (Inl (mk_error Crypto ''failed to generate an RSA key''), w2)
                    else (with_public_key M pk, w2))))"

section \<open>The key files\<close>

text \<open>The environment variable \<open>HOME\<close>, and the paths whose existence cannot be checked.\<close>

record Account =
  home_variable :: "string option"
  stat_fails :: "string \<Rightarrow> bool"

definition home_directory :: "Account \<Rightarrow> string Result" where
  "home_directory A =
     (case home_variable A of
        None \<Rightarrow> Inl (mk_error Io ''cannot locate the home directory'')
      | Some v \<Rightarrow> if v = [] then Inl (mk_error Io ''cannot locate the home directory'') else Inr v)"

text \<open>\<open>path / name\<close>, for a name that is not absolute.\<close>

definition path_append :: "string \<Rightarrow> string \<Rightarrow> string" where
  "path_append p q = (if p = [] \<or> last p = CHR ''/'' then p @ q else p @ ''/'' @ q)"

definition key_directory :: "Account \<Rightarrow> string Result" where
  "key_directory A = bind_result (home_directory A) (\<lambda>home. Inr (path_append home ''.android''))"

text \<open>\<open>std::filesystem::create_directories\<close>, and whether it succeeded.\<close>

definition create_directories :: "string \<Rightarrow> Host \<Rightarrow> bool \<times> Host" where
  "create_directories path h =
     (case files h path of
        Some f \<Rightarrow> (\<not> lf_regular f, h)
      | None \<Rightarrow>
          if denied h path then (False, h)
          else (True, h\<lparr>files := (files h)(path :=
                  Some \<lparr>lf_content = [], lf_mode = 0x41ED, lf_mtime = file_clock_now h, lf_regular = False\<rparr>)\<rparr>))"

definition int_to_string :: "int \<Rightarrow> string" where
  "int_to_string i = (if i < 0 then ''-'' @ to_string (nat (- i)) else to_string (nat i))"

text \<open>The private key is read from its file.\<close>

definition key_load :: "('m, 'k, 'w) Mbedtls \<Rightarrow> string \<Rightarrow> Host \<Rightarrow> ('w, 'k Key) st" where
  "key_load M private_path h w =
     (case drbg_seed M w of
        (seed, w1) \<Rightarrow>
          if seed \<noteq> 0 then
            (Inl (mk_error Crypto (''failed to load the ADB private key ('' @ int_to_string seed @ '')'')), w1)
          else
            (case pk_parse_keyfile M (if in_open private_path h then Some (file_content h private_path) else None) w1 of
               ((rc, pk), w2) \<Rightarrow>
                 if rc \<noteq> 0 then
                   (Inl (mk_error Crypto (''failed to load the ADB private key ('' @ int_to_string rc @ '')'')), w2)
                 else (with_public_key M pk, w2)))"

text \<open>One key file: opened by truncation, written, with the two errors the code distinguishes.\<close>

definition store_file :: "string \<Rightarrow> byte list \<Rightarrow> string \<Rightarrow> string \<Rightarrow> (Host, unit) st" where
  "store_file path bs open_error write_error h =
     (case out_open path h of
        (False, h1) \<Rightarrow> (Inl (mk_error Io open_error), h1)
      | (True, h1) \<Rightarrow>
          (case out_write path bs h1 of
             (ok, h2) \<Rightarrow> (if ok then Inr () else Inl (mk_error Io write_error), h2)))"

definition store_key :: "('m, 'k, 'w) Mbedtls \<Rightarrow> string \<Rightarrow> 'k Key \<Rightarrow> (Host, 'k Key) st" where
  "store_key M directory key h =
     (case create_directories directory h of
        (False, h1) \<Rightarrow> (Inl (mk_error Io ''cannot create the ADB key directory''), h1)
      | (True, h1) \<Rightarrow>
          (case pk_write_key_pem M (key_pk key) kPemBufferSize of
             None \<Rightarrow> (Inl (mk_error Crypto ''failed to store the ADB private key''), h1)
           | Some pem \<Rightarrow>
               bind_st (store_file (path_append directory ''adbkey'') pem
                   ''cannot open the ADB private key for writing'' ''failed to store the ADB private key'')
                 (\<lambda>_. bind_st (store_file (path_append directory ''adbkey.pub'')
                     (bytes_of_string (key_public key) @ [10])
                     ''cannot open the ADB public key for writing'' ''failed to store the ADB public key'')
                   (\<lambda>_. ok_st key)) h1))"

definition load_or_generate ::
  "('m, 'k, 'w) Mbedtls \<Rightarrow> Account \<Rightarrow> ('w \<times> Host, 'k Key) st" where
  "load_or_generate M A X =
     (case X of (w, h) \<Rightarrow>
        (case key_directory A of
           Inl e \<Rightarrow> (Inl e, X)
         | Inr directory \<Rightarrow>
             let private_path = path_append directory ''adbkey'' in
             if stat_fails A private_path then (Inl (mk_error Io ''cannot check the ADB private key''), X)
             else if files h private_path \<noteq> None then
               (case key_load M private_path h w of (r, w1) \<Rightarrow> (r, (w1, h)))
             else
               (case key_generate M w of
                  (Inl e, w1) \<Rightarrow> (Inl e, (w1, h))
                | (Inr key, w1) \<Rightarrow> (case store_key M directory key h of (r, h1) \<Rightarrow> (r, (w1, h1))))))"

definition key_sign :: "('m, 'k, 'w) Mbedtls \<Rightarrow> 'k Key \<Rightarrow> byte list \<Rightarrow> ('w, byte list) st" where
  "key_sign M key token w =
     (case drbg_seed M w of
        (seed, w1) \<Rightarrow>
          (case (if seed = 0 then pk_sign M (key_pk key) token (pk_get_len M (key_pk key)) w1 else ((seed, []), w1)) of
             ((rc, signature), w2) \<Rightarrow>
               if rc \<noteq> 0 then
                 (Inl (mk_error Crypto (''failed to sign the token ('' @ int_to_string rc @ '')'')), w2)
               else (Inr signature, w2)))"

section \<open>The inverse modulo a power of two\<close>

text \<open>Every step squares the error \<open>1 - v * inverse\<close>.\<close>

lemma inverse_step_error: "1 - v * (x * (2 - v * x)) = (1 - v * x) ^ 2" for v x :: u32
  by (simp add: power2_eq_square algebra_simps)

lemma inverse_steps_error: "1 - v * inverse_steps i v x = (1 - v * x) ^ (2 ^ i)"
  by (induction i arbitrary: x) (simp_all only: inverse_steps.simps inverse_step_error power_mult [symmetric] power_0 power_one_right power_Suc mult.commute [of "2 ^ _" 2])

lemma even_word_power_zero:
  fixes w :: u32
  assumes "even w"
  shows "w ^ 32 = 0"
proof -
  obtain m where "w = 2 * m" using assms by (auto elim: evenE)
  then have "w ^ 32 = 2 ^ 32 * m ^ 32" by (simp add: power_mult_distrib)
  moreover have "(2 :: u32) ^ 32 = 0" by simp
  ultimately show ?thesis by (simp only: mult_zero_left)
qed

lemma inverse_mod_2_32_mult:
  assumes "odd v"
  shows "v * inverse_mod_2_32 v = 1"
proof -
  have "1 - v * inverse_mod_2_32 v = (1 - v) ^ 32"
    using inverse_steps_error [of v 5 1] by (simp add: inverse_mod_2_32_def)
  also have "\<dots> = 0" by (rule even_word_power_zero) (use assms in simp)
  finally show ?thesis by simp
qed

section \<open>Little-endian numbers\<close>

primrec le_bytes :: "nat \<Rightarrow> nat \<Rightarrow> byte list" where
  "le_bytes 0 v = []"
| "le_bytes (Suc k) v = of_nat (v mod 256) # le_bytes k (v div 256)"

primrec le_value :: "byte list \<Rightarrow> nat" where
  "le_value [] = 0"
| "le_value (b # bs) = unat b + 256 * le_value bs"

lemma length_le_bytes [simp]: "length (le_bytes k v) = k"
  by (induction k arbitrary: v) simp_all

lemma le_value_le_bytes: "le_value (le_bytes k v) = v mod 256 ^ k"
  by (induction k arbitrary: v) (simp_all add: unat_of_nat mod_mult2_eq)

lemma le_value_le_bytes_id [simp]: "v < 256 ^ k \<Longrightarrow> le_value (le_bytes k v) = v"
  by (simp add: le_value_le_bytes)

lemma le_bytes_add: "le_bytes (j + k) v = le_bytes j v @ le_bytes k (v div 256 ^ j)"
  by (induction j arbitrary: v) (simp_all add: div_mult2_eq)

lemma byte_of_nat_u32:
  assumes "j \<le> 24"
  shows "(ucast (drop_bit j (of_nat v :: u32) AND 0xFF) :: byte) = of_nat (v div 2 ^ j mod 256)"
proof -
  have "v div 2 ^ j mod 256 = take_bit 8 (drop_bit j v)" by (simp add: take_bit_eq_mod drop_bit_eq_div)
  moreover have "(ucast (drop_bit j (of_nat v :: u32) AND 0xFF) :: byte) = of_nat (take_bit 8 (drop_bit j v))"
    by (rule bit_word_eqI) (use assms in \<open>auto simp: and_255_eq bit_simps\<close>)
  ultimately show ?thesis by simp
qed

lemma write_u32_le_bytes: "write_u32_le (of_nat v) = le_bytes 4 v"
proof -
  have "write_u32_le (of_nat v) = [of_nat (v mod 256), of_nat (v div 256 mod 256),
      of_nat (v div 256 div 256 mod 256), of_nat (v div 256 div 256 div 256 mod 256)]"
    using byte_of_nat_u32 [of 0 v] byte_of_nat_u32 [of 8 v] byte_of_nat_u32 [of 16 v] byte_of_nat_u32 [of 24 v]
    by (simp add: write_u32_le_def flip: div_mult2_eq)
  also have "\<dots> = le_bytes (Suc (Suc (Suc (Suc 0)))) v"
    by (simp only: le_bytes.simps)
  also have "Suc (Suc (Suc (Suc 0))) = 4" by simp
  finally show ?thesis .
qed

lemma read_le_bytes: "4 \<le> k \<Longrightarrow> read_u32_le (le_bytes k v) = of_nat v"
  using le_bytes_add [of 4 "k - 4" v] by (simp flip: write_u32_le_bytes)

section \<open>The structure of the public key\<close>

text \<open>
  The documented behaviour of the bignum calls, \<open>val\<close> being the number a bignum stands for: they
  compute, and a number is serialised big-endian in a buffer it fits.
\<close>

definition documented_mpi :: "('m, 'k, 'w) Mbedtls \<Rightarrow> ('m \<Rightarrow> nat) \<Rightarrow> bool" where
  "documented_mpi M val \<longleftrightarrow>
     (\<exists>m. mpi_lset M 1 = Some m \<and> val m = 1)
     \<and> (\<forall>m k. \<exists>m'. mpi_shift_l M m k = Some m' \<and> val m' = val m * 2 ^ k)
     \<and> (\<forall>m n. 0 < val n \<longrightarrow> (\<exists>m'. mpi_mod_mpi M m n = Some m' \<and> val m' = val m mod val n))
     \<and> (\<forall>m k. mpi_write_binary M m k = (if val m < 256 ^ k then Some (rev (le_bytes k (val m))) else None))"

text \<open>What Android reads in the structure: the fields of \<open>RSAPublicKey\<close>.\<close>

definition android_blob :: "nat \<Rightarrow> nat \<Rightarrow> byte list" where
  "android_blob n e =
     write_u32_le (of_nat (kModulusBytes div 4)) @ write_u32_le (0 - inverse_mod_2_32 (of_nat n))
       @ le_bytes kModulusBytes n @ le_bytes kModulusBytes (2 ^ (8 * kModulusBytes * 2) mod n) @ le_bytes 4 e"

definition blob_words :: "byte list \<Rightarrow> u32" where "blob_words b = read_u32_le b"
definition blob_n0inv :: "byte list \<Rightarrow> u32" where "blob_n0inv b = read_u32_le (drop 4 b)"
definition blob_modulus :: "byte list \<Rightarrow> nat" where "blob_modulus b = le_value (take kModulusBytes (drop 8 b))"
definition blob_rr :: "byte list \<Rightarrow> nat" where
  "blob_rr b = le_value (take kModulusBytes (drop (8 + kModulusBytes) b))"
definition blob_exponent :: "byte list \<Rightarrow> nat" where
  "blob_exponent b = le_value (drop (8 + 2 * kModulusBytes) b)"

lemma length_android_blob: "length (android_blob n e) = kBlobSize"
  by (simp add: android_blob_def kBlobSize_def)

lemma kModulusBytes_ge [simp]: "4 \<le> kModulusBytes"
  by (simp add: kModulusBytes_def)

lemma blob_fields:
  assumes "n < 256 ^ kModulusBytes" "0 < n" "e < 2 ^ 32"
  shows "blob_words (android_blob n e) = 64"
    and "blob_n0inv (android_blob n e) = - inverse_mod_2_32 (of_nat n)"
    and "blob_modulus (android_blob n e) = n"
    and "blob_rr (android_blob n e) = 2 ^ (8 * kModulusBytes * 2) mod n"
    and "blob_exponent (android_blob n e) = e"
proof -
  define rr where "rr = 2 ^ (8 * kModulusBytes * 2) mod n"
  have blob: "android_blob n e = write_u32_le 64 @ write_u32_le (- inverse_mod_2_32 (of_nat n))
      @ le_bytes kModulusBytes n @ le_bytes kModulusBytes rr @ le_bytes 4 e"
    unfolding android_blob_def rr_def by (simp add: kModulusBytes_def)
  have rr: "rr < 256 ^ kModulusBytes" using assms(1,2) by (simp add: rr_def less_trans [OF mod_less_divisor])
  show "blob_words (android_blob n e) = 64" by (simp add: blob_words_def blob)
  show "blob_n0inv (android_blob n e) = - inverse_mod_2_32 (of_nat n)" by (simp add: blob_n0inv_def blob)
  show "blob_modulus (android_blob n e) = n" using assms(1) by (simp add: blob_modulus_def blob)
  show "blob_rr (android_blob n e) = 2 ^ (8 * kModulusBytes * 2) mod n"
    unfolding rr_def [symmetric] using rr by (simp add: blob_rr_def blob)
  show "blob_exponent (android_blob n e) = e"
    using assms(3) by (simp add: blob_exponent_def blob)
qed

lemma n0inv_law:
  assumes "odd n"
  shows "(- inverse_mod_2_32 (of_nat n)) * of_nat n = -1"
  using inverse_mod_2_32_mult [of "of_nat n"] assms by (simp add: mult.commute)

lemma to_little_endian_fits:
  assumes "documented_mpi M val"
  shows "to_little_endian M m k =
    (if val m < 256 ^ k then Inr (le_bytes k (val m)) else Inl (mk_error Crypto ''failed to serialize an RSA component''))"
  using assms by (simp add: to_little_endian_def documented_mpi_def)

lemma compute_rr_value:
  assumes "documented_mpi M val" "0 < val n"
  obtains rr where "compute_rr M n = Inr rr" "val rr = 2 ^ (8 * kModulusBytes * 2) mod val n"
proof -
  obtain one sh rr where "mpi_lset M 1 = Some one" "mpi_shift_l M one (8 * kModulusBytes * 2) = Some sh"
    "mpi_mod_mpi M sh n = Some rr" "val rr = 2 ^ (8 * kModulusBytes * 2) mod val n"
    using assms unfolding documented_mpi_def by (metis mult_1)
  then show thesis by (intro that [of rr]) (simp_all add: compute_rr_def)
qed

lemma encode_public_key_blob:
  assumes "documented_mpi M val" "rsa_export M pk = Some (n, e)" "0 < val n" "val n < 256 ^ kModulusBytes"
    and "val e < 2 ^ 32"
  shows "encode_public_key M pk =
    (case base64_encode M (4 * ((kBlobSize + 2) div 3) + 1) (android_blob (val n) (val e)) of
       None \<Rightarrow> Inl (mk_error Crypto ''failed to encode the public key'')
     | Some encoded \<Rightarrow> Inr (string_of_bytes encoded @ '' adbcpp@localhost''))"
proof -
  obtain rr where rr: "compute_rr M n = Inr rr" "val rr = 2 ^ (8 * kModulusBytes * 2) mod val n"
    using compute_rr_value [OF assms(1,3)] .
  have "val rr < 256 ^ kModulusBytes"
    unfolding rr(2) using assms(3,4) by (meson less_trans mod_less_divisor)
  moreover have "val e < 256 ^ 4" using assms(5) by simp
  ultimately show ?thesis
    using assms(2,4) rr
    by (simp add: encode_public_key_def to_little_endian_fits [OF assms(1)] bind_result_def read_le_bytes
        android_blob_def Let_def)
qed

section \<open>Fingerprints\<close>

text \<open>
  The documented behaviour of the base64 calls: a buffer of the documented size is enough, the
  encoding has no space, and decoding is its inverse.
\<close>

definition documented_base64 :: "('m, 'k, 'w) Mbedtls \<Rightarrow> bool" where
  "documented_base64 M \<longleftrightarrow>
     (\<forall>cap xs. 4 * ((length xs + 2) div 3) + 1 \<le> cap \<longrightarrow>
        (\<exists>ys. base64_encode M cap xs = Some ys \<and> 32 \<notin> set ys
           \<and> (\<forall>cap'. length xs \<le> cap' \<longrightarrow> base64_decode M cap' ys = Some xs)))"

lemma documented_base64E:
  assumes "documented_base64 M"
  shows "\<exists>ys. base64_encode M (4 * ((length xs + 2) div 3) + 1) xs = Some ys \<and> 32 \<notin> set ys
    \<and> (\<forall>cap'. length xs \<le> cap' \<longrightarrow> base64_decode M cap' ys = Some xs)"
  using assms unfolding documented_base64_def by blast

lemma hex_colons_join: "hex_colons i bs = (if i \<noteq> 0 \<and> bs \<noteq> [] then '':'' else []) @ join_on CHR '':'' (map hex_byte bs)"
proof (induction bs arbitrary: i)
  case (Cons b bs)
  then show ?case by (cases bs) simp_all
qed simp

lemma string_of_bytes_space:
  assumes "32 \<notin> set bs"
  shows "CHR '' '' \<notin> set (string_of_bytes bs)"
proof
  assume "CHR '' '' \<in> set (string_of_bytes bs)"
  then have "of_nat (of_char CHR '' '') \<in> set (bytes_of_string (string_of_bytes bs))"
    unfolding bytes_of_string_def set_map by (rule imageI)
  with assms show False by simp
qed

lemma encoded_part_label:
  "32 \<notin> set ys \<Longrightarrow> bytes_of_string (encoded_part (string_of_bytes ys @ '' '' @ label)) = ys"
  by (simp add: encoded_part_def string_of_bytes_space)

lemma encode_then_fingerprint:
  assumes "documented_mpi M val" "documented_base64 M" "rsa_export M pk = Some (n, e)"
    and "0 < val n" "val n < 256 ^ kModulusBytes" "val e < 2 ^ 32"
  shows "\<exists>enc. with_public_key M pk = Inr \<lparr>key_pk = pk, key_public = string_of_bytes enc @ '' adbcpp@localhost''\<rparr>
    \<and> base64_decode M kBlobSize enc = Some (android_blob (val n) (val e))
    \<and> fingerprint M \<lparr>key_pk = pk, key_public = string_of_bytes enc @ '' adbcpp@localhost''\<rparr> =
        Inr (join_on CHR '':'' (map hex_byte (md5 M (android_blob (val n) (val e)))))"
proof -
  define blob where "blob = android_blob (val n) (val e)"
  have len: "length blob = kBlobSize" by (simp add: blob_def length_android_blob)
  obtain enc where enc: "base64_encode M (4 * ((kBlobSize + 2) div 3) + 1) blob = Some enc" "32 \<notin> set enc"
    and dec: "\<And>cap. kBlobSize \<le> cap \<Longrightarrow> base64_decode M cap enc = Some blob"
    using documented_base64E [OF assms(2), of blob] unfolding len by blast
  have "fingerprint M \<lparr>key_pk = pk, key_public = string_of_bytes enc @ '' '' @ ''adbcpp@localhost''\<rparr> =
      Inr (join_on CHR '':'' (map hex_byte (md5 M blob)))"
    unfolding fingerprint_def Key.select_convs encoded_part_label [OF enc(2)]
    by (subst dec) (simp_all add: hex_colons_join kBlobSize_def kModulusBytes_def)
  moreover have "encode_public_key M pk = Inr (string_of_bytes enc @ '' adbcpp@localhost'')"
    using encode_public_key_blob [OF assms(1,3-6), folded blob_def] enc(1) by simp
  ultimately show ?thesis
    using dec [OF order_refl]
    by (intro exI [of _ enc]) (simp add: with_public_key_def bind_result_def flip: blob_def)
qed

section \<open>Key files\<close>

definition room_for :: "Host \<Rightarrow> string \<Rightarrow> bool" where
  "room_for h path \<longleftrightarrow> \<not> denied h path \<and> (files h path = None \<or> is_regular_file h path)"

lemma room_for_cong: "files h' p = files h p \<Longrightarrow> denied h' = denied h \<Longrightarrow> room_for h' p = room_for h p"
  by (simp add: room_for_def is_regular_file_def)

lemma store_file_ok:
  assumes "room_for h path" "length bs \<le> disk_free h"
  shows "\<exists>h'. (\<forall>e1 e2. store_file path bs e1 e2 h = (Inr (), h')) \<and> file_content h' path = bs \<and> files h' path \<noteq> None
    \<and> (\<forall>p. p \<noteq> path \<longrightarrow> files h' p = files h p) \<and> denied h' = denied h
    \<and> disk_free h \<le> disk_free h' + length bs"
proof -
  obtain h1 where h1: "out_open path h = (True, h1)" "denied h1 = denied h"
    using assms(1) by (auto simp: room_for_def out_open_def Let_def split: option.splits)
  note open1 = out_open_content [OF h1(1)] out_open_others [OF h1(1)]
  obtain h2 where h2: "out_write path bs h1 = (True, h2)" "file_content h2 path = file_content h1 path @ bs"
    "files h2 path \<noteq> None" "disk_free h2 = disk_free h1 - length bs" "\<forall>p. p \<noteq> path \<longrightarrow> files h2 p = files h1 p"
    using out_write_fits [of h1 path bs] open1(1) assms(2) by fastforce
  have "denied h2 = denied h"
    using h2(1) h1(2) by (auto simp: out_write_def split: option.splits)
  with h1 h2 open1 assms(2) show ?thesis by (auto simp: store_file_def)
qed

lemma store_file_others:
  "store_file path bs e1 e2 h = (r, h') \<Longrightarrow> p \<noteq> path \<Longrightarrow> files h' p = files h p"
  using out_open_others
  by (fastforce simp: store_file_def out_write_def split: prod.splits bool.splits option.splits)

lemma create_directories_others:
  "create_directories d h = (ok, h') \<Longrightarrow> p \<noteq> d \<Longrightarrow> files h' p = files h p"
  by (auto simp: create_directories_def split: option.splits if_splits)

lemma store_key_others:
  assumes "store_key M d key h = (r, h')" "p \<noteq> d" "p \<noteq> path_append d ''adbkey''" "p \<noteq> path_append d ''adbkey.pub''"
  shows "files h' p = files h p"
  using assms create_directories_others store_file_others
  by (auto simp: store_key_def bind_st_def ok_st_def split: prod.splits bool.splits option.splits sum.splits)

section \<open>A sample library\<close>

text \<open>
  Bignums are numbers, a key is its modulus and exponent, and a key file is the modulus in 256 bytes
  followed by the exponent in four. The text encoding writes a byte as two, so that no space occurs.
\<close>

definition sample_encode :: "byte list \<Rightarrow> byte list" where
  "sample_encode xs = concat (map (\<lambda>b. if b = 32 then [0, 0] else [1, b]) xs)"

fun sample_decode :: "byte list \<Rightarrow> byte list" where
  "sample_decode (a # b # bs) = (if a = 0 then 32 else b) # sample_decode bs"
| "sample_decode bs = []"

definition sample_mbedtls :: "(nat, nat \<times> nat, nat) Mbedtls" where
  "sample_mbedtls =
     \<lparr>mpi_lset = (\<lambda>z. Some (nat z)), mpi_shift_l = (\<lambda>m k. Some (m * 2 ^ k)),
      mpi_mod_mpi = (\<lambda>m n. if n = 0 then None else Some (m mod n)),
      mpi_write_binary = (\<lambda>m k. if m < 256 ^ k then Some (rev (le_bytes k m)) else None),
      rsa_export = Some, base64_encode = (\<lambda>cap xs. Some (sample_encode xs)),
      base64_decode = (\<lambda>cap xs. Some (sample_decode xs)), md5 = take 16, pk_setup_rsa = Some (0, 0),
      drbg_seed = (\<lambda>w. (0, Suc w)), rsa_gen_key = (\<lambda>pk bits e w. ((0, (2 * w + 1, e)), w)),
      pk_parse_keyfile = (\<lambda>f w. case f of None \<Rightarrow> ((-1, (0, 0)), w)
        | Some bs \<Rightarrow> ((0, (le_value (take 256 bs), le_value (drop 256 bs))), w)),
      pk_write_key_pem = (\<lambda>pk cap. Some (le_bytes 256 (fst pk) @ le_bytes 4 (snd pk))),
      pk_get_len = (\<lambda>pk. 256), pk_sign = (\<lambda>pk token len w. ((0, token), w))\<rparr>"

lemma sample_mbedtls_sel [simp]:
  "rsa_export sample_mbedtls = Some" "pk_setup_rsa sample_mbedtls = Some (0, 0)"
  "drbg_seed sample_mbedtls w = (0, Suc w)" "rsa_gen_key sample_mbedtls pk bits e w = ((0, (2 * w + 1, e)), w)"
  "pk_write_key_pem sample_mbedtls pk cap = Some (le_bytes 256 (fst pk) @ le_bytes 4 (snd pk))"
  "pk_parse_keyfile sample_mbedtls (Some bs) w = ((0, (le_value (take 256 bs), le_value (drop 256 bs))), w)"
  by (simp_all add: sample_mbedtls_def)

lemma sample_decode_encode: "sample_decode (sample_encode xs) = xs" "32 \<notin> set (sample_encode xs)"
  by (induction xs) (auto simp: sample_encode_def)

lemma sample_documented: "documented_mpi sample_mbedtls id" "documented_base64 sample_mbedtls"
  by (simp_all add: documented_mpi_def documented_base64_def sample_mbedtls_def sample_decode_encode)

section \<open>Properties\<close>

text \<open>
  The Newton iteration computes inverses modulo \<open>2 ^ 32\<close>: after its five steps the product with
  the argument is one exactly for the odd words, those that have an inverse.
\<close>

theorem inverse_mod_2_32_correct: "v * inverse_mod_2_32 v = 1 \<longleftrightarrow> odd v"
proof
  assume "v * inverse_mod_2_32 v = 1"
  then have "odd (v * inverse_mod_2_32 v)" by simp
  then show "odd v" by (simp only: even_mult_iff) blast
qed (rule inverse_mod_2_32_mult)

text \<open>
  C32. The public key string is Android's structure: for an RSA key whose modulus is odd and fits 2048
  bits, it is the base64 text of 524 bytes and the label. Reading the structure's fields back gives 64
  words, the modulus, the exponent, the Montgomery constant \<open>R\<^sup>2\<close> modulo the modulus for \<open>R = 2 ^ 2048\<close>,
  and a word \<open>n0inv\<close> whose product with the modulus is \<open>-1\<close> modulo \<open>2 ^ 32\<close>.
\<close>

theorem public_key_is_android_format:
  assumes "documented_mpi M val" "documented_base64 M" "rsa_export M pk = Some (n, e)"
    and "odd (val n)" "val n < 256 ^ kModulusBytes" "val e < 2 ^ 32"
  shows "\<exists>enc blob. encode_public_key M pk = Inr (string_of_bytes enc @ '' adbcpp@localhost'')
    \<and> base64_decode M kBlobSize enc = Some blob \<and> length blob = 524 \<and> blob_words blob = 64
    \<and> blob_n0inv blob * of_nat (val n) = -1 \<and> blob_modulus blob = val n
    \<and> blob_rr blob = (2 ^ (8 * kModulusBytes)) ^ 2 mod val n \<and> blob_exponent blob = val e"
proof -
  have "0 < val n" using assms(4) by (cases "val n") auto
  obtain enc where enc: "with_public_key M pk = Inr \<lparr>key_pk = pk, key_public = string_of_bytes enc @ '' adbcpp@localhost''\<rparr>"
    "base64_decode M kBlobSize enc = Some (android_blob (val n) (val e))"
    using encode_then_fingerprint [OF assms(1-3) \<open>0 < val n\<close> assms(5,6)] by blast
  have "encode_public_key M pk = Inr (string_of_bytes enc @ '' adbcpp@localhost'')"
    using enc(1) by (auto simp: with_public_key_def bind_result_def split: sum.splits)
  moreover have "length (android_blob (val n) (val e)) = 524"
    by (simp add: length_android_blob kBlobSize_def kModulusBytes_def)
  moreover have "blob_rr (android_blob (val n) (val e)) = (2 ^ (8 * kModulusBytes)) ^ 2 mod val n"
    unfolding blob_fields(4) [OF assms(5) \<open>0 < val n\<close> assms(6)] power_mult [symmetric] ..
  ultimately show ?thesis
    using enc(2) blob_fields(1-3,5) [OF assms(5) \<open>0 < val n\<close> assms(6)] n0inv_law [OF assms(4)]
    by (intro exI conjI) simp_all
qed

theorem public_key_is_android_format_witness:
  "\<exists>enc blob. encode_public_key sample_mbedtls (15, 65537) = Inr (string_of_bytes enc @ '' adbcpp@localhost'')
    \<and> base64_decode sample_mbedtls kBlobSize enc = Some blob \<and> length blob = 524 \<and> blob_words blob = 64
    \<and> blob_n0inv blob * 15 = -1 \<and> blob_modulus blob = 15
    \<and> blob_rr blob = (2 ^ (8 * kModulusBytes)) ^ 2 mod 15 \<and> blob_exponent blob = 65537"
  using public_key_is_android_format [OF sample_documented, of "(15, 65537)" 15 65537]
  by (simp add: kModulusBytes_def [THEN arg_cong [of _ _ "power 256"]])

text \<open>
  A key whose modulus needs more than 2048 bits is refused with a \<open>Crypto\<close> error, and never encoded
  truncated.
\<close>

theorem large_modulus_is_refused:
  assumes "documented_mpi M val" "rsa_export M pk = Some (n, e)" "256 ^ kModulusBytes \<le> val n"
  shows "encode_public_key M pk = Inl (mk_error Crypto ''failed to serialize an RSA component'')"
proof -
  have "0 < val n" by (rule less_le_trans [OF _ assms(3)]) simp
  then obtain rr where "compute_rr M n = Inr rr"
    using compute_rr_value [OF assms(1)] by blast
  with assms show ?thesis
    by (simp add: encode_public_key_def to_little_endian_fits [OF assms(1)] bind_result_def)
qed

theorem large_modulus_is_refused_witness:
  "encode_public_key sample_mbedtls (256 ^ kModulusBytes + 1, 65537) =
     Inl (mk_error Crypto ''failed to serialize an RSA component'')"
  using large_modulus_is_refused [OF sample_documented(1), of "(256 ^ kModulusBytes + 1, 65537)"]
  by simp

text \<open>
  The fingerprint is the MD5 of the public key structure, whatever the base64 text looks like: it
  is written as colon-separated pairs of hexadecimal digits, one per byte of the digest.
\<close>

theorem fingerprint_is_md5_of_structure:
  assumes "documented_mpi M val" "documented_base64 M" "rsa_export M pk = Some (n, e)"
    and "0 < val n" "val n < 256 ^ kModulusBytes" "val e < 2 ^ 32"
  shows "\<exists>key. with_public_key M pk = Inr key \<and> key_pk key = pk
    \<and> fingerprint M key = Inr (join_on CHR '':'' (map hex_byte (md5 M (android_blob (val n) (val e)))))"
  using encode_then_fingerprint [OF assms] by force

theorem fingerprint_is_md5_of_structure_witness:
  "\<exists>key. with_public_key sample_mbedtls (15, 65537) = Inr key \<and> key_pk key = (15, 65537)
    \<and> fingerprint sample_mbedtls key =
        Inr (join_on CHR '':'' (map hex_byte (md5 sample_mbedtls (android_blob 15 65537))))"
  using fingerprint_is_md5_of_structure [OF sample_documented, of "(15, 65537)" 15 65537]
  by (simp add: kModulusBytes_def [THEN arg_cong [of _ _ "power 256"]])

text \<open>
  Loading or generating a key touches no file but the key's own: whatever happens, only the key
  directory, \<open>adbkey\<close> and \<open>adbkey.pub\<close> can differ afterwards, and when there is a private key already,
  nothing on disk changes.
\<close>

theorem key_files_are_the_only_ones_touched:
  assumes "key_directory A = Inr d" "load_or_generate M A (w, h) = (r, (w', h'))"
  shows "(\<forall>p. p \<notin> {d, path_append d ''adbkey'', path_append d ''adbkey.pub''} \<longrightarrow> files h' p = files h p)
    \<and> (files h (path_append d ''adbkey'') \<noteq> None \<longrightarrow> h' = h)"
  using assms store_key_others [of M d _ h]
  by (fastforce simp: load_or_generate_def Let_def split: if_splits prod.splits sum.splits)

definition key_account :: Account where
  "key_account = \<lparr>home_variable = Some ''/home/u'', stat_fails = (\<lambda>p. False)\<rparr>"

definition key_host :: Host where
  "key_host = \<lparr>files = (\<lambda>p. None), denied = (\<lambda>p. False), disk_free = 4096, read_fault = (\<lambda>p. None),
     system_now = 0, file_clock_now = 0\<rparr>"

lemma key_account_directory [simp]: "key_directory key_account = Inr ''/home/u/.android''"
  by (simp add: key_directory_def key_account_def home_directory_def bind_result_def path_append_def)

theorem key_files_are_the_only_ones_touched_witness:
  "\<exists>r w' h'. load_or_generate sample_mbedtls key_account (0, key_host) = (r, (w', h'))
    \<and> files h' ''/etc/passwd'' = None"
proof -
  obtain r w' h' where *: "load_or_generate sample_mbedtls key_account (0, key_host) = (r, (w', h'))"
    by (metis surj_pair)
  from key_files_are_the_only_ones_touched [OF _ this] have "files h' ''/etc/passwd'' = files key_host ''/etc/passwd''"
    by (simp add: path_append_def)
  with * show ?thesis by (simp add: key_host_def)
qed

text \<open>What storing a key leaves on the disk.\<close>

lemma path_append_distinct [simp]:
  "path_append d ''adbkey'' \<noteq> d" "path_append d ''adbkey.pub'' \<noteq> d"
  "path_append d ''adbkey.pub'' \<noteq> path_append d ''adbkey''" "path_append d ''adbkey'' \<noteq> path_append d ''adbkey.pub''"
  by (auto simp: path_append_def)

lemma store_key_ok:
  assumes "\<not> denied h d" "\<not> is_regular_file h d" "room_for h (path_append d ''adbkey'')" "room_for h (path_append d ''adbkey.pub'')"
    and "pk_write_key_pem M (key_pk key) kPemBufferSize = Some pem"
    and "length pem + length (key_public key) + 1 \<le> disk_free h"
  shows "\<exists>h'. store_key M d key h = (Inr key, h') \<and> in_open (path_append d ''adbkey'') h'
    \<and> file_content h' (path_append d ''adbkey'') = pem
    \<and> file_content h' (path_append d ''adbkey.pub'') = bytes_of_string (key_public key) @ [10]"
proof -
  let ?priv = "path_append d ''adbkey''" and ?pub = "path_append d ''adbkey.pub''"
  obtain h1 where h1: "create_directories d h = (True, h1)" "denied h1 = denied h" "disk_free h1 = disk_free h"
    using assms(1,2) by (auto simp: create_directories_def is_regular_file_def split: option.splits)
  have others: "files h1 ?priv = files h ?priv" "files h1 ?pub = files h ?pub"
    using create_directories_others [OF h1(1)] by simp_all
  have room: "room_for h1 ?priv" "length pem \<le> disk_free h1"
    using assms(3,6) h1 room_for_cong [OF others(1) h1(2)] by simp_all
  obtain h2 where h2: "\<And>e1 e2. store_file ?priv pem e1 e2 h1 = (Inr (), h2)" "file_content h2 ?priv = pem"
    "files h2 ?priv \<noteq> None" "\<And>p. p \<noteq> ?priv \<Longrightarrow> files h2 p = files h1 p" "denied h2 = denied h1"
    "disk_free h1 \<le> disk_free h2 + length pem"
    using store_file_ok [OF room] by blast
  have "files h2 ?pub = files h ?pub" "denied h2 = denied h" using h2(4,5) h1(2) others by simp_all
  from room_for_cong [OF this] have pub: "room_for h2 ?pub" using assms(4) by simp
  have len: "length (bytes_of_string (key_public key) @ [10]) \<le> disk_free h2"
    using assms(6) h1(3) h2(6) by simp
  obtain h3 where h3: "\<And>e1 e2. store_file ?pub (bytes_of_string (key_public key) @ [10]) e1 e2 h2 = (Inr (), h3)"
    "file_content h3 ?pub = bytes_of_string (key_public key) @ [10]"
    "\<And>p. p \<noteq> ?pub \<Longrightarrow> files h3 p = files h2 p" "denied h3 = denied h2"
    using store_file_ok [OF pub len] by blast
  have "file_content h3 ?priv = pem" "in_open ?priv h3"
    using h1(2) h2(2,3,5) h3(3,4) assms(3) by (simp_all add: file_content_def in_open_def room_for_def)
  with h1 h2(1) h3(1,2) assms(5) show ?thesis
    by (simp add: store_key_def seq_simps)
qed

text \<open>
  C33. A generated key is the key of every later run: when there is no private key yet and the files can
  be written, \<open>load_or_generate\<close> returns a fresh key, \<open>adbkey\<close> holds its PEM text and \<open>adbkey.pub\<close> its
  public key line, and calling it again loads the same key and leaves the disk as it is. The library
  is relied on for reading back the PEM text it wrote.
\<close>

theorem generated_key_is_reloaded:
  assumes "key_directory A = Inr d" "\<not> stat_fails A (path_append d ''adbkey'')" "files h (path_append d ''adbkey'') = None"
    and "\<not> denied h d" "\<not> is_regular_file h d" "room_for h (path_append d ''adbkey'')" "room_for h (path_append d ''adbkey.pub'')"
    and "key_generate M w = (Inr key, w1)" "pk_write_key_pem M (key_pk key) kPemBufferSize = Some pem"
    and "length pem + length (key_public key) + 1 \<le> disk_free h"
    and "\<forall>w. \<exists>w'. drbg_seed M w = (0, w')" "\<forall>w. \<exists>w'. pk_parse_keyfile M (Some pem) w = ((0, key_pk key), w')"
  shows "\<exists>h1 w2. load_or_generate M A (w, h) = (Inr key, (w1, h1))
    \<and> file_content h1 (path_append d ''adbkey'') = pem
    \<and> file_content h1 (path_append d ''adbkey.pub'') = bytes_of_string (key_public key) @ [10]
    \<and> load_or_generate M A (w1, h1) = (Inr key, (w2, h1))"
proof -
  let ?priv = "path_append d ''adbkey''"
  obtain h1 where h1: "store_key M d key h = (Inr key, h1)" "in_open ?priv h1" "file_content h1 ?priv = pem"
    "file_content h1 (path_append d ''adbkey.pub'') = bytes_of_string (key_public key) @ [10]"
    using store_key_ok [OF assms(4-7,9,10)] by blast
  have pub: "with_public_key M (key_pk key) = Inr key"
    using assms(8) by (auto simp: key_generate_def with_public_key_def bind_result_def
        split: option.splits prod.splits if_splits sum.splits)
  obtain w2 w3 where "drbg_seed M w1 = (0, w2)" "pk_parse_keyfile M (Some pem) w2 = ((0, key_pk key), w3)"
    using assms(11,12) by blast
  then have "key_load M ?priv h1 w1 = (Inr key, w3)"
    using h1(2,3) pub by (simp add: key_load_def)
  with h1 assms(1-3,8) show ?thesis
    by (auto simp: load_or_generate_def Let_def in_open_def)
qed

definition sample_key :: "(nat \<times> nat) Key" where
  "sample_key = \<lparr>key_pk = (3, 65537),
     key_public = string_of_bytes (sample_encode (android_blob 3 65537)) @ '' adbcpp@localhost''\<rparr>"

lemma sample_key_generate: "key_generate sample_mbedtls 0 = (Inr sample_key, 1)"
  using encode_public_key_blob [OF sample_documented(1), of "(3, 65537)" 3 65537]
  by (simp add: key_generate_def with_public_key_def bind_result_def sample_key_def
      kModulusBytes_def [THEN arg_cong [of _ _ "power 256"]])
    (simp add: sample_mbedtls_def)

lemma length_sample_encode [simp]: "length (sample_encode xs) = 2 * length xs"
  by (induction xs) (simp_all add: sample_encode_def)

theorem generated_key_is_reloaded_witness:
  "\<exists>h1 w2. load_or_generate sample_mbedtls key_account (0, key_host) = (Inr sample_key, (1, h1))
    \<and> file_content h1 ''/home/u/.android/adbkey'' = le_bytes 256 3 @ le_bytes 4 65537
    \<and> file_content h1 ''/home/u/.android/adbkey.pub'' = bytes_of_string (key_public sample_key) @ [10]
    \<and> load_or_generate sample_mbedtls key_account (1, h1) = (Inr sample_key, (w2, h1))"
proof -
  have "\<exists>h1 w2. load_or_generate sample_mbedtls key_account (0, key_host) = (Inr sample_key, (1, h1))
    \<and> file_content h1 (path_append ''/home/u/.android'' ''adbkey'') = le_bytes 256 3 @ le_bytes 4 65537
    \<and> file_content h1 (path_append ''/home/u/.android'' ''adbkey.pub'') = bytes_of_string (key_public sample_key) @ [10]
    \<and> load_or_generate sample_mbedtls key_account (1, h1) = (Inr sample_key, (w2, h1))"
  proof (rule generated_key_is_reloaded [OF key_account_directory _ _ _ _ _ _ sample_key_generate])
    show "length (le_bytes 256 3 @ le_bytes 4 65537) + length (key_public sample_key) + 1 \<le> disk_free key_host"
      by (simp add: sample_key_def key_host_def length_android_blob kBlobSize_def kModulusBytes_def)
  qed (simp_all add: key_account_def key_host_def is_regular_file_def room_for_def sample_key_def)
  then show ?thesis by (simp add: path_append_def)
qed

end
