(* ===== verification/Adb_Tcp.thy ===== *)
theory Adb_Tcp
  imports Adb_Session "HOL-Library.Signed_Division"
begin

unbundle bit_operations_syntax

text \<open>
  The TCP transport of \<open>include/adbcpp/tcp/tcp_transport.hpp\<close> and \<open>src/tcp/tcp_transport.cpp\<close>, in its POSIX
  build. The socket calls are the record \<open>Sockets\<close>, over a state \<open>'o\<close> of the operating system, which also
  holds \<open>errno\<close> and the steady clock, and over addresses \<open>'a\<close>. A call returns its C result: \<open>recv\<close> is
  \<open>None\<close> for \<open>-1\<close> and the bytes otherwise, the others are the integer. A transport is its record beside
  that state. Logger calls are left out.

  The retry loops of \<open>read\<close> and \<open>write\<close> need not end when the clock stands still, so they are partial
  functions; \<open>tcp_ops\<close>, the transport as a record of total functions, gives a call that never returns an
  arbitrary error. The theorems show for a socket with the documented behaviour (\<open>documented_socket\<close>)
  that every call returns and that the transport is a byte channel.
\<close>

section \<open>Sockets\<close>

datatype Errno = EAGAIN | EWOULDBLOCK | EINPROGRESS | Errno int

record timeval =
  tv_sec :: int
  tv_usec :: int

record ('o, 'a) Sockets =
  so_getaddrinfo :: "string \<Rightarrow> string \<Rightarrow> 'o \<Rightarrow> (string + 'a list) \<times> 'o"
  so_socket :: "'a \<Rightarrow> 'o \<Rightarrow> int \<times> 'o"
  so_get_flags :: "int \<Rightarrow> 'o \<Rightarrow> int \<times> 'o"
  so_set_flags :: "int \<Rightarrow> int \<Rightarrow> 'o \<Rightarrow> int \<times> 'o"
  so_nonblock :: int
  so_connect :: "int \<Rightarrow> 'a \<Rightarrow> 'o \<Rightarrow> int \<times> 'o"
  so_select_write :: "int \<Rightarrow> timeval \<Rightarrow> 'o \<Rightarrow> int \<times> 'o"
  so_select_read :: "int \<Rightarrow> timeval \<Rightarrow> 'o \<Rightarrow> int \<times> 'o"
  so_socket_error :: "int \<Rightarrow> 'o \<Rightarrow> (int \<times> int) \<times> 'o"
  so_set_nodelay :: "int \<Rightarrow> 'o \<Rightarrow> 'o"
  so_set_receive_timeout :: "int \<Rightarrow> timeval \<Rightarrow> 'o \<Rightarrow> 'o"
  so_set_send_timeout :: "int \<Rightarrow> timeval \<Rightarrow> 'o \<Rightarrow> 'o"
  so_recv :: "int \<Rightarrow> int \<Rightarrow> 'o \<Rightarrow> byte list option \<times> 'o"
  so_send :: "int \<Rightarrow> byte list \<Rightarrow> int \<Rightarrow> 'o \<Rightarrow> int \<times> 'o"
  so_close :: "int \<Rightarrow> 'o \<Rightarrow> 'o"
  so_errno :: "'o \<Rightarrow> Errno"
  so_strerror :: "Errno \<Rightarrow> string"
  so_now :: "'o \<Rightarrow> int"

definition kInvalidSocket :: int where "kInvalidSocket = -1"

definition last_socket_error :: "('o, 'a) Sockets \<Rightarrow> 'o \<Rightarrow> string" where
  "last_socket_error N os = so_strerror N (so_errno N os)"

definition timed_out :: "('o, 'a) Sockets \<Rightarrow> 'o \<Rightarrow> bool" where
  "timed_out N os \<longleftrightarrow> so_errno N os = EAGAIN \<or> so_errno N os = EWOULDBLOCK \<or> so_errno N os = EINPROGRESS"

definition make_timeval :: "int \<Rightarrow> timeval" where
  "make_timeval count = \<lparr>tv_sec = count sdiv 1000, tv_usec = (count smod 1000) * 1000\<rparr>"

text \<open>\<open>static_cast<int>\<close> of a size.\<close>

definition int_of_size :: "nat \<Rightarrow> int" where
  "int_of_size n = sint (of_nat n :: 32 word)"

section \<open>Connecting\<close>

definition connect_with_timeout :: "('o, 'a) Sockets \<Rightarrow> int \<Rightarrow> 'a \<Rightarrow> u32 \<Rightarrow> 'o \<Rightarrow> bool \<times> 'o" where
  "connect_with_timeout N sock address timeout_ms os =
     (case so_get_flags N sock os of
        (flags, o1) \<Rightarrow>
          if flags < 0 then (False, o1)
          else (case so_set_flags N sock (flags OR so_nonblock N) o1 of
            (rc, o2) \<Rightarrow>
              if rc < 0 then (False, o2)
              else (case so_connect N sock address o2 of
                (rc, o3) \<Rightarrow>
                  let restore = (\<lambda>os. case so_set_flags N sock flags os of (rc, os') \<Rightarrow> (rc = 0, os')) in
                  if rc = 0 then restore o3
                  else if \<not> timed_out N o3 then (False, o3)
                  else (case so_select_write N sock (make_timeval (uint timeout_ms)) o3 of
                    (ready, o4) \<Rightarrow>
                      if ready \<le> 0 then (False, o4)
                      else (case so_socket_error N sock o4 of
                        ((rc, error), o5) \<Rightarrow>
                          if rc \<noteq> 0 \<or> error \<noteq> 0 then (False, o5) else restore o5)))))"

definition set_timeouts :: "('o, 'a) Sockets \<Rightarrow> int \<Rightarrow> u32 \<Rightarrow> 'o \<Rightarrow> 'o" where
  "set_timeouts N sock timeout_ms os =
     so_set_send_timeout N sock (make_timeval (uint timeout_ms))
       (so_set_receive_timeout N sock (make_timeval (uint timeout_ms)) os)"

record TcpTransport =
  tcp_socket :: int
  tcp_endpoint :: string
  tcp_transfer_timeout_ms :: u32
  tcp_transfer_budget_ms :: u32

type_synonym 'o tcp = "TcpTransport \<times> 'o"

definition kDefaultConnectTimeoutMs :: u32 where "kDefaultConnectTimeoutMs = 10000"
definition kDefaultTransferTimeoutMs :: u32 where "kDefaultTransferTimeoutMs = 5000"
definition kDefaultTransferBudgetMs :: u32 where "kDefaultTransferBudgetMs = 120000"

text \<open>\<open>host:port\<close>, split at the last colon; an IPv6 literal loses its brackets.\<close>

definition str_rfind :: "char \<Rightarrow> string \<Rightarrow> nat option" where
  "str_rfind c s = map_option (\<lambda>i. length s - 1 - i) (str_find [c] (rev s))"

definition split_endpoint :: "string \<Rightarrow> (string \<times> string) option" where
  "split_endpoint endpoint =
     (case str_rfind CHR '':'' endpoint of
        None \<Rightarrow> None
      | Some separator \<Rightarrow>
          let host = take separator endpoint;
              port = drop (separator + 1) endpoint;
              host = (if 2 \<le> length host \<and> hd host = CHR ''['' \<and> last host = CHR '']''
                      then take (length host - 2) (drop 1 host) else host) in
          if host = [] \<or> port = [] then None else Some (host, port))"

text \<open>The loop over the addresses: the socket of the first one that connects.\<close>

fun first_connected :: "('o, 'a) Sockets \<Rightarrow> u32 \<Rightarrow> 'a list \<Rightarrow> 'o \<Rightarrow> int \<times> 'o" where
  "first_connected N timeout_ms [] os = (kInvalidSocket, os)"
| "first_connected N timeout_ms (a # as) os =
     (case so_socket N a os of
        (sock, o1) \<Rightarrow>
          if sock = kInvalidSocket then first_connected N timeout_ms as o1
          else (case connect_with_timeout N sock a timeout_ms o1 of
                  (True, o2) \<Rightarrow> (sock, o2)
                | (False, o2) \<Rightarrow> first_connected N timeout_ms as (so_close N sock o2)))"

definition not_an_endpoint :: Error where
  "not_an_endpoint = mk_error InvalidArgument ''the endpoint is not a host:port pair''"

definition tcp_open ::
  "('o, 'a) Sockets \<Rightarrow> string \<Rightarrow> u32 \<Rightarrow> u32 \<Rightarrow> u32 \<Rightarrow> ('o, TcpTransport) st" where
  "tcp_open N endpoint connect_timeout_ms transfer_timeout_ms transfer_budget_ms os =
     (case split_endpoint endpoint of
        None \<Rightarrow> (Inl not_an_endpoint, os)
      | Some (host, port) \<Rightarrow>
          (case so_getaddrinfo N host port os of
             (Inl reason, o1) \<Rightarrow> (Inl (mk_error Transport (''getaddrinfo: '' @ reason)), o1)
           | (Inr addresses, o1) \<Rightarrow>
               (case first_connected N connect_timeout_ms addresses o1 of
                  (sock, o2) \<Rightarrow>
                    if sock = kInvalidSocket then
                      (Inl (mk_error Transport (''could not connect to '' @ endpoint @ '': '' @ last_socket_error N o2)), o2)
                    else
                      (Inr \<lparr>tcp_socket = sock, tcp_endpoint = endpoint, tcp_transfer_timeout_ms = transfer_timeout_ms,
                            tcp_transfer_budget_ms = transfer_budget_ms\<rparr>,
                       set_timeouts N sock transfer_timeout_ms (so_set_nodelay N sock o2)))))"

section \<open>The transport\<close>

definition tcp_set_transfer_timeout :: "('o, 'a) Sockets \<Rightarrow> u32 \<Rightarrow> 'o tcp \<Rightarrow> 'o tcp" where
  "tcp_set_transfer_timeout N milliseconds X =
     (case X of (t, os) \<Rightarrow>
        (t\<lparr>tcp_transfer_timeout_ms := milliseconds\<rparr>,
         if tcp_socket t \<noteq> kInvalidSocket then set_timeouts N (tcp_socket t) milliseconds os else os))"

definition tcp_set_transfer_budget :: "u32 \<Rightarrow> 'o tcp \<Rightarrow> 'o tcp" where
  "tcp_set_transfer_budget milliseconds X = (case X of (t, os) \<Rightarrow> (t\<lparr>tcp_transfer_budget_ms := milliseconds\<rparr>, os))"

partial_function (option) tcp_read_from ::
  "('o, 'a) Sockets \<Rightarrow> int \<Rightarrow> nat \<Rightarrow> int \<Rightarrow> 'o \<Rightarrow> (byte list Result \<times> 'o) option" where
  "tcp_read_from N sock n deadline os =
     (case so_recv N sock (int_of_size n) os of
        (Some bs, o1) \<Rightarrow> Some (Inr bs, o1)
      | (None, o1) \<Rightarrow>
          if \<not> timed_out N o1 \<or> deadline \<le> so_now N o1 then
            Some (Inl (mk_error Transport (''recv: '' @ last_socket_error N o1)), o1)
          else tcp_read_from N sock n deadline o1)"

declare tcp_read_from.simps [code]

definition tcp_read :: "('o, 'a) Sockets \<Rightarrow> nat \<Rightarrow> ('o tcp, byte list) io" where
  "tcp_read N n X =
     (case X of (t, os) \<Rightarrow>
        if n = 0 then Some (Inr [], X)
        else map_option (\<lambda>(r, o1). (r, (t, o1)))
          (tcp_read_from N (tcp_socket t) n (so_now N os + uint (tcp_transfer_budget_ms t)) os))"

partial_function (option) tcp_write_from ::
  "('o, 'a) Sockets \<Rightarrow> int \<Rightarrow> byte list \<Rightarrow> nat \<Rightarrow> int \<Rightarrow> 'o \<Rightarrow> (unit Result \<times> 'o) option" where
  "tcp_write_from N sock data count deadline os =
     (if count < length data then
        (case so_send N sock (drop count data) (int_of_size (length data - count)) os of
           (sent, o1) \<Rightarrow>
             if 0 < sent then tcp_write_from N sock data (count + nat sent) deadline o1
             else if sent = 0 then Some (Inl (mk_error Transport ''the peer closed the connection''), o1)
             else if \<not> timed_out N o1 \<or> deadline \<le> so_now N o1 then
               Some (Inl (mk_error Transport (''send: '' @ last_socket_error N o1)), o1)
             else tcp_write_from N sock data count deadline o1)
      else Some (Inr (), os))"

declare tcp_write_from.simps [code]

definition tcp_write :: "('o, 'a) Sockets \<Rightarrow> byte list \<Rightarrow> ('o tcp, unit) io" where
  "tcp_write N data X =
     (case X of (t, os) \<Rightarrow>
        map_option (\<lambda>(r, o1). (r, (t, o1)))
          (tcp_write_from N (tcp_socket t) data 0 (so_now N os + uint (tcp_transfer_budget_ms t)) os))"

definition tcp_wait_readable :: "('o, 'a) Sockets \<Rightarrow> int \<Rightarrow> ('o tcp, bool) st" where
  "tcp_wait_readable N timeout X =
     (case X of (t, os) \<Rightarrow>
        (case so_select_read N (tcp_socket t) (make_timeval timeout) os of
           (ready, o1) \<Rightarrow>
             if ready < 0 then (Inl (mk_error Transport (''select: '' @ last_socket_error N o1)), (t, o1))
             else (Inr (0 < ready), (t, o1))))"

definition tcp_close :: "('o, 'a) Sockets \<Rightarrow> 'o tcp \<Rightarrow> 'o tcp" where
  "tcp_close N X =
     (case X of (t, os) \<Rightarrow>
        if tcp_socket t \<noteq> kInvalidSocket
        then (t\<lparr>tcp_socket := kInvalidSocket\<rparr>, so_close N (tcp_socket t) os) else X)"

text \<open>Destruction closes the socket that is still held.\<close>

definition tcp_destroy :: "('o, 'a) Sockets \<Rightarrow> 'o tcp \<Rightarrow> 'o" where
  "tcp_destroy N X =
     (case X of (t, os) \<Rightarrow> if tcp_socket t \<noteq> kInvalidSocket then so_close N (tcp_socket t) os else os)"

definition tcp_ops :: "('o, 'a) Sockets \<Rightarrow> 'o tcp Transport_ops" where
  "tcp_ops N =
     \<lparr>tr_read = (\<lambda>t n. or_stuck (tcp_read N n t) t), tr_write = (\<lambda>t bs. or_stuck (tcp_write N bs t) t),
      tr_close = tcp_close N, tr_serial = (\<lambda>t. tcp_endpoint (fst t)),
      tr_wait_readable = (\<lambda>t timeout. tcp_wait_readable N timeout t)\<rparr>"

section \<open>A socket with the documented behaviour\<close>

text \<open>
  An established stream socket: \<open>incoming\<close> are the bytes the peer sends, \<open>outgoing\<close> those it receives.
  \<open>recv\<close> hands out a part of the bytes, and nothing only at their end; \<open>send\<close> takes a part of its data.
  Either may time out first (\<open>waits\<close>): the clock moves on, and it does so at most until \<open>due\<close>, the time by
  which the peer has reacted. A peer that is never silent for longer than the budget is \<open>alive\<close>.
\<close>

definition waits ::
  "('o, 'a) Sockets \<Rightarrow> ('o \<Rightarrow> bool) \<Rightarrow> ('o \<Rightarrow> byte list) \<Rightarrow> ('o \<Rightarrow> byte list) \<Rightarrow> ('o \<Rightarrow> int) \<Rightarrow> 'o \<Rightarrow> 'o \<Rightarrow> bool" where
  "waits N alive incoming outgoing due os o1 \<longleftrightarrow>
     timed_out N o1 \<and> so_now N os < so_now N o1 \<and> so_now N o1 < due os \<and> due o1 = due os
     \<and> incoming o1 = incoming os \<and> outgoing o1 = outgoing os \<and> alive o1"

definition documented_socket ::
  "('o, 'a) Sockets \<Rightarrow> int \<Rightarrow> int \<Rightarrow> ('o \<Rightarrow> bool) \<Rightarrow> ('o \<Rightarrow> byte list) \<Rightarrow> ('o \<Rightarrow> byte list) \<Rightarrow> ('o \<Rightarrow> int) \<Rightarrow> bool" where
  "documented_socket N sock budget alive incoming outgoing due \<longleftrightarrow>
     (\<forall>os. alive os \<longrightarrow> due os \<le> so_now N os + budget)
     \<and> (\<forall>os n. alive os \<and> 0 < n \<and> n < 2 ^ 31 \<longrightarrow>
          (case so_recv N sock (int n) os of
             (Some bs, o1) \<Rightarrow> length bs \<le> n \<and> (incoming os \<noteq> [] \<longrightarrow> bs \<noteq> []) \<and> incoming os = bs @ incoming o1
               \<and> outgoing o1 = outgoing os \<and> alive o1
           | (None, o1) \<Rightarrow> waits N alive incoming outgoing due os o1))
     \<and> (\<forall>os bs. alive os \<and> bs \<noteq> [] \<and> length bs < 2 ^ 31 \<longrightarrow>
          (case so_send N sock bs (int (length bs)) os of
             (k, o1) \<Rightarrow>
               if 0 < k then nat k \<le> length bs \<and> outgoing o1 = outgoing os @ take (nat k) bs
                 \<and> incoming o1 = incoming os \<and> alive o1 \<and> so_now N os \<le> so_now N o1
                 \<and> (nat k < length bs \<longrightarrow> due o1 = due os)
               else k < 0 \<and> waits N alive incoming outgoing due os o1))"

lemma int_of_size_small: "n < 2 ^ 31 \<Longrightarrow> int_of_size n = int n"
  by (simp add: int_of_size_def signed_of_nat signed_take_bit_int_eq_self)

lemma documented_due:
  "documented_socket N sock budget alive incoming outgoing due \<Longrightarrow> alive os \<Longrightarrow> due os \<le> so_now N os + budget"
  unfolding documented_socket_def by blast

lemma documented_recv:
  assumes "documented_socket N sock budget alive incoming outgoing due" "alive os" "0 < n" "n < 2 ^ 31"
  obtains (data) bs o1 where "so_recv N sock (int_of_size n) os = (Some bs, o1)" "length bs \<le> n"
      "incoming os \<noteq> [] \<Longrightarrow> bs \<noteq> []" "incoming os = bs @ incoming o1" "outgoing o1 = outgoing os" "alive o1"
    | (wait) o1 where "so_recv N sock (int_of_size n) os = (None, o1)" "waits N alive incoming outgoing due os o1"
proof -
  obtain r o1 where res: "so_recv N sock (int_of_size n) os = (r, o1)" by fastforce
  have law: "case r of
       Some bs \<Rightarrow> length bs \<le> n \<and> (incoming os \<noteq> [] \<longrightarrow> bs \<noteq> []) \<and> incoming os = bs @ incoming o1
         \<and> outgoing o1 = outgoing os \<and> alive o1
     | None \<Rightarrow> waits N alive incoming outgoing due os o1"
    using assms(1) [unfolded documented_socket_def, THEN conjunct2, THEN conjunct1, rule_format, of os n] assms(2-4)
      res [unfolded int_of_size_small [OF assms(4)]] by (simp split: option.splits)
  show thesis
  proof (cases r)
    case None
    with law res show thesis by (intro wait [of o1]) simp_all
  next
    case (Some bs)
    with law have "length bs \<le> n" "incoming os \<noteq> [] \<Longrightarrow> bs \<noteq> []" "incoming os = bs @ incoming o1"
      "outgoing o1 = outgoing os" "alive o1" by simp_all
    with Some res show thesis by (intro data [of bs o1]) blast+
  qed
qed

lemma documented_send:
  assumes "documented_socket N sock budget alive incoming outgoing due" "alive os" "bs \<noteq> []" "length bs < 2 ^ 31"
  obtains (data) k o1 where "so_send N sock bs (int_of_size (length bs)) os = (int k, o1)" "0 < k" "k \<le> length bs"
      "outgoing o1 = outgoing os @ take k bs" "incoming o1 = incoming os" "alive o1" "so_now N os \<le> so_now N o1"
      "k < length bs \<Longrightarrow> due o1 = due os"
    | (wait) k o1 where "so_send N sock bs (int_of_size (length bs)) os = (k, o1)" "k < 0"
      "waits N alive incoming outgoing due os o1"
proof -
  obtain k o1 where res: "so_send N sock bs (int_of_size (length bs)) os = (k, o1)" by fastforce
  have "if 0 < k then nat k \<le> length bs \<and> outgoing o1 = outgoing os @ take (nat k) bs
      \<and> incoming o1 = incoming os \<and> alive o1 \<and> so_now N os \<le> so_now N o1 \<and> (nat k < length bs \<longrightarrow> due o1 = due os)
    else k < 0 \<and> waits N alive incoming outgoing due os o1"
    using assms(1) [unfolded documented_socket_def, THEN conjunct2, THEN conjunct2, rule_format, of os bs] assms(2-4)
      res [unfolded int_of_size_small [OF assms(4)]] by simp
  then show thesis
    using res data [of "nat k" o1] wait [of k o1] by (cases "0 < k") simp_all
qed

lemma tcp_read_from_data:
  assumes doc: "documented_socket N sock budget alive incoming outgoing due" and "0 < n" "n < 2 ^ 31"
    and "alive os" "due os \<le> deadline"
  shows "\<exists>bs o1. tcp_read_from N sock n deadline os = Some (Inr bs, o1) \<and> length bs \<le> n
    \<and> (incoming os \<noteq> [] \<longrightarrow> bs \<noteq> []) \<and> incoming os = bs @ incoming o1 \<and> outgoing o1 = outgoing os \<and> alive o1"
  using assms(4,5)
proof (induction "nat (deadline - so_now N os)" arbitrary: os rule: less_induct)
  case less
  from doc less.prems(1) assms(2,3) show ?case
  proof (cases rule: documented_recv)
    case (data bs o1)
    then show ?thesis by (subst tcp_read_from.simps) auto
  next
    case (wait o1)
    then have w: "timed_out N o1" "so_now N os < so_now N o1" "so_now N o1 < deadline" "due o1 \<le> deadline" "alive o1"
      "incoming o1 = incoming os" "outgoing o1 = outgoing os"
      using less.prems(2) by (auto simp: waits_def)
    have "tcp_read_from N sock n deadline os = tcp_read_from N sock n deadline o1"
      using wait(1) w by (subst tcp_read_from.simps) simp
    with less.hyps [OF _ w(5,4)] w show ?thesis by simp
  qed
qed

lemma tcp_write_from_data:
  assumes doc: "documented_socket N sock budget alive incoming outgoing due" and "length data < 2 ^ 31"
    and "alive os" "count < length data \<Longrightarrow> due os \<le> deadline"
  shows "\<exists>o1. tcp_write_from N sock data count deadline os = Some (Inr (), o1)
    \<and> incoming o1 = incoming os \<and> outgoing o1 = outgoing os @ drop count data \<and> alive o1"
  using assms(3,4)
proof (induction "(length data - count) + nat (deadline - so_now N os)" arbitrary: os count rule: less_induct)
  case less
  show ?case
  proof (cases "count < length data")
    case False
    with less.prems show ?thesis by (subst tcp_write_from.simps) simp
  next
    case True
    then have rest: "drop count data \<noteq> []" "length (drop count data) < 2 ^ 31" "length (drop count data) = length data - count"
      using assms(2) by simp_all
    from doc less.prems(1) rest(1,2) show ?thesis
    proof (cases rule: documented_send)
      case (data k o1)
      have "tcp_write_from N sock data count deadline os = tcp_write_from N sock data (count + k) deadline o1"
        using data(1,2) True rest(3) by (subst tcp_write_from.simps) simp
      moreover have "\<exists>o2. tcp_write_from N sock data (count + k) deadline o1 = Some (Inr (), o2)
          \<and> incoming o2 = incoming o1 \<and> outgoing o2 = outgoing o1 @ drop (count + k) data \<and> alive o2"
        using data True less.prems(2) by (intro less.hyps) auto
      ultimately show ?thesis using data by (auto simp: add.commute)
    next
      case (wait k o1)
      then have w: "timed_out N o1" "so_now N os < so_now N o1" "so_now N o1 < deadline" "due o1 \<le> deadline" "alive o1"
        "incoming o1 = incoming os" "outgoing o1 = outgoing os"
        using less.prems(2) True by (auto simp: waits_def)
      have "tcp_write_from N sock data count deadline os = tcp_write_from N sock data count deadline o1"
        using wait(1,2) w True rest(3) by (subst tcp_write_from.simps) simp
      with less.hyps [OF _ w(5,4)] w show ?thesis by simp
    qed
  qed
qed

definition tcp_good :: "int \<Rightarrow> int \<Rightarrow> ('o \<Rightarrow> bool) \<Rightarrow> 'o tcp \<Rightarrow> bool" where
  "tcp_good sock budget alive X \<longleftrightarrow>
     tcp_socket (fst X) = sock \<and> uint (tcp_transfer_budget_ms (fst X)) = budget \<and> alive (snd X)"

definition on_os :: "('o \<Rightarrow> byte list) \<Rightarrow> 'o tcp \<Rightarrow> byte list" where
  "on_os f X = f (snd X)"

lemma tcp_ops_sel [simp]:
  "tr_read (tcp_ops N) t n = or_stuck (tcp_read N n t) t" "tr_write (tcp_ops N) t bs = or_stuck (tcp_write N bs t) t"
  by (simp_all add: tcp_ops_def)

text \<open>\<open>recv\<close> never delivers more than it was asked for.\<close>

lemma tcp_read_from_bounded:
  assumes "tcp_read_from N sock n deadline os = Some (Inr bs, o1)"
    and "\<And>os bs o1. so_recv N sock (int_of_size n) os = (Some bs, o1) \<Longrightarrow> length bs \<le> n"
  shows "length bs \<le> n"
proof (rule tcp_read_from.raw_induct
    [where P = "\<lambda>N sock n deadline os x. \<forall>bs o1. x = (Inr bs, o1) \<longrightarrow>
       (\<forall>os bs o1. so_recv N sock (int_of_size n) os = (Some bs, o1) \<longrightarrow> length bs \<le> n) \<longrightarrow> length bs \<le> n",
     rule_format, OF _ assms(1) refl assms(2)], goal_cases)
  case (1 f N sock n deadline os x bs o1)
  obtain ro o2 where ro: "so_recv N sock (int_of_size n) os = (ro, o2)" by fastforce
  show ?case
  proof (cases ro)
    case (Some xs)
    with ro 1(2,3) have "xs = bs" by simp
    with 1(4) ro Some show ?thesis by blast
  next
    case None
    with ro 1(2,3) have "f N sock n deadline o2 = Some (Inr bs, o1)" by (auto split: if_splits)
    from 1(1) [OF this refl] 1(4) show ?thesis by blast
  qed
qed (use assms(2) in blast)

lemma tcp_reads_bounded:
  assumes "\<And>sock n os bs o1. n < 2 ^ 31 \<Longrightarrow> so_recv N sock (int n) os = (Some bs, o1) \<Longrightarrow> length bs \<le> n"
  shows "bounded_reads (tcp_ops N)"
proof
  fix X X' and n :: nat and bs
  assume n: "n < 2 ^ 31" and rd: "tr_read (tcp_ops N) X n = (Inr bs, X')"
  obtain t os where X: "X = (t, os)" by fastforce
  show "length bs \<le> n"
  proof (cases "n = 0")
    case True
    with rd show ?thesis by (simp add: X or_stuck_def tcp_read_def)
  next
    case False
    with rd obtain o1 where "tcp_read_from N (tcp_socket t) n (so_now N os + uint (tcp_transfer_budget_ms t)) os = Some (Inr bs, o1)"
      by (auto simp: X or_stuck_def tcp_read_def split: option.splits prod.splits)
    then show ?thesis
      by (rule tcp_read_from_bounded) (use assms n in \<open>simp add: int_of_size_small\<close>)
  qed
qed

text \<open>
  Over such a socket the transport is a byte channel: everything that holds of a session, a connection
  and the services over a byte channel holds over TCP.
\<close>

lemma tcp_read_law:
  assumes doc: "documented_socket N sock budget alive incoming outgoing due"
    and X: "tcp_good sock budget alive X" and n: "0 < n" "n < 2 ^ 31"
  shows "\<exists>bs X'. tr_read (tcp_ops N) X n = (Inr bs, X') \<and> (on_os incoming X \<noteq> [] \<longrightarrow> bs \<noteq> []) \<and> length bs \<le> n
    \<and> on_os incoming X = bs @ on_os incoming X' \<and> on_os outgoing X' = on_os outgoing X \<and> tcp_good sock budget alive X'"
proof -
  obtain t os where Xeq: "X = (t, os)" by fastforce
  have "alive os" using X by (simp add: tcp_good_def Xeq)
  note this documented_due [OF doc this]
  from tcp_read_from_data [OF doc n this] obtain bs o1 where
    o1: "tcp_read_from N sock n (so_now N os + budget) os = Some (Inr bs, o1)" "length bs \<le> n"
    "incoming os \<noteq> [] \<longrightarrow> bs \<noteq> []" "incoming os = bs @ incoming o1" "outgoing o1 = outgoing os" "alive o1"
    by blast
  have t: "tcp_socket t = sock" "uint (tcp_transfer_budget_ms t) = budget" using X by (simp_all add: tcp_good_def Xeq)
  have "tcp_read N n (t, os) = Some (Inr bs, (t, o1))"
    using n(1) unfolding tcp_read_def prod.case t o1(1) by simp
  moreover have "tcp_good sock budget alive (t, o1)" using t o1(6) by (simp add: tcp_good_def)
  ultimately show ?thesis
    unfolding Xeq tcp_ops_sel or_stuck_def on_os_def snd_conv using o1(2-5)
    by (intro exI [of _ bs] exI [of _ "(t, o1)"]) auto
qed

lemma tcp_write_law:
  assumes doc: "documented_socket N sock budget alive incoming outgoing due"
    and X: "tcp_good sock budget alive X" and len: "length bs < 2 ^ 31"
  shows "\<exists>X'. tr_write (tcp_ops N) X bs = (Inr (), X') \<and> on_os incoming X' = on_os incoming X
      \<and> on_os outgoing X' = on_os outgoing X @ bs \<and> tcp_good sock budget alive X'"
proof -
  obtain t os where Xeq: "X = (t, os)" by fastforce
  have "alive os" using X by (simp add: tcp_good_def Xeq)
  note this documented_due [OF doc this]
  from tcp_write_from_data [OF doc len this(1), of 0, OF this(2)] obtain o1 where
    o1: "tcp_write_from N sock bs 0 (so_now N os + budget) os = Some (Inr (), o1)" "incoming o1 = incoming os"
    "outgoing o1 = outgoing os @ bs" "alive o1"
    by auto
  have t: "tcp_socket t = sock" "uint (tcp_transfer_budget_ms t) = budget" using X by (simp_all add: tcp_good_def Xeq)
  have "tcp_write N bs (t, os) = Some (Inr (), (t, o1))"
    unfolding tcp_write_def prod.case t o1(1) by simp
  moreover have "tcp_good sock budget alive (t, o1)" using t o1(4) by (simp add: tcp_good_def)
  ultimately show ?thesis
    unfolding Xeq tcp_ops_sel or_stuck_def on_os_def snd_conv using o1(2,3)
    by (intro exI [of _ "(t, o1)"]) auto
qed

lemma tcp_byte_channel:
  assumes "documented_socket N sock budget alive incoming outgoing due"
  shows "byte_channel (tcp_ops N) (tcp_good sock budget alive) (on_os incoming) (on_os outgoing)"
proof
  fix X and n :: nat
  assume "tcp_good sock budget alive X" "0 < n" "n < 2 ^ 31" "on_os incoming X \<noteq> []"
  with tcp_read_law [OF assms, of X n] show "\<exists>bs X'. tr_read (tcp_ops N) X n = (Inr bs, X') \<and> bs \<noteq> [] \<and> length bs \<le> n
      \<and> on_os incoming X = bs @ on_os incoming X' \<and> on_os outgoing X' = on_os outgoing X \<and> tcp_good sock budget alive X'"
    by blast
next
  fix X and n :: nat
  assume "tcp_good sock budget alive X" "0 < n" "n < 2 ^ 31" "on_os incoming X = []"
  with tcp_read_law [OF assms, of X n] show "\<exists>X'. tr_read (tcp_ops N) X n = (Inr [], X') \<and> on_os incoming X' = []
      \<and> on_os outgoing X' = on_os outgoing X \<and> tcp_good sock budget alive X'"
    by (metis append_is_Nil_conv)
qed (rule tcp_write_law [OF assms])

text \<open>A read that gave up on a timeout did so past its deadline.\<close>

lemma tcp_read_from_gives_up:
  assumes "tcp_read_from N sock n deadline os = Some (Inl e, o1)" "timed_out N o1"
  shows "deadline \<le> so_now N o1"
proof (rule tcp_read_from.raw_induct
    [where P = "\<lambda>N sock n deadline os r. \<forall>e o1. r = (Inl e, o1) \<longrightarrow> timed_out N o1 \<longrightarrow> deadline \<le> so_now N o1",
     rule_format, OF _ assms(1) refl assms(2)], goal_cases)
  case (1 f N sock n deadline os r e o1)
  then show ?case by (fastforce split: prod.splits option.splits if_splits)
qed

section \<open>Endpoints\<close>

lemma str_rfind_last:
  assumes "c \<notin> set s2"
  shows "str_rfind c (s1 @ c # s2) = Some (length s1)"
proof -
  have "str_find [c] (rev s2 @ c # rev s1) = Some (length (rev s2))"
    by (rule str_find_char_append) (use assms in simp)
  then show ?thesis by (simp add: str_rfind_def)
qed

section \<open>A sample network\<close>

text \<open>
  The state is the clock, the bytes to come and the bytes sent. \<open>recv\<close> times out at every odd time and
  hands out at most three bytes at an even one; \<open>send\<close> takes at most five.
\<close>

definition sample_net :: "(int \<times> byte list \<times> byte list, unit) Sockets" where
  "sample_net =
     \<lparr>so_getaddrinfo = (\<lambda>host port os. (Inr [()], os)), so_socket = (\<lambda>a os. (3, os)),
      so_get_flags = (\<lambda>s os. (2, os)), so_set_flags = (\<lambda>s f os. (0, os)), so_nonblock = 0x800,
      so_connect = (\<lambda>s a os. (0, os)), so_select_write = (\<lambda>s tv os. (1, os)), so_select_read = (\<lambda>s tv os. (1, os)),
      so_socket_error = (\<lambda>s os. ((0, 0), os)), so_set_nodelay = (\<lambda>s os. os),
      so_set_receive_timeout = (\<lambda>s tv os. os), so_set_send_timeout = (\<lambda>s tv os. os),
      so_recv = (\<lambda>s n (now, i, x). if odd now then (None, (now + 1, i, x))
        else (Some (take (min (nat n) 3) i), (now + 1, drop (min (nat n) 3) i, x))),
      so_send = (\<lambda>s bs n (now, i, x). (int (min 5 (length bs)), (now, i, x @ take (min 5 (length bs)) bs))),
      so_close = (\<lambda>s os. os), so_errno = (\<lambda>os. EAGAIN), so_strerror = (\<lambda>e. ''try again''),
      so_now = (\<lambda>(now, i, x). now)\<rparr>"

lemma sample_net_documented:
  "documented_socket sample_net 3 10 (\<lambda>os. True) (\<lambda>(now, i, x). i) (\<lambda>(now, i, x). x)
     (\<lambda>(now, i, x). if odd now then now + 2 else now + 1)"
  by (auto simp: documented_socket_def sample_net_def waits_def timed_out_def)

definition sample_tcp :: "byte list \<Rightarrow> (int \<times> byte list \<times> byte list) tcp" where
  "sample_tcp i = (\<lparr>tcp_socket = 3, tcp_endpoint = ''localhost:5555'', tcp_transfer_timeout_ms = 5,
     tcp_transfer_budget_ms = 10\<rparr>, (1, i, []))"

section \<open>Properties\<close>

text \<open>
  C25. A session over TCP carries frames, however the network cuts and delays them: on a socket with the
  documented behaviour, whose peer is never silent for longer than the transfer budget, every frame
  sent reaches the peer's side of the socket complete and in order, and the frames the peer sends are
  received as they are. Reads and writes that time out are retried and lose nothing.
\<close>

theorem tcp_carries_frames:
  assumes "documented_socket N sock budget alive incoming outgoing due"
    and "live (tcp_good sock budget alive) s" "list_all valid_frame fs" "list_all valid_frame gs"
    and "inbox (on_os incoming) s = wire gs @ rest"
  shows "\<exists>s1 s2. send_frames (tcp_ops N) fs s = (Inr (), s1)
    \<and> receive_frames (tcp_ops N) (length gs) s1 = (Inr gs, s2)
    \<and> outbox (on_os outgoing) s2 = outbox (on_os outgoing) s @ wire fs \<and> inbox (on_os incoming) s2 = rest"
proof -
  note link = byte_channel.axioms(1) [OF tcp_byte_channel [OF assms(1)]]
  obtain s1 where s1: "send_frames (tcp_ops N) fs s = (Inr (), s1)" "live (tcp_good sock budget alive) s1"
    "inbox (on_os incoming) s1 = wire gs @ rest" "outbox (on_os outgoing) s1 = outbox (on_os outgoing) s @ wire fs"
    using link.send_frames_wire [OF link assms(2,3)] assms(5) by auto
  from link.receive_frames_wire [OF link s1(2) assms(4) s1(3)] s1 show ?thesis by auto
qed

theorem tcp_carries_frames_witness:
  "\<exists>s1 s2. send_frames (tcp_ops sample_net) [sample_frame] (session_new (sample_tcp (wire [sample_frame] @ [1]))) = (Inr (), s1)
    \<and> receive_frames (tcp_ops sample_net) 1 s1 = (Inr [sample_frame], s2)
    \<and> outbox (on_os (\<lambda>(now, i, x). x)) s2 = wire [sample_frame] \<and> inbox (on_os (\<lambda>(now, i, x). i)) s2 = [1]"
proof -
  let ?s = "session_new (sample_tcp (wire [sample_frame] @ [1]))"
  have "live (tcp_good 3 10 (\<lambda>os. True)) ?s" "inbox (on_os (\<lambda>(now, i, x). i)) ?s = wire [sample_frame] @ [1]"
    "outbox (on_os (\<lambda>(now, i, x). x)) ?s = []"
    by (simp_all add: live_def inbox_def outbox_def session_new_def sample_tcp_def tcp_good_def on_os_def)
  with tcp_carries_frames [OF sample_net_documented this(1), of "[sample_frame]" "[sample_frame]" "[1]"]
  show ?thesis by simp
qed



text \<open>
  Endpoints are split as they are written: a host and a port joined by a colon come apart again when
  the port has no colon, for names and IPv4 addresses as well as for IPv6 literals, whose brackets
  are taken off. Text without a colon, without a host or without a port is refused, without any
  call to the operating system.
\<close>

theorem endpoint_round_trip:
  assumes "host \<noteq> []" "port \<noteq> []" "CHR '':'' \<notin> set port"
  shows "(hd host \<noteq> CHR ''['' \<longrightarrow> split_endpoint (host @ '':'' @ port) = Some (host, port))
    \<and> split_endpoint (''['' @ host @ '']:'' @ port) = Some (host, port)
    \<and> tcp_open N port c t b os = (Inl not_an_endpoint, os)
    \<and> tcp_open N ('':'' @ port) c t b os = (Inl not_an_endpoint, os)
    \<and> tcp_open N (host @ '':'') c t b os = (Inl not_an_endpoint, os)"
proof -
  have r: "str_rfind CHR '':'' (host @ CHR '':'' # port) = Some (length host)"
    "str_rfind CHR '':'' ((''['' @ host @ '']'') @ CHR '':'' # port) = Some (length (''['' @ host @ '']''))"
    "str_rfind CHR '':'' ([] @ CHR '':'' # port) = Some (length ([] :: string))"
    "str_rfind CHR '':'' (host @ CHR '':'' # []) = Some (length host)"
    using assms(3) by (simp_all only: str_rfind_last list.set empty_iff not_False_eq_True)
  have none: "str_rfind CHR '':'' port = None" using assms(3) by (simp add: str_rfind_def)
  from assms(1,2) r none show ?thesis
    by (simp add: split_endpoint_def tcp_open_def Let_def)
qed

theorem endpoint_round_trip_witness:
  "split_endpoint ''[::1]:5555'' = Some (''::1'', ''5555'')
    \<and> tcp_open sample_net ''5555'' 1 2 3 (0, [], []) = (Inl not_an_endpoint, (0, [], []))"
  using endpoint_round_trip [of "''::1''" "''5555''" sample_net 1 2 3 "(0, [], [])"] by simp

text \<open>
  The open sockets of the process, \<open>held\<close>: \<open>socket\<close> adds a fresh one, \<open>close\<close> removes one, and no other
  call changes them.
\<close>

definition accounts :: "('o, 'a) Sockets \<Rightarrow> ('o \<Rightarrow> int set) \<Rightarrow> bool" where
  "accounts N held \<longleftrightarrow>
     (\<forall>a os s o1. so_socket N a os = (s, o1) \<longrightarrow>
        (if s = kInvalidSocket then held o1 = held os else s \<notin> held os \<and> held o1 = insert s (held os)))
     \<and> (\<forall>s os. held (so_close N s os) = held os - {s})
     \<and> (\<forall>h p os. held (snd (so_getaddrinfo N h p os)) = held os)
     \<and> (\<forall>s os. held (snd (so_get_flags N s os)) = held os)
     \<and> (\<forall>s f os. held (snd (so_set_flags N s f os)) = held os)
     \<and> (\<forall>s a os. held (snd (so_connect N s a os)) = held os)
     \<and> (\<forall>s tv os. held (snd (so_select_write N s tv os)) = held os)
     \<and> (\<forall>s os. held (snd (so_socket_error N s os)) = held os)
     \<and> (\<forall>s os. held (so_set_nodelay N s os) = held os)
     \<and> (\<forall>s tv os. held (so_set_receive_timeout N s tv os) = held os)
     \<and> (\<forall>s tv os. held (so_set_send_timeout N s tv os) = held os)"

lemma accounts_simps:
  assumes "accounts N held"
  shows "held (so_close N s os) = held os - {s}" "held (set_timeouts N s ms (so_set_nodelay N s os)) = held os"
    "so_getaddrinfo N h p os = (r, o1) \<Longrightarrow> held o1 = held os"
    "so_get_flags N s os = (k, o1) \<Longrightarrow> held o1 = held os" "so_set_flags N s f os = (k, o1) \<Longrightarrow> held o1 = held os"
    "so_connect N s a os = (k, o1) \<Longrightarrow> held o1 = held os" "so_select_write N s tv os = (k, o1) \<Longrightarrow> held o1 = held os"
    "so_socket_error N s os = (ke, o1) \<Longrightarrow> held o1 = held os"
    "so_socket N a os = (s, o1) \<Longrightarrow> s = kInvalidSocket \<Longrightarrow> held o1 = held os"
    "so_socket N a os = (s, o1) \<Longrightarrow> s \<noteq> kInvalidSocket \<Longrightarrow> s \<notin> held os \<and> held o1 = insert s (held os)"
  using assms unfolding accounts_def set_timeouts_def by (metis snd_conv)+

lemma connect_with_timeout_held:
  assumes "accounts N held" "connect_with_timeout N s a ms os = (ok, o1)"
  shows "held o1 = held os"
  using assms(2) accounts_simps(4-8) [OF assms(1)]
  by (fastforce simp: connect_with_timeout_def Let_def split: prod.splits if_splits)

lemma first_connected_held:
  assumes "accounts N held" "first_connected N ms as os = (s, o1)"
  shows "if s = kInvalidSocket then held o1 = held os else s \<notin> held os \<and> held o1 = insert s (held os)"
  using assms(2)
proof (induction as arbitrary: os)
  case (Cons a as)
  obtain s1 o2 where so: "so_socket N a os = (s1, o2)" by fastforce
  show ?case
  proof (cases "s1 = kInvalidSocket")
    case True
    then have "first_connected N ms as o2 = (s, o1)" using Cons.prems so by simp
    from Cons.IH [OF this] accounts_simps(9) [OF assms(1) so True] show ?thesis by (auto split: if_splits)
  next
    case False
    note new = accounts_simps(10) [OF assms(1) so False]
    obtain ok o3 where co: "connect_with_timeout N s1 a ms o2 = (ok, o3)" by fastforce
    have o3: "held o3 = held o2" by (rule connect_with_timeout_held [OF assms(1) co])
    then have closed: "held (so_close N s1 o3) = held os" using new accounts_simps(1) [OF assms(1)] by auto
    show ?thesis
    proof (cases ok)
      case True
      with Cons.prems so False co have "s = s1" "o1 = o3" by simp_all
      with new o3 False show ?thesis by simp
    next
      case False
      with Cons.prems so \<open>s1 \<noteq> kInvalidSocket\<close> co have "first_connected N ms as (so_close N s1 o3) = (s, o1)" by simp
      from Cons.IH [OF this] closed show ?thesis by (auto split: if_splits)
    qed
  qed
qed simp

text \<open>What a successful opening did.\<close>

lemma tcp_open_held:
  assumes "accounts N held" "tcp_open N endpoint c tt b os = (r, o1)"
  shows "case r of Inl e \<Rightarrow> held o1 = held os
    | Inr t \<Rightarrow> tcp_socket t \<noteq> kInvalidSocket \<and> tcp_socket t \<notin> held os \<and> held o1 = insert (tcp_socket t) (held os)"
proof (cases "split_endpoint endpoint")
  case None
  with assms(2) show ?thesis by (auto simp: tcp_open_def)
next
  case (Some hp)
  obtain host port where hp: "hp = (host, port)" by fastforce
  obtain g o2 where g: "so_getaddrinfo N host port os = (g, o2)" by fastforce
  note o2 = accounts_simps(3) [OF assms(1) g]
  show ?thesis
  proof (cases g)
    case (Inl reason)
    with assms(2) Some hp g o2 show ?thesis by (auto simp: tcp_open_def)
  next
    case (Inr addresses)
    obtain s o3 where s: "first_connected N c addresses o2 = (s, o3)" by fastforce
    show ?thesis
      using assms(2) Some hp g Inr s o2 first_connected_held [OF assms(1) s] accounts_simps(2) [OF assms(1)]
      by (auto simp: tcp_open_def split: if_splits)
  qed
qed

text \<open>
  No socket leaks: opening a transport that fails leaves the process with the sockets it had, however
  many addresses were tried; a transport that opened holds exactly one new socket. Destroying it, or
  closing it first and destroying it then, gives that socket back, and closing twice does nothing more.
\<close>

theorem tcp_sockets_do_not_leak:
  assumes "accounts N held" "tcp_open N endpoint c tt b os = (r, o1)"
  shows "(\<forall>e. r = Inl e \<longrightarrow> held o1 = held os)
    \<and> (\<forall>t. r = Inr t \<longrightarrow> tcp_socket t \<notin> held os \<and> held o1 = insert (tcp_socket t) (held os)
         \<and> held (tcp_destroy N (t, o1)) = held os
         \<and> held (tcp_destroy N (tcp_close N (t, o1))) = held os
         \<and> tcp_close N (tcp_close N (t, o1)) = tcp_close N (t, o1))"
  using tcp_open_held [OF assms]
  by (auto simp: tcp_destroy_def tcp_close_def accounts_simps(1) [OF assms(1)] split: sum.splits)

text \<open>Two addresses, of which only the second one accepts; the state counts the sockets handed out.\<close>

definition sample_sockets :: "(nat \<times> int set, bool) Sockets" where
  "sample_sockets =
     \<lparr>so_getaddrinfo = (\<lambda>host port os. (Inr [False, True], os)),
      so_socket = (\<lambda>a (n, S). (int n, (Suc n, insert (int n) S))),
      so_get_flags = (\<lambda>s os. (2, os)), so_set_flags = (\<lambda>s f os. (0, os)), so_nonblock = 0x800,
      so_connect = (\<lambda>s a os. (if a then 0 else -1, os)), so_select_write = (\<lambda>s tv os. (0, os)),
      so_select_read = (\<lambda>s tv os. (1, os)), so_socket_error = (\<lambda>s os. ((0, 0), os)), so_set_nodelay = (\<lambda>s os. os),
      so_set_receive_timeout = (\<lambda>s tv os. os), so_set_send_timeout = (\<lambda>s tv os. os),
      so_recv = (\<lambda>s n os. (Some [], os)), so_send = (\<lambda>s bs n os. (0, os)),
      so_close = (\<lambda>s (n, S). (n, S - {s})), so_errno = (\<lambda>os. EINPROGRESS), so_strerror = (\<lambda>e. ''in progress''),
      so_now = (\<lambda>os. 0)\<rparr>"

theorem tcp_sockets_do_not_leak_witness:
  "\<exists>t o1. tcp_open sample_sockets ''h:1'' 1 2 3 (5, {}) = (Inr t, o1) \<and> tcp_socket t = 6
     \<and> snd (tcp_destroy sample_sockets (t, o1)) \<inter> {0 ..< int (fst (tcp_destroy sample_sockets (t, o1)))} = {}"
proof -
  let ?held = "\<lambda>(n :: nat, S). S \<inter> {0 ..< int n}"
  have acc: "accounts sample_sockets ?held"
    by (auto simp: accounts_def sample_sockets_def kInvalidSocket_def)
  have "str_rfind CHR '':'' ''h:1'' = Some 1" by (simp add: str_rfind_def)
  then have "tcp_open sample_sockets ''h:1'' 1 2 3 (5, {}) = (Inr \<lparr>tcp_socket = 6, tcp_endpoint = ''h:1'',
      tcp_transfer_timeout_ms = 2, tcp_transfer_budget_ms = 3\<rparr>, (7, {6}))"
    by (simp add: tcp_open_def split_endpoint_def sample_sockets_def connect_with_timeout_def timed_out_def
        kInvalidSocket_def set_timeouts_def)
  with tcp_sockets_do_not_leak [OF acc this] show ?thesis
    by (simp add: case_prod_beta)
qed

end
