(* ===== verification/Adb_Usb.thy ===== *)
theory Adb_Usb
  imports Adb_Session "HOL-Library.Multiset"
begin

unbundle bit_operations_syntax

text \<open>
  The USB transport of \<open>include/adbcpp/usb/usb_transport.hpp\<close> and \<open>src/usb/usb_transport.cpp\<close>, in its Linux
  build. libusb is not part of the repository: its calls are the record \<open>Libusb\<close>, over a state \<open>'o\<close> that
  also holds the steady clock, and over devices \<open>'d\<close>. Contexts and handles are numbers; a pointer that may
  be null is an option. A bulk transfer returns its code and what it moved. Logger calls are left out.

  The theorems show that the transport is a link that carries frames over a pipe with the documented
  behaviour, that every libusb resource is given back, which devices a selector finds, and where the
  code departs from its documentation: after a failed transfer the read buffer holds bytes the device
  never sent, and a wait that times out is an error.
\<close>

section \<open>libusb\<close>

record Endpoint_descriptor =
  bmAttributes :: byte
  bEndpointAddress :: byte

record Interface_descriptor =
  bInterfaceNumber :: byte
  bInterfaceClass :: byte
  bInterfaceSubClass :: byte
  bInterfaceProtocol :: byte
  endpoints :: "Endpoint_descriptor list"

record Device_descriptor =
  idVendor :: u16
  idProduct :: u16
  iSerialNumber :: byte

record ('o, 'd) Libusb =
  lu_init :: "'o \<Rightarrow> (int + int) \<times> 'o"
  lu_exit :: "int \<Rightarrow> 'o \<Rightarrow> 'o"
  lu_device_list :: "int \<Rightarrow> 'o \<Rightarrow> (int + 'd list) \<times> 'o"
  lu_free_device_list :: "'d list \<Rightarrow> 'o \<Rightarrow> 'o"
  lu_device_descriptor :: "'d \<Rightarrow> Device_descriptor option"
  lu_active_config :: "'d \<Rightarrow> int + Interface_descriptor list list"
  lu_first_config :: "'d \<Rightarrow> int + Interface_descriptor list list"
  lu_open :: "'d \<Rightarrow> 'o \<Rightarrow> (int + int) \<times> 'o"
  lu_close :: "int \<Rightarrow> 'o \<Rightarrow> 'o"
  lu_string :: "int \<Rightarrow> byte \<Rightarrow> 'o \<Rightarrow> string option \<times> 'o"
  lu_auto_detach :: "int \<Rightarrow> 'o \<Rightarrow> 'o"
  lu_claim :: "int \<Rightarrow> int \<Rightarrow> 'o \<Rightarrow> int \<times> 'o"
  lu_release :: "int \<Rightarrow> int \<Rightarrow> 'o \<Rightarrow> 'o"
  lu_clear_halt :: "int \<Rightarrow> byte \<Rightarrow> 'o \<Rightarrow> 'o"
  lu_bulk_in :: "int \<Rightarrow> byte \<Rightarrow> nat \<Rightarrow> u32 \<Rightarrow> 'o \<Rightarrow> (int \<times> byte list) \<times> 'o"
  lu_bulk_out :: "int \<Rightarrow> byte \<Rightarrow> byte list \<Rightarrow> int \<Rightarrow> u32 \<Rightarrow> 'o \<Rightarrow> (int \<times> nat) \<times> 'o"
  lu_strerror :: "int \<Rightarrow> string"
  lu_now :: "'o \<Rightarrow> int"

definition LIBUSB_ERROR_TIMEOUT :: int where "LIBUSB_ERROR_TIMEOUT = -7"
definition LIBUSB_TRANSFER_TYPE_MASK :: byte where "LIBUSB_TRANSFER_TYPE_MASK = 3"
definition LIBUSB_TRANSFER_TYPE_BULK :: byte where "LIBUSB_TRANSFER_TYPE_BULK = 2"
definition LIBUSB_ENDPOINT_DIR_MASK :: byte where "LIBUSB_ENDPOINT_DIR_MASK = 0x80"
definition LIBUSB_ENDPOINT_IN :: byte where "LIBUSB_ENDPOINT_IN = 0x80"

definition kAdbInterfaceClass :: byte where "kAdbInterfaceClass = 0xFF"
definition kAdbInterfaceSubClass :: byte where "kAdbInterfaceSubClass = 0x42"
definition kAdbInterfaceProtocol :: byte where "kAdbInterfaceProtocol = 0x01"
definition kReadBufferSize :: nat where "kReadBufferSize = 256 * 1024"

definition usb_fail :: "('o, 'd) Libusb \<Rightarrow> string \<Rightarrow> int \<Rightarrow> Error" where
  "usb_fail U what code = mk_error Transport (what @ '': '' @ lu_strerror U code)"

section \<open>Selecting a device\<close>

record DeviceId =
  vendor_id :: u16
  product_id :: u16
  id_serial :: string

definition usb_device_serial :: "('o, 'd) Libusb \<Rightarrow> 'd \<Rightarrow> Device_descriptor \<Rightarrow> 'o \<Rightarrow> string \<times> 'o" where
  "usb_device_serial U device descriptor os =
     (if iSerialNumber descriptor = 0 then ([], os)
      else (case lu_open U device os of
              (Inl rc, o1) \<Rightarrow> ([], o1)
            | (Inr handle, o1) \<Rightarrow>
                (case lu_string U handle (iSerialNumber descriptor) o1 of
                   (r, o2) \<Rightarrow> (case r of None \<Rightarrow> [] | Some text \<Rightarrow> text, lu_close U handle o2))))"

definition matches :: "Device_descriptor \<Rightarrow> DeviceId \<Rightarrow> bool" where
  "matches descriptor i =
     (if vendor_id i \<noteq> 0 \<and> idVendor descriptor \<noteq> vendor_id i then False
      else if product_id i \<noteq> 0 \<and> idProduct descriptor \<noteq> product_id i then False
      else True)"

fun find_device :: "('o, 'd) Libusb \<Rightarrow> 'd list \<Rightarrow> DeviceId \<Rightarrow> 'o \<Rightarrow> 'd option \<times> 'o" where
  "find_device U [] i os = (None, os)"
| "find_device U (d # ds) i os =
     (case lu_device_descriptor U d of
        None \<Rightarrow> find_device U ds i os
      | Some descriptor \<Rightarrow>
          if \<not> matches descriptor i then find_device U ds i os
          else if id_serial i = [] then (Some d, os)
          else (case usb_device_serial U d descriptor os of
                  (s, o1) \<Rightarrow> if s = id_serial i then (Some d, o1) else find_device U ds i o1))"

record AdbInterface =
  ai_number :: int
  ai_endpoint_in :: byte
  ai_endpoint_out :: byte

definition is_adb :: "Interface_descriptor \<Rightarrow> bool" where
  "is_adb a \<longleftrightarrow> bInterfaceClass a = kAdbInterfaceClass \<and> bInterfaceSubClass a = kAdbInterfaceSubClass
     \<and> bInterfaceProtocol a = kAdbInterfaceProtocol"

text \<open>The loop over the endpoints of the setting that matched: the last one of each direction counts.\<close>

definition endpoint_step :: "Endpoint_descriptor \<Rightarrow> AdbInterface \<Rightarrow> AdbInterface" where
  "endpoint_step e found =
     (if bmAttributes e AND LIBUSB_TRANSFER_TYPE_MASK \<noteq> LIBUSB_TRANSFER_TYPE_BULK then found
      else if bEndpointAddress e AND LIBUSB_ENDPOINT_DIR_MASK = LIBUSB_ENDPOINT_IN
      then found\<lparr>ai_endpoint_in := bEndpointAddress e\<rparr>
      else found\<lparr>ai_endpoint_out := bEndpointAddress e\<rparr>)"

fun scan_altsettings :: "Interface_descriptor list \<Rightarrow> AdbInterface \<Rightarrow> AdbInterface" where
  "scan_altsettings [] found = found"
| "scan_altsettings (a # as) found =
     (if \<not> is_adb a then scan_altsettings as found
      else fold endpoint_step (endpoints a) (found\<lparr>ai_number := uint (bInterfaceNumber a)\<rparr>))"

fun scan_interfaces :: "Interface_descriptor list list \<Rightarrow> AdbInterface \<Rightarrow> AdbInterface" where
  "scan_interfaces [] found = found"
| "scan_interfaces (i # is) found =
     (if ai_number found < 0 then scan_interfaces is (scan_altsettings i found) else found)"

definition no_interface :: AdbInterface where
  "no_interface = \<lparr>ai_number = -1, ai_endpoint_in = 0, ai_endpoint_out = 0\<rparr>"

definition find_adb_interface :: "('o, 'd) Libusb \<Rightarrow> 'd \<Rightarrow> AdbInterface option Result" where
  "find_adb_interface U device =
     (case (case lu_active_config U device of Inl rc \<Rightarrow> lu_first_config U device | Inr config \<Rightarrow> Inr config) of
        Inl rc \<Rightarrow> Inl (usb_fail U ''libusb_get_config_descriptor'' rc)
      | Inr config \<Rightarrow>
          let found = scan_interfaces config no_interface in
          if ai_number found < 0 \<or> ai_endpoint_in found = 0 \<or> ai_endpoint_out found = 0 then Inr None
          else Inr (Some found))"

section \<open>Selectors as text\<close>

text \<open>\<open>std::stoul(text, nullptr, 16)\<close>: \<open>None\<close> when it throws.\<close>

definition hex_value :: "char \<Rightarrow> nat option" where
  "hex_value c =
     (let n = of_char c in
      if 48 \<le> n \<and> n \<le> 57 then Some (n - 48)
      else if 65 \<le> n \<and> n \<le> 70 then Some (n - 55)
      else if 97 \<le> n \<and> n \<le> 102 then Some (n - 87) else None)"

fun hex_digits :: "string \<Rightarrow> nat list" where
  "hex_digits [] = []"
| "hex_digits (c # cs) = (case hex_value c of None \<Rightarrow> [] | Some v \<Rightarrow> v # hex_digits cs)"

definition is_space :: "char \<Rightarrow> bool" where
  "is_space c \<longleftrightarrow> of_char c \<in> {9 :: nat, 10, 11, 12, 13, 32}"

definition drop_prefix_0x :: "string \<Rightarrow> string" where
  "drop_prefix_0x s =
     (case s of
        a # x # c # cs \<Rightarrow>
          if a = CHR ''0'' \<and> (x = CHR ''x'' \<or> x = CHR ''X'') \<and> hex_value c \<noteq> None then c # cs else s
      | _ \<Rightarrow> s)"

definition stoul_16 :: "string \<Rightarrow> nat option" where
  "stoul_16 text =
     (let s = dropWhile is_space text;
          negative = (s \<noteq> [] \<and> hd s = CHR ''-'');
          s = (if s \<noteq> [] \<and> (hd s = CHR ''-'' \<or> hd s = CHR ''+'') then tl s else s);
          ds = hex_digits (drop_prefix_0x s);
          v = foldl (\<lambda>acc d. 16 * acc + d) 0 ds in
      if ds = [] \<or> 2 ^ 64 \<le> v then None
      else Some (if negative then (2 ^ 64 - v) mod 2 ^ 64 else v))"

definition device_id_parse :: "string \<Rightarrow> DeviceId Result" where
  "device_id_parse text =
     (if take 7 text = ''serial:'' then
        if length text = 7 then Inl (mk_error InvalidArgument ''serial: needs a serial number'')
        else Inr \<lparr>vendor_id = 0, product_id = 0, id_serial = drop 7 text\<rparr>
      else
        (case str_find '':'' text of
           None \<Rightarrow> Inl (mk_error InvalidArgument ''expected VID:PID or serial:<serial>'')
         | Some colon \<Rightarrow>
             if colon = 0 \<or> colon + 1 = length text then
               Inl (mk_error InvalidArgument ''expected VID:PID or serial:<serial>'')
             else
               (case (stoul_16 (take colon text), stoul_16 (drop (colon + 1) text)) of
                  (Some v, Some p) \<Rightarrow> Inr \<lparr>vendor_id = of_nat v, product_id = of_nat p, id_serial = []\<rparr>
                | _ \<Rightarrow> Inl (mk_error InvalidArgument ''VID:PID must be hexadecimal''))))"

section \<open>Enumeration\<close>

definition is_present :: "('o, 'd) Libusb \<Rightarrow> DeviceId \<Rightarrow> ('o, bool) st" where
  "is_present U i os =
     (case lu_init U os of
        (Inl rc, o1) \<Rightarrow> (Inl (usb_fail U ''libusb_init'' rc), o1)
      | (Inr context, o1) \<Rightarrow>
          (case lu_device_list U context o1 of
             (Inl cnt, o2) \<Rightarrow> (Inr False, lu_exit U context o2)
           | (Inr devices, o2) \<Rightarrow>
               (case find_device U devices i o2 of
                  (match, o3) \<Rightarrow> (Inr (match \<noteq> None), lu_exit U context (lu_free_device_list U devices o3)))))"

fun list_devices :: "('o, 'd) Libusb \<Rightarrow> 'd list \<Rightarrow> 'o \<Rightarrow> DeviceId list \<times> 'o" where
  "list_devices U [] os = ([], os)"
| "list_devices U (d # ds) os =
     (case lu_device_descriptor U d of
        None \<Rightarrow> list_devices U ds os
      | Some descriptor \<Rightarrow>
          (case find_adb_interface U d of
             Inr (Some adb) \<Rightarrow>
               (case usb_device_serial U d descriptor os of
                  (s, o1) \<Rightarrow>
                    (case list_devices U ds o1 of
                       (found, o2) \<Rightarrow>
                         (\<lparr>vendor_id = idVendor descriptor, product_id = idProduct descriptor, id_serial = s\<rparr> # found, o2)))
           | _ \<Rightarrow> list_devices U ds os))"

definition usb_list :: "('o, 'd) Libusb \<Rightarrow> ('o, DeviceId list) st" where
  "usb_list U os =
     (case lu_init U os of
        (Inl rc, o1) \<Rightarrow> (Inl (usb_fail U ''libusb_init'' rc), o1)
      | (Inr context, o1) \<Rightarrow>
          (case lu_device_list U context o1 of
             (Inl cnt, o2) \<Rightarrow> (Inl (usb_fail U ''libusb_get_device_list'' cnt), lu_exit U context o2)
           | (Inr devices, o2) \<Rightarrow>
               (case list_devices U devices o2 of
                  (found, o3) \<Rightarrow> (Inr found, lu_exit U context (lu_free_device_list U devices o3)))))"

section \<open>The transport\<close>

record UsbTransport =
  usb_context :: "int option"
  usb_handle :: "int option"
  usb_interface_number :: int
  usb_endpoint_in :: byte
  usb_endpoint_out :: byte
  usb_claimed :: bool
  usb_incoming :: "byte list"
  usb_incoming_offset :: nat
  usb_serial :: string
  usb_transfer_timeout_ms :: u32
  usb_transfer_budget_ms :: u32

type_synonym 'o usb = "UsbTransport \<times> 'o"

definition usb_new :: "u32 \<Rightarrow> u32 \<Rightarrow> UsbTransport" where
  "usb_new transfer_timeout_ms transfer_budget_ms =
     \<lparr>usb_context = None, usb_handle = None, usb_interface_number = -1, usb_endpoint_in = 0, usb_endpoint_out = 0,
      usb_claimed = False, usb_incoming = [], usb_incoming_offset = 0, usb_serial = [],
      usb_transfer_timeout_ms = transfer_timeout_ms, usb_transfer_budget_ms = transfer_budget_ms\<rparr>"

text \<open>The destructor, also run on the half-opened transport of an \<open>open\<close> that fails.\<close>

definition usb_destroy :: "('o, 'd) Libusb \<Rightarrow> 'o usb \<Rightarrow> 'o" where
  "usb_destroy U X =
     (case X of (t, os) \<Rightarrow>
        let o1 = (case usb_handle t of
                    None \<Rightarrow> os
                  | Some h \<Rightarrow> lu_close U h (if usb_claimed t then lu_release U h (usb_interface_number t) os else os)) in
        (case usb_context t of None \<Rightarrow> o1 | Some context \<Rightarrow> lu_exit U context o1))"

text \<open>The end of \<open>open\<close>, on the device that was found: open it, claim its interface, clear the halts.\<close>

definition claim_device ::
  "('o, 'd) Libusb \<Rightarrow> 'd list \<Rightarrow> 'd \<Rightarrow> UsbTransport \<Rightarrow> ('o, UsbTransport) st" where
  "claim_device U devices match t os =
     (case (case lu_device_descriptor U match of
              None \<Rightarrow> (usb_serial t, os)
            | Some descriptor \<Rightarrow> usb_device_serial U match descriptor os) of
        (s, o1) \<Rightarrow>
          let t1 = t\<lparr>usb_serial := s\<rparr> in
          (case lu_open U match o1 of
             (Inl rc, o2) \<Rightarrow>
               (Inl (usb_fail U ''libusb_open'' rc), usb_destroy U (t1, lu_free_device_list U devices o2))
           | (Inr h, o2) \<Rightarrow>
               let t2 = t1\<lparr>usb_handle := Some h\<rparr>;
                   o3 = lu_auto_detach U h (lu_free_device_list U devices o2) in
               (case lu_claim U h (usb_interface_number t2) o3 of
                  (rc, o4) \<Rightarrow>
                    if rc \<noteq> 0 then (Inl (usb_fail U ''libusb_claim_interface'' rc), usb_destroy U (t2, o4))
                    else (Inr (t2\<lparr>usb_claimed := True\<rparr>),
                          lu_clear_halt U h (usb_endpoint_out t2) (lu_clear_halt U h (usb_endpoint_in t2) o4)))))"

definition usb_open :: "('o, 'd) Libusb \<Rightarrow> DeviceId \<Rightarrow> u32 \<Rightarrow> u32 \<Rightarrow> ('o, UsbTransport) st" where
  "usb_open U i transfer_timeout_ms transfer_budget_ms os =
     (let t = usb_new transfer_timeout_ms transfer_budget_ms in
      case lu_init U os of
        (Inl rc, o1) \<Rightarrow> (Inl (usb_fail U ''libusb_init'' rc), usb_destroy U (t, o1))
      | (Inr context, o1) \<Rightarrow>
          let t = t\<lparr>usb_context := Some context\<rparr> in
          (case lu_device_list U context o1 of
             (Inl cnt, o2) \<Rightarrow> (Inl (usb_fail U ''libusb_get_device_list'' cnt), usb_destroy U (t, o2))
           | (Inr devices, o2) \<Rightarrow>
               (case find_device U devices i o2 of
                  (None, o3) \<Rightarrow>
                    (Inl (mk_error Transport ''no USB device matching the given id''),
                     usb_destroy U (t, lu_free_device_list U devices o3))
                | (Some match, o3) \<Rightarrow>
                    (case find_adb_interface U match of
                       Inl e \<Rightarrow> (Inl e, usb_destroy U (t, lu_free_device_list U devices o3))
                     | Inr None \<Rightarrow>
                         (Inl (mk_error Transport ''ADB USB interface not found''),
                          usb_destroy U (t, lu_free_device_list U devices o3))
                     | Inr (Some adb) \<Rightarrow>
                         claim_device U devices match
                           (t\<lparr>usb_interface_number := ai_number adb, usb_endpoint_in := ai_endpoint_in adb,
                              usb_endpoint_out := ai_endpoint_out adb\<rparr>) o3))))"

definition usb_set_transfer_timeout :: "u32 \<Rightarrow> UsbTransport \<Rightarrow> UsbTransport" where
  "usb_set_transfer_timeout milliseconds t = t\<lparr>usb_transfer_timeout_ms := milliseconds\<rparr>"

definition usb_set_transfer_budget :: "u32 \<Rightarrow> UsbTransport \<Rightarrow> UsbTransport" where
  "usb_set_transfer_budget milliseconds t = t\<lparr>usb_transfer_budget_ms := milliseconds\<rparr>"

text \<open>
  The retry loop of a bulk transfer, over one transfer \<open>step\<close>; \<open>moved\<close> says whether the transfer moved
  anything. A null handle is the number \<open>-1\<close>.
\<close>

definition handle_of :: "UsbTransport \<Rightarrow> int" where
  "handle_of t = (case usb_handle t of None \<Rightarrow> -1 | Some h \<Rightarrow> h)"

partial_function (option) bulk_transfer ::
  "('o \<Rightarrow> int) \<Rightarrow> ('o \<Rightarrow> (int \<times> 'x) \<times> 'o) \<Rightarrow> ('x \<Rightarrow> bool) \<Rightarrow> int \<Rightarrow> 'o \<Rightarrow> ((int \<times> 'x) \<times> 'o) option" where
  "bulk_transfer now step moved deadline os =
     (case step os of
        ((rc, x), o1) \<Rightarrow>
          if rc \<noteq> LIBUSB_ERROR_TIMEOUT \<or> moved x then Some ((rc, x), o1)
          else if deadline \<le> now o1 then Some ((rc, x), o1)
          else bulk_transfer now step moved deadline o1)"

declare bulk_transfer.simps [code]

text \<open>The read buffer while a transfer writes into it, and a transfer into it.\<close>

definition resized :: "byte list \<Rightarrow> byte list" where
  "resized b = take kReadBufferSize (b @ replicate (kReadBufferSize - length b) 0)"

definition overwrite :: "byte list \<Rightarrow> byte list \<Rightarrow> byte list" where
  "overwrite bs b = bs @ drop (length bs) b"

definition hand_out :: "nat \<Rightarrow> 'o usb \<Rightarrow> byte list Result \<times> 'o usb" where
  "hand_out n X =
     (case X of (t, os) \<Rightarrow>
        let available = length (usb_incoming t) - usb_incoming_offset t; cnt = min available n in
        (Inr (take cnt (drop (usb_incoming_offset t) (usb_incoming t))),
         (t\<lparr>usb_incoming_offset := usb_incoming_offset t + cnt\<rparr>, os)))"

definition usb_read :: "('o, 'd) Libusb \<Rightarrow> nat \<Rightarrow> ('o usb, byte list) io" where
  "usb_read U n X =
     (case X of (t, os) \<Rightarrow>
        if usb_incoming_offset t < length (usb_incoming t) then Some (hand_out n X)
        else
          (case bulk_transfer (lu_now U)
                  (lu_bulk_in U (handle_of t) (usb_endpoint_in t) kReadBufferSize (usb_transfer_timeout_ms t))
                  (\<lambda>bs. bs \<noteq> []) (lu_now U os + uint (usb_transfer_budget_ms t)) os of
             None \<Rightarrow> None
           | Some ((rc, bs), o1) \<Rightarrow>
               if rc \<noteq> 0 \<and> \<not> (rc = LIBUSB_ERROR_TIMEOUT \<and> bs \<noteq> []) then
                 Some (Inl (usb_fail U ''libusb_bulk_transfer (read)'' rc),
                   (t\<lparr>usb_incoming := overwrite bs (resized (usb_incoming t))\<rparr>, o1))
               else
                 let t1 = t\<lparr>usb_incoming := bs, usb_incoming_offset := 0\<rparr> in
                 if bs = [] then Some (Inr [], (t1, o1)) else Some (hand_out n (t1, o1))))"

definition usb_write :: "('o, 'd) Libusb \<Rightarrow> byte list \<Rightarrow> ('o usb, unit) io" where
  "usb_write U data X =
     (case X of (t, os) \<Rightarrow>
        if data = [] then Some (Inr (), X)
        else
          (case bulk_transfer (lu_now U)
                  (lu_bulk_out U (handle_of t) (usb_endpoint_out t) data (sint (of_nat (length data) :: 32 word))
                     (usb_transfer_timeout_ms t))
                  (\<lambda>k. 0 < k) (lu_now U os + uint (usb_transfer_budget_ms t)) os of
             None \<Rightarrow> None
           | Some ((rc, transferred), o1) \<Rightarrow>
               if rc \<noteq> 0 then
                 Some (Inl (if rc = LIBUSB_ERROR_TIMEOUT \<and> 0 < transferred
                            then mk_error Transport ''short USB write: the stream is desynchronized''
                            else usb_fail U ''libusb_bulk_transfer (write)'' rc), (t, o1))
               else if transferred \<noteq> length data then
                 Some (Inl (mk_error Transport ''short USB write''), (t, o1))
               else Some (Inr (), (t, o1))))"

definition usb_wait_readable :: "('o, 'd) Libusb \<Rightarrow> int \<Rightarrow> ('o usb, bool) st" where
  "usb_wait_readable U timeout X =
     (case X of (t, os) \<Rightarrow>
        if usb_incoming_offset t < length (usb_incoming t) then (Inr True, X)
        else
          (case lu_bulk_in U (handle_of t) (usb_endpoint_in t) kReadBufferSize (word_of_int timeout) os of
             ((rc, bs), o1) \<Rightarrow>
               if rc \<noteq> 0 \<and> \<not> (rc = LIBUSB_ERROR_TIMEOUT \<and> bs \<noteq> []) then
                 (Inl (usb_fail U ''libusb_bulk_transfer (wait)'' rc),
                  (t\<lparr>usb_incoming := [], usb_incoming_offset := 0\<rparr>, o1))
               else (Inr (rc = 0 \<or> bs \<noteq> []), (t\<lparr>usb_incoming := bs, usb_incoming_offset := 0\<rparr>, o1))))"

definition usb_close :: "('o, 'd) Libusb \<Rightarrow> 'o usb \<Rightarrow> 'o usb" where
  "usb_close U X =
     (case X of (t, os) \<Rightarrow>
        (case usb_handle t of
           None \<Rightarrow> X
         | Some h \<Rightarrow>
             (t\<lparr>usb_claimed := False, usb_handle := None\<rparr>,
              lu_close U h (if usb_claimed t then lu_release U h (usb_interface_number t) os else os))))"

definition usb_ops :: "('o, 'd) Libusb \<Rightarrow> 'o usb Transport_ops" where
  "usb_ops U =
     \<lparr>tr_read = (\<lambda>t n. or_stuck (usb_read U n t) t), tr_write = (\<lambda>t bs. or_stuck (usb_write U bs t) t),
      tr_close = usb_close U, tr_serial = (\<lambda>t. usb_serial (fst t)),
      tr_wait_readable = (\<lambda>t timeout. usb_wait_readable U timeout t)\<rparr>"

section \<open>A pipe with the documented behaviour\<close>

text \<open>
  The bulk endpoints of a device that answers: \<open>inb\<close> are the bytes the device has still to send, \<open>outb\<close>
  those it has received. A transfer from the device delivers the next bytes, also when it reports a
  timeout; a transfer to the device is taken whole. Either may time out without having moved anything
  (\<open>silent\<close>), but not past \<open>due\<close>, which for a device that is \<open>alive\<close> lies within the transfer budget.
\<close>

definition silent ::
  "('o, 'd) Libusb \<Rightarrow> ('o \<Rightarrow> bool) \<Rightarrow> ('o \<Rightarrow> byte list) \<Rightarrow> ('o \<Rightarrow> byte list) \<Rightarrow> ('o \<Rightarrow> int) \<Rightarrow> 'o \<Rightarrow> 'o \<Rightarrow> bool" where
  "silent U alive inb outb due os o1 \<longleftrightarrow>
     lu_now U os < lu_now U o1 \<and> lu_now U o1 < due os \<and> due o1 = due os \<and> inb o1 = inb os \<and> outb o1 = outb os
     \<and> alive o1"

definition documented_pipe ::
  "('o, 'd) Libusb \<Rightarrow> UsbTransport \<Rightarrow> ('o \<Rightarrow> bool) \<Rightarrow> ('o \<Rightarrow> byte list) \<Rightarrow> ('o \<Rightarrow> byte list) \<Rightarrow> ('o \<Rightarrow> int) \<Rightarrow> bool" where
  "documented_pipe U t alive inb outb due \<longleftrightarrow>
     (\<forall>os. alive os \<longrightarrow> due os \<le> lu_now U os + uint (usb_transfer_budget_ms t))
     \<and> (\<forall>os. alive os \<and> inb os \<noteq> [] \<longrightarrow>
          (case lu_bulk_in U (handle_of t) (usb_endpoint_in t) kReadBufferSize (usb_transfer_timeout_ms t) os of
             ((rc, bs), o1) \<Rightarrow>
               if bs = [] then rc = LIBUSB_ERROR_TIMEOUT \<and> silent U alive inb outb due os o1
               else (rc = 0 \<or> rc = LIBUSB_ERROR_TIMEOUT) \<and> inb os = bs @ inb o1 \<and> outb o1 = outb os \<and> alive o1))
     \<and> (\<forall>os data. alive os \<and> data \<noteq> [] \<and> length data < 2 ^ 31 \<longrightarrow>
          (case lu_bulk_out U (handle_of t) (usb_endpoint_out t) data (int (length data)) (usb_transfer_timeout_ms t) os of
             ((rc, k), o1) \<Rightarrow>
               if k = 0 then rc = LIBUSB_ERROR_TIMEOUT \<and> silent U alive inb outb due os o1
               else rc = 0 \<and> k = length data \<and> outb o1 = outb os @ data \<and> inb o1 = inb os \<and> alive o1))"

lemma bulk_transfer_moves:
  assumes "Inv os"
    and step: "\<And>os. Inv os \<Longrightarrow> \<exists>rc x o1. step os = ((rc, x), o1) \<and>
      (if moved x then R rc x o1
       else rc = LIBUSB_ERROR_TIMEOUT \<and> now os < now o1 \<and> now o1 < deadline \<and> Inv o1)"
  shows "\<exists>rc x o1. bulk_transfer now step moved deadline os = Some ((rc, x), o1) \<and> moved x \<and> R rc x o1"
  using assms(1)
proof (induction "nat (deadline - now os)" arbitrary: os rule: less_induct)
  case less
  from step [OF less.prems] obtain rc x o1 where 1: "step os = ((rc, x), o1)"
    "if moved x then R rc x o1 else rc = LIBUSB_ERROR_TIMEOUT \<and> now os < now o1 \<and> now o1 < deadline \<and> Inv o1"
    by blast
  show ?case
  proof (cases "moved x")
    case True
    with 1 show ?thesis by (subst bulk_transfer.simps) auto
  next
    case False
    with 1 have 2: "rc = LIBUSB_ERROR_TIMEOUT" "now os < now o1" "now o1 < deadline" "Inv o1" by simp_all
    then have "bulk_transfer now step moved deadline os = bulk_transfer now step moved deadline o1"
      using 1(1) False by (subst bulk_transfer.simps) simp
    with less.hyps [OF _ 2(4)] 2 show ?thesis by simp
  qed
qed

lemma pipe_due:
  "documented_pipe U t alive inb outb due \<Longrightarrow> alive os \<Longrightarrow> due os \<le> lu_now U os + uint (usb_transfer_budget_ms t)"
  unfolding documented_pipe_def by blast

lemma pipe_in:
  assumes "documented_pipe U t alive inb outb due" "alive os" "inb os \<noteq> []" "due os \<le> deadline"
  shows "\<exists>rc bs o1. bulk_transfer (lu_now U)
      (lu_bulk_in U (handle_of t) (usb_endpoint_in t) kReadBufferSize (usb_transfer_timeout_ms t))
      (\<lambda>bs. bs \<noteq> []) deadline os = Some ((rc, bs), o1) \<and> bs \<noteq> []
    \<and> ((rc = 0 \<or> rc = LIBUSB_ERROR_TIMEOUT) \<and> inb os = bs @ inb o1 \<and> outb o1 = outb os \<and> alive o1)"
proof (rule bulk_transfer_moves
    [where Inv = "\<lambda>o'. alive o' \<and> inb o' = inb os \<and> outb o' = outb os \<and> due o' \<le> deadline"], goal_cases)
  case (2 o')
  let ?r = "lu_bulk_in U (handle_of t) (usb_endpoint_in t) kReadBufferSize (usb_transfer_timeout_ms t) o'"
  obtain rc bs o1 where r: "?r = ((rc, bs), o1)" by (metis surj_pair)
  have "if bs = [] then rc = LIBUSB_ERROR_TIMEOUT \<and> silent U alive inb outb due o' o1
      else (rc = 0 \<or> rc = LIBUSB_ERROR_TIMEOUT) \<and> inb o' = bs @ inb o1 \<and> outb o1 = outb o' \<and> alive o1"
    using assms(1) [unfolded documented_pipe_def, THEN conjunct2, THEN conjunct1, rule_format, of o'] 2 assms(3) r
    by simp
  with r 2 show ?case
    by (intro exI [of _ rc] exI [of _ bs] exI [of _ o1]) (auto simp: silent_def split: if_splits)
qed (use assms in simp)

lemma pipe_out:
  assumes "documented_pipe U t alive inb outb due" "alive os" "data \<noteq> []" "length data < 2 ^ 31" "due os \<le> deadline"
  shows "\<exists>rc k o1. bulk_transfer (lu_now U)
      (lu_bulk_out U (handle_of t) (usb_endpoint_out t) data (sint (of_nat (length data) :: 32 word)) (usb_transfer_timeout_ms t))
      (\<lambda>k. 0 < k) deadline os = Some ((rc, k), o1) \<and> 0 < k
    \<and> (rc = 0 \<and> k = length data \<and> outb o1 = outb os @ data \<and> inb o1 = inb os \<and> alive o1)"
proof (rule bulk_transfer_moves
    [where Inv = "\<lambda>o'. alive o' \<and> inb o' = inb os \<and> outb o' = outb os \<and> due o' \<le> deadline"], goal_cases)
  case (2 o')
  have size: "sint (of_nat (length data) :: 32 word) = int (length data)"
    using assms(4) by (simp add: signed_of_nat signed_take_bit_int_eq_self)
  let ?r = "lu_bulk_out U (handle_of t) (usb_endpoint_out t) data (int (length data)) (usb_transfer_timeout_ms t) o'"
  obtain rc k o1 where r: "?r = ((rc, k), o1)" by (metis surj_pair)
  have "if k = 0 then rc = LIBUSB_ERROR_TIMEOUT \<and> silent U alive inb outb due o' o1
      else rc = 0 \<and> k = length data \<and> outb o1 = outb o' @ data \<and> inb o1 = inb o' \<and> alive o1"
    using assms(1) [unfolded documented_pipe_def, THEN conjunct2, THEN conjunct2, rule_format, of o' data] 2 assms(3,4) r
    by simp
  with r 2 show ?case unfolding size
    by (intro exI [of _ rc] exI [of _ k] exI [of _ o1]) (auto simp: silent_def split: if_splits)
qed (use assms in simp)

text \<open>A transport like \<open>t0\<close>: opened on the same device, with the same timings.\<close>

definition usb_good :: "UsbTransport \<Rightarrow> ('o \<Rightarrow> bool) \<Rightarrow> 'o usb \<Rightarrow> bool" where
  "usb_good t0 alive X \<longleftrightarrow>
     (\<exists>b i. fst X = t0\<lparr>usb_incoming := b, usb_incoming_offset := i\<rparr> \<and> i \<le> length b) \<and> alive (snd X)"

definition usb_pending :: "('o \<Rightarrow> byte list) \<Rightarrow> 'o usb \<Rightarrow> byte list" where
  "usb_pending inb X = drop (usb_incoming_offset (fst X)) (usb_incoming (fst X)) @ inb (snd X)"

definition usb_sent :: "('o \<Rightarrow> byte list) \<Rightarrow> 'o usb \<Rightarrow> byte list" where
  "usb_sent outb X = outb (snd X)"

lemma usb_ops_sel [simp]:
  "tr_read (usb_ops U) t n = or_stuck (usb_read U n t) t" "tr_write (usb_ops U) t bs = or_stuck (usb_write U bs t) t"
  "tr_wait_readable (usb_ops U) t ms = usb_wait_readable U ms t"
  by (simp_all add: usb_ops_def)

lemma hand_out_length: "hand_out n X = (Inr bs, X') \<Longrightarrow> length bs \<le> n"
  by (auto simp: hand_out_def Let_def split: prod.splits)

interpretation usb_reads: bounded_reads "usb_ops U" for U :: "('o, 'd) Libusb"
  by unfold_locales
    (auto simp: or_stuck_def usb_read_def Let_def dest: hand_out_length split: option.splits prod.splits if_splits)

lemma hand_out_law:
  assumes "i < length b" "0 < n"
  shows "\<exists>bs i'. hand_out n (t\<lparr>usb_incoming := b, usb_incoming_offset := i\<rparr>, os) =
      (Inr bs, (t\<lparr>usb_incoming := b, usb_incoming_offset := i'\<rparr>, os))
    \<and> bs \<noteq> [] \<and> length bs \<le> n \<and> drop i b = bs @ drop i' b \<and> i' \<le> length b"
  using assms
  by (intro exI [of _ "take n (drop i b)"] exI [of _ "i + min (length b - i) n"])
    (auto simp: hand_out_def Let_def min_def)

lemma usb_link:
  assumes doc: "documented_pipe U t0 alive inb outb due"
  shows "link (usb_ops U) (usb_good t0 alive) (usb_pending inb) (usb_sent outb)"
proof
  fix X and n :: nat
  assume X: "usb_good t0 alive X" and n: "0 < n" and pending: "usb_pending inb X \<noteq> []"
  obtain b i os where Xeq: "X = (t0\<lparr>usb_incoming := b, usb_incoming_offset := i\<rparr>, os)" "i \<le> length b" "alive os"
    using X by (cases X) (auto simp: usb_good_def)
  show "\<exists>bs X'. tr_read (usb_ops U) X n = (Inr bs, X') \<and> bs \<noteq> [] \<and> length bs \<le> n
      \<and> usb_pending inb X = bs @ usb_pending inb X' \<and> usb_sent outb X' = usb_sent outb X \<and> usb_good t0 alive X'"
  proof (cases "i < length b")
    case True
    from hand_out_law [OF this n, of t0 os] obtain bs i' where
      "hand_out n X = (Inr bs, (t0\<lparr>usb_incoming := b, usb_incoming_offset := i'\<rparr>, os))" "bs \<noteq> []" "length bs \<le> n"
      "drop i b = bs @ drop i' b" "i' \<le> length b"
      unfolding Xeq(1) by blast
    with True Xeq show ?thesis
      by (auto simp: usb_read_def or_stuck_def usb_pending_def usb_sent_def usb_good_def)
  next
    case False
    with pending Xeq have "inb os \<noteq> []" by (simp add: usb_pending_def)
    with pipe_in [OF doc Xeq(3) this pipe_due [OF doc Xeq(3)]] obtain rc bs o1 where
      1: "bulk_transfer (lu_now U)
          (lu_bulk_in U (handle_of t0) (usb_endpoint_in t0) kReadBufferSize (usb_transfer_timeout_ms t0))
          (\<lambda>bs. bs \<noteq> []) (lu_now U os + uint (usb_transfer_budget_ms t0)) os = Some ((rc, bs), o1)"
        "bs \<noteq> []" "rc = 0 \<or> rc = LIBUSB_ERROR_TIMEOUT" "inb os = bs @ inb o1" "outb o1 = outb os" "alive o1"
      by blast
    have "handle_of (t0\<lparr>usb_incoming := b, usb_incoming_offset := i\<rparr>) = handle_of t0" by (simp add: handle_of_def)
    then have rd: "usb_read U n X = Some (hand_out n (t0\<lparr>usb_incoming := bs, usb_incoming_offset := 0\<rparr>, o1))"
      using False 1(1-3) by (auto simp: usb_read_def Xeq)
    have "0 < length bs" using 1(2) by simp
    from hand_out_law [OF this n, of t0 o1] obtain cs i' where
      2: "hand_out n (t0\<lparr>usb_incoming := bs, usb_incoming_offset := 0\<rparr>, o1) =
          (Inr cs, (t0\<lparr>usb_incoming := bs, usb_incoming_offset := i'\<rparr>, o1))" "cs \<noteq> []" "length cs \<le> n"
        "bs = cs @ drop i' bs" "i' \<le> length bs"
      by auto
    have "usb_pending inb X = cs @ usb_pending inb (t0\<lparr>usb_incoming := bs, usb_incoming_offset := i'\<rparr>, o1)"
      using False 1(4) append_assoc [of cs "drop i' bs" "inb o1"] unfolding 2(4) [symmetric]
      by (simp add: usb_pending_def Xeq)
    with rd 1(5,6) 2(1-3,5) show ?thesis
      by (auto simp: or_stuck_def usb_sent_def usb_good_def Xeq)
  qed
next
  fix X and bs :: "byte list"
  assume X: "usb_good t0 alive X" and len: "length bs < 2 ^ 31"
  obtain b i os where Xeq: "X = (t0\<lparr>usb_incoming := b, usb_incoming_offset := i\<rparr>, os)" "i \<le> length b" "alive os"
    using X by (cases X) (auto simp: usb_good_def)
  have h: "handle_of (t0\<lparr>usb_incoming := b, usb_incoming_offset := i\<rparr>) = handle_of t0" by (simp add: handle_of_def)
  show "\<exists>X'. tr_write (usb_ops U) X bs = (Inr (), X') \<and> usb_pending inb X' = usb_pending inb X
      \<and> usb_sent outb X' = usb_sent outb X @ bs \<and> usb_good t0 alive X'"
  proof (cases "bs = []")
    case True
    with X show ?thesis by (auto simp: usb_write_def or_stuck_def split: prod.splits)
  next
    case False
    from pipe_out [OF doc Xeq(3) this len pipe_due [OF doc Xeq(3)]] obtain rc k o1 where
      "bulk_transfer (lu_now U)
          (lu_bulk_out U (handle_of t0) (usb_endpoint_out t0) bs (sint (of_nat (length bs) :: 32 word)) (usb_transfer_timeout_ms t0))
          (\<lambda>k. 0 < k) (lu_now U os + uint (usb_transfer_budget_ms t0)) os = Some ((rc, k), o1)"
        "rc = 0" "k = length bs" "outb o1 = outb os @ bs" "inb o1 = inb os" "alive o1"
      by blast
    then have "usb_write U bs X = Some (Inr (), (t0\<lparr>usb_incoming := b, usb_incoming_offset := i\<rparr>, o1))"
      using False h by (simp add: usb_write_def Xeq)
    then show ?thesis
      using Xeq(2) \<open>outb o1 = outb os @ bs\<close> \<open>inb o1 = inb os\<close> \<open>alive o1\<close>
      by (auto simp: or_stuck_def usb_pending_def usb_sent_def usb_good_def Xeq(1))
  qed
qed

section \<open>Resources\<close>

text \<open>
  What the process has taken from libusb and not given back, \<open>res\<close>: contexts, device lists, handles and
  claimed interfaces. Only the calls that take or give back a resource change it.
\<close>

datatype resource = Context int | DeviceList | Handle int | Claim int int

definition usb_accounts :: "('o, 'd) Libusb \<Rightarrow> ('o \<Rightarrow> resource multiset) \<Rightarrow> bool" where
  "usb_accounts U res \<longleftrightarrow>
     (\<forall>os r o1. lu_init U os = (r, o1) \<longrightarrow> res o1 = (case r of Inl _ \<Rightarrow> res os | Inr c \<Rightarrow> add_mset (Context c) (res os)))
     \<and> (\<forall>c os. res (lu_exit U c os) = res os - {#Context c#})
     \<and> (\<forall>c os r o1. lu_device_list U c os = (r, o1) \<longrightarrow> res o1 = (case r of Inl _ \<Rightarrow> res os | Inr _ \<Rightarrow> add_mset DeviceList (res os)))
     \<and> (\<forall>ds os. res (lu_free_device_list U ds os) = res os - {#DeviceList#})
     \<and> (\<forall>d os r o1. lu_open U d os = (r, o1) \<longrightarrow> res o1 = (case r of Inl _ \<Rightarrow> res os | Inr h \<Rightarrow> add_mset (Handle h) (res os)))
     \<and> (\<forall>h os. res (lu_close U h os) = res os - {#Handle h#})
     \<and> (\<forall>h i os rc o1. lu_claim U h i os = (rc, o1) \<longrightarrow> res o1 = (if rc = 0 then add_mset (Claim h i) (res os) else res os))
     \<and> (\<forall>h i os. res (lu_release U h i os) = res os - {#Claim h i#})
     \<and> (\<forall>h i os r o1. lu_string U h i os = (r, o1) \<longrightarrow> res o1 = res os)
     \<and> (\<forall>h os. res (lu_auto_detach U h os) = res os)
     \<and> (\<forall>h e os. res (lu_clear_halt U h e os) = res os)"

lemma usb_accounts_simps:
  assumes "usb_accounts U res"
  shows "res (lu_exit U c os) = res os - {#Context c#}" "res (lu_free_device_list U ds os) = res os - {#DeviceList#}"
    "res (lu_close U h os) = res os - {#Handle h#}" "res (lu_release U h i os) = res os - {#Claim h i#}"
    "res (lu_auto_detach U h os) = res os" "res (lu_clear_halt U h e os) = res os"
  using assms by (auto simp: usb_accounts_def)

lemma usb_accounts_calls:
  assumes "usb_accounts U res"
  shows "lu_init U os = (r, o1) \<Longrightarrow> res o1 = (case r of Inl _ \<Rightarrow> res os | Inr c \<Rightarrow> add_mset (Context c) (res os))"
    "lu_device_list U c os = (l, o1) \<Longrightarrow> res o1 = (case l of Inl _ \<Rightarrow> res os | Inr _ \<Rightarrow> add_mset DeviceList (res os))"
    "lu_open U d os = (g, o1) \<Longrightarrow> res o1 = (case g of Inl _ \<Rightarrow> res os | Inr h \<Rightarrow> add_mset (Handle h) (res os))"
    "lu_claim U h i os = (rc, o1) \<Longrightarrow> res o1 = (if rc = 0 then add_mset (Claim h i) (res os) else res os)"
    "lu_string U h k os = (s, o1) \<Longrightarrow> res o1 = res os"
  using assms by (auto simp: usb_accounts_def)

lemma usb_device_serial_res:
  assumes "usb_accounts U res" "usb_device_serial U d desc os = (s, o1)"
  shows "res o1 = res os"
proof (cases "iSerialNumber desc = 0")
  case True
  with assms(2) show ?thesis by (simp add: usb_device_serial_def)
next
  case False
  obtain g o2 where g: "lu_open U d os = (g, o2)" by fastforce
  note o2 = usb_accounts_calls(3) [OF assms(1) g]
  show ?thesis
  proof (cases g)
    case (Inl rc)
    with assms(2) False g o2 show ?thesis by (simp add: usb_device_serial_def)
  next
    case (Inr h)
    obtain x o3 where "lu_string U h (iSerialNumber desc) o2 = (x, o3)" by fastforce
    with assms(2) False g o2 Inr usb_accounts_calls(5) [OF assms(1) this] show ?thesis
      by (auto simp: usb_device_serial_def usb_accounts_simps [OF assms(1)])
  qed
qed

lemma find_device_res:
  assumes "usb_accounts U res" "find_device U ds i os = (m, o1)"
  shows "res o1 = res os"
  using assms(2)
proof (induction ds arbitrary: os)
  case (Cons d ds)
  show ?case
  proof (cases "lu_device_descriptor U d")
    case None
    with Cons show ?thesis by simp
  next
    case (Some desc)
    obtain s o2 where "usb_device_serial U d desc os = (s, o2)" by fastforce
    with usb_device_serial_res [OF assms(1) this] Some Cons.prems Cons.IH [of os] Cons.IH [of o2] show ?thesis
      by (simp split: if_splits)
  qed
qed simp

lemma list_devices_res:
  assumes "usb_accounts U res" "list_devices U ds os = (m, o1)"
  shows "res o1 = res os"
  using assms(2)
proof (induction ds arbitrary: os m o1)
  case (Cons d ds)
  show ?case
  proof (cases "\<exists>desc adb. lu_device_descriptor U d = Some desc \<and> find_adb_interface U d = Inr (Some adb)")
    case True
    then obtain desc adb where d: "lu_device_descriptor U d = Some desc" "find_adb_interface U d = Inr (Some adb)"
      by blast
    obtain s o2 where s: "usb_device_serial U d desc os = (s, o2)" by fastforce
    obtain found o3 where f: "list_devices U ds o2 = (found, o3)" by fastforce
    from Cons.prems d s f Cons.IH [OF f] usb_device_serial_res [OF assms(1) s] show ?thesis by simp
  next
    case False
    then have "list_devices U (d # ds) os = list_devices U ds os"
      by (auto split: option.splits sum.splits)
    with Cons.prems have "list_devices U ds os = (m, o1)" by (simp only:)
    then show ?thesis by (rule Cons.IH)
  qed
qed simp

lemma usb_destroy_res:
  assumes "usb_accounts U res"
  shows "res (usb_destroy U (t, os)) = res os
    - (case usb_handle t of None \<Rightarrow> {#} | Some h \<Rightarrow> (if usb_claimed t then {#Claim h (usb_interface_number t)#} else {#}) + {#Handle h#})
    - (case usb_context t of None \<Rightarrow> {#} | Some c \<Rightarrow> {#Context c#})"
  by (simp add: usb_destroy_def usb_accounts_simps [OF assms] Let_def split: option.splits)

lemma claim_device_res:
  assumes "usb_accounts U res" "claim_device U ds m t os = (r, o1)" "usb_handle t = None" "\<not> usb_claimed t"
    and "usb_context t = Some c" "res os = base + {#Context c, DeviceList#}"
  shows "case r of Inl e \<Rightarrow> res o1 = base
    | Inr t' \<Rightarrow> \<exists>h. usb_handle t' = Some h \<and> usb_context t' = Some c \<and> usb_claimed t'
        \<and> res o1 = base + {#Context c, Handle h, Claim h (usb_interface_number t')#}"
proof -
  obtain s o2 where s: "(case lu_device_descriptor U m of
        None \<Rightarrow> (usb_serial t, os) | Some descriptor \<Rightarrow> usb_device_serial U m descriptor os) = (s, o2)"
    by fastforce
  then have o2: "res o2 = base + {#Context c, DeviceList#}"
    using usb_device_serial_res [OF assms(1)] assms(6) by (auto split: option.splits)
  obtain g o3 where g: "lu_open U m o2 = (g, o3)" by fastforce
  note o3 = usb_accounts_calls(3) [OF assms(1) g]
  show ?thesis
  proof (cases g)
    case (Inl rc)
    with assms(2-5) s g o2 o3 show ?thesis
      by (auto simp: claim_device_def usb_destroy_res [OF assms(1)] usb_accounts_simps [OF assms(1)])
  next
    case (Inr h)
    obtain rc o4 where k: "lu_claim U h (usb_interface_number t) (lu_auto_detach U h (lu_free_device_list U ds o3)) = (rc, o4)"
      by fastforce
    note o4 = usb_accounts_calls(4) [OF assms(1) k]
    from assms(2-5) s g o2 o3 k o4 Inr show ?thesis
      by (auto simp: claim_device_def usb_destroy_res [OF assms(1)] usb_accounts_simps [OF assms(1)] split: if_splits)
  qed
qed

lemma usb_open_res:
  assumes "usb_accounts U res" "usb_open U i tt b os = (r, o1)"
  shows "case r of Inl e \<Rightarrow> res o1 = res os
    | Inr t \<Rightarrow> \<exists>c h. usb_handle t = Some h \<and> usb_context t = Some c \<and> usb_claimed t
        \<and> res o1 = res os + {#Context c, Handle h, Claim h (usb_interface_number t)#}"
proof -
  note laws = usb_destroy_res [OF assms(1)] usb_accounts_simps [OF assms(1)]
  have new: "usb_handle (usb_new tt b) = None" "usb_context (usb_new tt b) = None" "\<not> usb_claimed (usb_new tt b)"
    by (simp_all add: usb_new_def)
  obtain g oa where g: "lu_init U os = (g, oa)" by fastforce
  note oa = usb_accounts_calls(1) [OF assms(1) g]
  show ?thesis
  proof (cases g)
    case (Inl rc)
    with assms(2) g oa new show ?thesis by (auto simp: usb_open_def laws)
  next
    case (Inr c)
    obtain l ob where l: "lu_device_list U c oa = (l, ob)" by fastforce
    note ob = usb_accounts_calls(2) [OF assms(1) l]
    show ?thesis
    proof (cases l)
      case (Inl n)
      with assms(2) g oa \<open>g = Inr c\<close> l ob new show ?thesis by (auto simp: usb_open_def laws)
    next
      case (Inr ds)
      obtain m oc where m: "find_device U ds i ob = (m, oc)" by fastforce
      have oc: "res oc = res os + {#Context c, DeviceList#}"
        using find_device_res [OF assms(1) m] oa ob \<open>g = Inr c\<close> Inr by simp
      note facts = assms(2) g \<open>g = Inr c\<close> l Inr m new
      show ?thesis
      proof (cases "\<exists>d adb. m = Some d \<and> find_adb_interface U d = Inr (Some adb)")
        case True
        then obtain d adb where "m = Some d" "find_adb_interface U d = Inr (Some adb)" by blast
        with facts have "claim_device U ds d ((usb_new tt b)\<lparr>usb_context := Some c, usb_interface_number := ai_number adb,
            usb_endpoint_in := ai_endpoint_in adb, usb_endpoint_out := ai_endpoint_out adb\<rparr>) oc = (r, o1)"
          by (simp add: usb_open_def)
        from claim_device_res [OF assms(1) this _ _ _ oc] new show ?thesis by (auto split: sum.splits)
      next
        case False
        with facts have "\<exists>e. r = Inl e \<and> o1 = usb_destroy U ((usb_new tt b)\<lparr>usb_context := Some c\<rparr>,
            lu_free_device_list U ds oc)"
          by (auto simp: usb_open_def Let_def split: option.splits sum.splits)
        with oc new show ?thesis by (auto simp: laws)
      qed
    qed
  qed
qed

section \<open>The interface that is found\<close>

lemma fold_endpoint_step:
  "(let f = fold endpoint_step es found in
      ai_number f = ai_number found
      \<and> (ai_endpoint_in f = ai_endpoint_in found \<or> (\<exists>e \<in> set es. bEndpointAddress e = ai_endpoint_in f
           \<and> bmAttributes e AND 3 = 2 \<and> bEndpointAddress e AND 0x80 = 0x80))
      \<and> (ai_endpoint_out f = ai_endpoint_out found \<or> (\<exists>e \<in> set es. bEndpointAddress e = ai_endpoint_out f
           \<and> bmAttributes e AND 3 = 2 \<and> bEndpointAddress e AND 0x80 \<noteq> 0x80)))"
proof (induction es arbitrary: found)
  case (Cons e es)
  from Cons [of "endpoint_step e found"] show ?case
    by (auto simp: Let_def endpoint_step_def LIBUSB_TRANSFER_TYPE_MASK_def LIBUSB_TRANSFER_TYPE_BULK_def
        LIBUSB_ENDPOINT_DIR_MASK_def LIBUSB_ENDPOINT_IN_def split: if_splits)
qed (simp add: Let_def)

lemma find_append: "find Q (xs @ ys) = (case find Q xs of None \<Rightarrow> find Q ys | Some x \<Rightarrow> Some x)"
  by (induction xs) auto

lemma scan_altsettings_first:
  "scan_altsettings as found =
     (case find is_adb as of None \<Rightarrow> found
      | Some a \<Rightarrow> fold endpoint_step (endpoints a) (found\<lparr>ai_number := uint (bInterfaceNumber a)\<rparr>))"
  by (induction as) auto

lemma scan_interfaces_found: "0 \<le> ai_number found \<Longrightarrow> scan_interfaces is found = found"
  by (cases "is") simp_all

lemma scan_interfaces_first:
  "ai_number found < 0 \<Longrightarrow> scan_interfaces is found = scan_altsettings (concat is) found"
proof (induction "is" arbitrary: found)
  case (Cons i "is")
  show ?case
  proof (cases "find is_adb i")
    case None
    then have "scan_altsettings i found = found" "find is_adb (concat (i # is)) = find is_adb (concat is)"
      by (simp_all add: scan_altsettings_first find_append)
    with Cons show ?thesis by (simp add: scan_altsettings_first)
  next
    case (Some a)
    then have "0 \<le> ai_number (scan_altsettings i found)"
      using fold_endpoint_step [of "endpoints a" "found\<lparr>ai_number := uint (bInterfaceNumber a)\<rparr>"]
      by (simp add: scan_altsettings_first Let_def)
    with Some Cons.prems show ?thesis
      by (simp add: scan_interfaces_found scan_altsettings_first find_append)
  qed
qed simp

section \<open>A sample device\<close>

text \<open>
  The state is the clock, the bytes the device has still to send, those it received, and what is held of
  libusb. A transfer from the device times out at odd times and brings at most ten bytes at even ones.
\<close>

type_synonym sample_state = "int \<times> byte list \<times> byte list \<times> resource multiset"

definition sample_interface :: Interface_descriptor where
  "sample_interface = \<lparr>bInterfaceNumber = 1, bInterfaceClass = 0xFF, bInterfaceSubClass = 0x42, bInterfaceProtocol = 1,
     endpoints = [\<lparr>bmAttributes = 2, bEndpointAddress = 0x81\<rparr>, \<lparr>bmAttributes = 2, bEndpointAddress = 0x02\<rparr>]\<rparr>"

definition hold :: "resource \<Rightarrow> sample_state \<Rightarrow> sample_state" where
  "hold x s = (case s of (now, i, q, R) \<Rightarrow> (now, i, q, add_mset x R))"

definition give_back :: "resource \<Rightarrow> sample_state \<Rightarrow> sample_state" where
  "give_back x s = (case s of (now, i, q, R) \<Rightarrow> (now, i, q, R - {#x#}))"

definition sample_usb :: "(sample_state, unit) Libusb" where
  "sample_usb =
     \<lparr>lu_init = (\<lambda>s. (Inr 1, hold (Context 1) s)), lu_exit = (\<lambda>c. give_back (Context c)),
      lu_device_list = (\<lambda>c s. (Inr [()], hold DeviceList s)), lu_free_device_list = (\<lambda>ds. give_back DeviceList),
      lu_device_descriptor = (\<lambda>d. Some \<lparr>idVendor = 0x18d1, idProduct = 0x4ee7, iSerialNumber = 3\<rparr>),
      lu_active_config = (\<lambda>d. Inr [[], [sample_interface]]), lu_first_config = (\<lambda>d. Inl (-5)),
      lu_open = (\<lambda>d s. (Inr 7, hold (Handle 7) s)), lu_close = (\<lambda>h. give_back (Handle h)),
      lu_string = (\<lambda>h i s. (Some ''abc'', s)), lu_auto_detach = (\<lambda>h s. s),
      lu_claim = (\<lambda>h i s. (0, hold (Claim h i) s)), lu_release = (\<lambda>h i. give_back (Claim h i)),
      lu_clear_halt = (\<lambda>h e s. s),
      lu_bulk_in = (\<lambda>h e n tm (now, i, q, R). if odd now then ((LIBUSB_ERROR_TIMEOUT, []), (now + 1, i, q, R))
         else ((0, take 10 i), (now + 1, drop 10 i, q, R))),
      lu_bulk_out = (\<lambda>h e bs n tm (now, i, q, R). ((0, length bs), (now, i, q @ bs, R))),
      lu_strerror = (\<lambda>c. ''failed''), lu_now = (\<lambda>(now, i, q, R). now)\<rparr>"

lemma sample_usb_accounts: "usb_accounts sample_usb (\<lambda>(now, i, q, R). R)"
  by (auto simp: usb_accounts_def sample_usb_def hold_def give_back_def)

definition sample_usb_transport :: UsbTransport where
  "sample_usb_transport = (usb_new 5 10)\<lparr>usb_context := Some 1, usb_handle := Some 7, usb_interface_number := 1,
     usb_endpoint_in := 0x81, usb_endpoint_out := 2, usb_claimed := True, usb_serial := ''abc''\<rparr>"

lemma sample_usb_documented:
  "documented_pipe sample_usb sample_usb_transport (\<lambda>s. True) (\<lambda>(now, i, q, R). i) (\<lambda>(now, i, q, R). q)
     (\<lambda>(now, i, q, R). if odd now then now + 2 else now + 1)"
  by (auto simp: documented_pipe_def sample_usb_def sample_usb_transport_def usb_new_def silent_def)

section \<open>Properties\<close>

text \<open>
  C24. A session over USB carries frames: on bulk endpoints with the documented behaviour, whose device is
  never silent for longer than the transfer budget, the frames sent reach the device complete and in
  order, and the frames the device sends are received as they are, however they are cut into
  transfers. A transfer that times out empty-handed is repeated, one that times out with bytes is used.
\<close>

theorem usb_carries_frames:
  assumes "documented_pipe U t alive inb outb due"
    and "live (usb_good t alive) s" "list_all valid_frame fs" "list_all valid_frame gs"
    and "inbox (usb_pending inb) s = wire gs @ rest"
  shows "\<exists>s1 s2. send_frames (usb_ops U) fs s = (Inr (), s1)
    \<and> receive_frames (usb_ops U) (length gs) s1 = (Inr gs, s2)
    \<and> outbox (usb_sent outb) s2 = outbox (usb_sent outb) s @ wire fs \<and> inbox (usb_pending inb) s2 = rest"
proof -
  note link = usb_link [OF assms(1)]
  obtain s1 where s1: "send_frames (usb_ops U) fs s = (Inr (), s1)" "live (usb_good t alive) s1"
    "inbox (usb_pending inb) s1 = wire gs @ rest" "outbox (usb_sent outb) s1 = outbox (usb_sent outb) s @ wire fs"
    using link.send_frames_wire [OF link assms(2,3)] assms(5) by auto
  from link.receive_frames_wire [OF link s1(2) assms(4) s1(3)] s1 show ?thesis by auto
qed

theorem usb_carries_frames_witness:
  "\<exists>s1 s2. send_frames (usb_ops sample_usb) [sample_frame]
        (session_new (sample_usb_transport, (1, wire [sample_frame] @ [1], [], {#}))) = (Inr (), s1)
    \<and> receive_frames (usb_ops sample_usb) 1 s1 = (Inr [sample_frame], s2)
    \<and> outbox (usb_sent (\<lambda>(now, i, q, R). q)) s2 = wire [sample_frame]
    \<and> inbox (usb_pending (\<lambda>(now, i, q, R). i)) s2 = [1]"
proof -
  let ?s = "session_new (sample_usb_transport, (1, wire [sample_frame] @ [1], [], {#}) :: sample_state)"
  have t: "sample_usb_transport = sample_usb_transport\<lparr>usb_incoming := [], usb_incoming_offset := 0\<rparr>"
    by (simp add: sample_usb_transport_def usb_new_def)
  have "live (usb_good sample_usb_transport (\<lambda>s. True)) ?s"
    "inbox (usb_pending (\<lambda>(now, i, q, R). i)) ?s = wire [sample_frame] @ [1]"
    "outbox (usb_sent (\<lambda>(now, i, q, R). q)) ?s = []"
    using t by (auto simp: live_def inbox_def outbox_def session_new_def usb_good_def usb_pending_def usb_sent_def
        sample_usb_transport_def usb_new_def)
  with usb_carries_frames [OF sample_usb_documented this(1), of "[sample_frame]" "[sample_frame]" "[1]"]
  show ?thesis by simp
qed



text \<open>
  A failed read poisons the read buffer: when a transfer fails outright, the buffer has been enlarged
  for it already and stays so, and the next read returns bytes from it, with success and without any
  transfer, although the device sent none of them. On a fresh transport these bytes are zeros.
\<close>

theorem usb_failed_read_leaves_garbage:
  assumes "usb_incoming t = []" "usb_incoming_offset t = 0" "0 < n"
    and "lu_bulk_in U (handle_of t) (usb_endpoint_in t) kReadBufferSize (usb_transfer_timeout_ms t) os = ((rc, []), o1)"
    and "rc \<noteq> 0" "rc \<noteq> LIBUSB_ERROR_TIMEOUT"
  shows "\<exists>t1 t2. usb_read U n (t, os) = Some (Inl (usb_fail U ''libusb_bulk_transfer (read)'' rc), (t1, o1))
    \<and> usb_read U n (t1, o1) = Some (Inr (replicate (min n kReadBufferSize) 0), (t2, o1))"
proof -
  let ?t1 = "t\<lparr>usb_incoming := replicate kReadBufferSize 0\<rparr>"
  have "usb_read U n (t, os) = Some (Inl (usb_fail U ''libusb_bulk_transfer (read)'' rc), (?t1, o1))"
    using assms(1,2,4-6)
    by (simp add: usb_read_def bulk_transfer.simps [of _ _ _ _ os] overwrite_def resized_def)
  moreover have "usb_read U n (?t1, o1) = Some (Inr (replicate (min n kReadBufferSize) 0),
      (?t1\<lparr>usb_incoming_offset := min kReadBufferSize n\<rparr>, o1))"
    using assms(2) by (simp add: usb_read_def hand_out_def Let_def min.commute kReadBufferSize_def)
  ultimately show ?thesis by blast
qed

theorem usb_failed_read_leaves_garbage_witness:
  "\<exists>t1 t2. usb_read (sample_usb\<lparr>lu_bulk_in := (\<lambda>h e n tm s. ((-4, []), s))\<rparr>) 4 (sample_usb_transport, (0, [], [], {#})) =
       Some (Inl (mk_error Transport ''libusb_bulk_transfer (read): failed''), (t1, (0, [], [], {#})))
    \<and> usb_read (sample_usb\<lparr>lu_bulk_in := (\<lambda>h e n tm s. ((-4, []), s))\<rparr>) 4 (t1, (0, [], [], {#})) =
       Some (Inr [0, 0, 0, 0], (t2, (0, [], [], {#})))"
proof -
  let ?U = "sample_usb\<lparr>lu_bulk_in := (\<lambda>h e n tm s. ((-4, []), s))\<rparr>"
  have "usb_fail ?U ''libusb_bulk_transfer (read)'' (-4) = mk_error Transport ''libusb_bulk_transfer (read): failed''"
    by (simp add: usb_fail_def sample_usb_def)
  moreover have "min 4 kReadBufferSize = Suc (Suc (Suc (Suc 0)))"
    by (simp add: kReadBufferSize_def)
  then have "replicate (min 4 kReadBufferSize) (0 :: byte) = [0, 0, 0, 0]"
    by (simp only: replicate.simps)
  moreover have "usb_incoming sample_usb_transport = []" "usb_incoming_offset sample_usb_transport = 0"
    by (simp_all add: sample_usb_transport_def usb_new_def)
  ultimately show ?thesis
    using usb_failed_read_leaves_garbage [of sample_usb_transport 4 ?U "(0, [], [], {#})" "-4" "(0, [], [], {#})"]
    by (simp add: LIBUSB_ERROR_TIMEOUT_def)
qed

text \<open>
  A quiet USB device fails every wait: when the transfer of \<open>wait_readable\<close> times out without bytes,
  the transport reports an error instead of not being readable, and so the wait on several
  transports fails at once with that error when it reaches such a device, although its own timeout
  has not passed and later transports were not asked.
\<close>

theorem usb_quiet_device_fails_the_wait:
  assumes "usb_incoming t = []"
    and "lu_bulk_in U (handle_of t) (usb_endpoint_in t) kReadBufferSize 0 os = ((LIBUSB_ERROR_TIMEOUT, []), o1)"
  shows "\<exists>ts'. wait_readable (usb_ops U) now sleep ((t, os) # ts) timeout c =
    Some (Inl (usb_fail U ''libusb_bulk_transfer (wait)'' LIBUSB_ERROR_TIMEOUT), ts', c)"
proof -
  have "LIBUSB_ERROR_TIMEOUT \<noteq> 0" by (simp add: LIBUSB_ERROR_TIMEOUT_def)
  with assms have "\<exists>X'. usb_wait_readable U 0 (t, os) =
      (Inl (usb_fail U ''libusb_bulk_transfer (wait)'' LIBUSB_ERROR_TIMEOUT), X')"
    by (simp add: usb_wait_readable_def)
  then have "\<exists>ts'. wait_pass (usb_ops U) ((t, os) # ts) =
      (Inl (usb_fail U ''libusb_bulk_transfer (wait)'' LIBUSB_ERROR_TIMEOUT), ts')"
    by auto
  then show ?thesis
    unfolding wait_readable_def by (subst wait_loop.simps) auto
qed

theorem usb_quiet_device_fails_the_wait_witness:
  "\<exists>ts'. wait_readable (usb_ops sample_usb) id (+)
       [(sample_usb_transport, (1, [5], [], {#})), (sample_usb_transport, (2, [6], [], {#}))] 1000 0 =
     Some (Inl (mk_error Transport ''libusb_bulk_transfer (wait): failed''), ts', 0)"
proof -
  have "usb_fail sample_usb ''libusb_bulk_transfer (wait)'' LIBUSB_ERROR_TIMEOUT =
      mk_error Transport ''libusb_bulk_transfer (wait): failed''"
    by (simp add: usb_fail_def sample_usb_def)
  moreover have "usb_incoming sample_usb_transport = []"
    by (simp add: sample_usb_transport_def usb_new_def)
  moreover have "lu_bulk_in sample_usb (handle_of sample_usb_transport) (usb_endpoint_in sample_usb_transport)
      kReadBufferSize 0 (1, [5], [], {#}) = ((LIBUSB_ERROR_TIMEOUT, []), (2, [5], [], {#}))"
    by (simp add: sample_usb_def)
  ultimately show ?thesis using usb_quiet_device_fails_the_wait [of sample_usb_transport sample_usb] by metis
qed

text \<open>
  The interface that is claimed is ADB's: an interface that is found is the first setting of the
  configuration with Android's class, subclass and protocol, and its two endpoints are bulk endpoints
  of that setting, one for each direction.
\<close>

theorem usb_interface_is_adb:
  assumes "find_adb_interface U d = Inr (Some f)"
  shows "\<exists>config a. (lu_active_config U d = Inr config \<or> lu_first_config U d = Inr config)
    \<and> find is_adb (concat config) = Some a \<and> ai_number f = uint (bInterfaceNumber a)
    \<and> (\<exists>e \<in> set (endpoints a). bEndpointAddress e = ai_endpoint_in f \<and> bmAttributes e AND 3 = 2
         \<and> bEndpointAddress e AND 0x80 = 0x80)
    \<and> (\<exists>e \<in> set (endpoints a). bEndpointAddress e = ai_endpoint_out f \<and> bmAttributes e AND 3 = 2
         \<and> bEndpointAddress e AND 0x80 \<noteq> 0x80)"
proof -
  obtain config where c: "lu_active_config U d = Inr config \<or> lu_first_config U d = Inr config"
    and f: "f = scan_interfaces config no_interface" "\<not> ai_number f < 0" "ai_endpoint_in f \<noteq> 0" "ai_endpoint_out f \<noteq> 0"
    using assms by (auto simp: find_adb_interface_def Let_def split: sum.splits if_splits)
  have "f = scan_altsettings (concat config) no_interface"
    using f(1) by (simp add: scan_interfaces_first no_interface_def)
  with f(2) obtain a where a: "find is_adb (concat config) = Some a"
    and fa: "f = fold endpoint_step (endpoints a) (no_interface\<lparr>ai_number := uint (bInterfaceNumber a)\<rparr>)"
    by (auto simp: scan_altsettings_first no_interface_def split: option.splits)
  show ?thesis
    using c a f(3,4) fold_endpoint_step [of "endpoints a" "no_interface\<lparr>ai_number := uint (bInterfaceNumber a)\<rparr>"]
    unfolding fa [symmetric] Let_def by (intro exI [of _ config] exI [of _ a]) (auto simp: no_interface_def)
qed

theorem usb_interface_is_adb_witness:
  "\<exists>e \<in> set (endpoints sample_interface). bEndpointAddress e = 0x81 \<and> bmAttributes e AND 3 = 2"
proof -
  have "find_adb_interface sample_usb () = Inr (Some \<lparr>ai_number = 1, ai_endpoint_in = 0x81, ai_endpoint_out = 2\<rparr>)"
    by (simp add: find_adb_interface_def sample_usb_def sample_interface_def is_adb_def no_interface_def endpoint_step_def
        kAdbInterfaceClass_def kAdbInterfaceSubClass_def kAdbInterfaceProtocol_def Let_def
        LIBUSB_TRANSFER_TYPE_MASK_def LIBUSB_TRANSFER_TYPE_BULK_def LIBUSB_ENDPOINT_DIR_MASK_def LIBUSB_ENDPOINT_IN_def)
  from usb_interface_is_adb [OF this] show ?thesis
    by (auto simp: sample_usb_def sample_interface_def is_adb_def kAdbInterfaceClass_def kAdbInterfaceSubClass_def
        kAdbInterfaceProtocol_def split: if_splits)
qed

text \<open>Numbers in hexadecimal, as a selector has them.\<close>

definition hex_char :: "nat \<Rightarrow> char" where
  "hex_char d = ''0123456789abcdef'' ! d"

fun hex_text :: "nat \<Rightarrow> string" where
  "hex_text n = (if n < 16 then [hex_char n] else hex_text (n div 16) @ [hex_char (n mod 16)])"

declare hex_text.simps [simp del]

lemma hex_char_facts:
  assumes "d < 16"
  shows "hex_value (hex_char d) = Some d" "\<not> is_space (hex_char d)"
    "hex_char d \<notin> {CHR ''-'', CHR ''+'', CHR ''x'', CHR ''X'', CHR '':'', CHR ''s''}"
proof -
  have "d \<in> {0, 1, 2, 3, 4, 5, 6, 7, 8, 9, 10, 11, 12, 13, 14, 15}" using assms by (simp, presburger)
  then show "hex_value (hex_char d) = Some d" "\<not> is_space (hex_char d)"
    "hex_char d \<notin> {CHR ''-'', CHR ''+'', CHR ''x'', CHR ''X'', CHR '':'', CHR ''s''}"
    by (auto simp: hex_char_def hex_value_def is_space_def)
qed

lemma hex_text_set: "c \<in> set (hex_text n) \<Longrightarrow> \<exists>d < 16. c = hex_char d"
proof (induction n rule: hex_text.induct)
  case (1 n)
  show ?case
  proof (cases "n < 16")
    case True
    with 1(2) show ?thesis by (auto simp: hex_text.simps [of n])
  next
    case False
    with 1(2) have "c \<in> set (hex_text (n div 16)) \<or> c = hex_char (n mod 16)" by (auto simp: hex_text.simps [of n])
    moreover have "n mod 16 < 16" by simp
    ultimately show ?thesis using 1(1) False by metis
  qed
qed

lemma hex_text_not_Nil [simp]: "hex_text n \<noteq> []"
  by (simp add: hex_text.simps [of n])

lemma hex_digits_append:
  "(\<And>c. c \<in> set s \<Longrightarrow> hex_value c \<noteq> None) \<Longrightarrow> hex_digits (s @ r) = hex_digits s @ hex_digits r"
proof (induction s)
  case (Cons c s)
  then obtain v where "hex_value c = Some v" by fastforce
  with Cons show ?case by simp
qed simp

lemma hex_text_value: "foldl (\<lambda>acc d. 16 * acc + d) 0 (hex_digits (hex_text n)) = n"
proof (induction n rule: hex_text.induct)
  case (1 n)
  show ?case
  proof (cases "n < 16")
    case True
    then show ?thesis by (simp add: hex_text.simps [of n] hex_char_facts)
  next
    case False
    have "hex_digits (hex_text (n div 16) @ [hex_char (n mod 16)]) = hex_digits (hex_text (n div 16)) @ [n mod 16]"
      by (subst hex_digits_append) (use hex_text_set hex_char_facts(1) in \<open>fastforce\<close>, simp add: hex_char_facts)
    with 1 False show ?thesis by (simp add: hex_text.simps [of n])
  qed
qed

lemma hex_digits_not_Nil: "hex_digits (hex_text n) \<noteq> []"
proof -
  obtain c cs where c: "hex_text n = c # cs" by (meson hex_text_not_Nil list.exhaust)
  then obtain d where "d < 16" "c = hex_char d" using hex_text_set [of c n] by auto
  with c show ?thesis by (simp add: hex_char_facts)
qed

lemma stoul_16_hex_text:
  assumes "n < 2 ^ 64"
  shows "stoul_16 (hex_text n) = Some n"
proof -
  obtain c cs where c: "hex_text n = c # cs" by (meson hex_text_not_Nil list.exhaust)
  have set: "\<And>a. a \<in> set (hex_text n) \<Longrightarrow> \<not> is_space a \<and> a \<notin> {CHR ''-'', CHR ''+'', CHR ''x'', CHR ''X''}"
    using hex_text_set hex_char_facts(2,3) by (metis insert_iff)
  have "dropWhile is_space (hex_text n) = hex_text n" "hd (hex_text n) \<notin> {CHR ''-'', CHR ''+''}"
    using set [of c] by (simp_all add: c)
  moreover have "drop_prefix_0x (hex_text n) = hex_text n"
    using set [of "hd cs"] by (auto simp: drop_prefix_0x_def c split: list.splits)
  ultimately show ?thesis
    using assms hex_text_value [of n] hex_digits_not_Nil [of n] by (simp add: stoul_16_def Let_def)
qed

text \<open>
  Selectors are parsed as they are written: two hexadecimal numbers and a colon give the vendor and
  the product, kept to their sixteen low bits, so that numbers of at most four digits come back as
  they are; a serial number after \<open>serial:\<close> is taken verbatim and leaves the ids to match anything. The
  device that a selector finds matches it: its vendor and product where they are given.
\<close>

theorem device_id_round_trip:
  assumes "v < 2 ^ 64" "p < 2 ^ 64" "s \<noteq> []"
  shows "device_id_parse (hex_text v @ '':'' @ hex_text p) =
      Inr \<lparr>vendor_id = of_nat v, product_id = of_nat p, id_serial = []\<rparr>
    \<and> device_id_parse (''serial:'' @ s) = Inr \<lparr>vendor_id = 0, product_id = 0, id_serial = s\<rparr>
    \<and> (find_device U ds i os = (Some d, o1) \<longrightarrow> d \<in> set ds \<and> (\<exists>desc. lu_device_descriptor U d = Some desc
         \<and> (vendor_id i = 0 \<or> idVendor desc = vendor_id i) \<and> (product_id i = 0 \<or> idProduct desc = product_id i)))"
proof (intro conjI impI)
  have set: "\<And>n a. a \<in> set (hex_text n) \<Longrightarrow> a \<notin> {CHR '':'', CHR ''s''}"
    using hex_text_set hex_char_facts(3) by (metis insert_iff)
  obtain c cs where c: "hex_text v = c # cs" by (meson hex_text_not_Nil list.exhaust)
  have "take 7 (hex_text v @ '':'' @ hex_text p) \<noteq> ''serial:''"
    using set [of c v] by (simp add: c numeral_eq_Suc)
  moreover have "str_find '':'' (hex_text v @ '':'' @ hex_text p) = Some (length (hex_text v))"
  proof -
    have "CHR '':'' \<notin> set (hex_text v)" using set [of "CHR '':''" v] by auto
    then show ?thesis by (simp add: str_find_char_append)
  qed
  ultimately show "device_id_parse (hex_text v @ '':'' @ hex_text p) =
      Inr \<lparr>vendor_id = of_nat v, product_id = of_nat p, id_serial = []\<rparr>"
    using stoul_16_hex_text [OF assms(1)] stoul_16_hex_text [OF assms(2)] by (simp add: device_id_parse_def)
  show "device_id_parse (''serial:'' @ s) = Inr \<lparr>vendor_id = 0, product_id = 0, id_serial = s\<rparr>"
    using assms(3) by (simp add: device_id_parse_def)
next
  assume "find_device U ds i os = (Some d, o1)"
  then show "d \<in> set ds" "\<exists>desc. lu_device_descriptor U d = Some desc
      \<and> (vendor_id i = 0 \<or> idVendor desc = vendor_id i) \<and> (product_id i = 0 \<or> idProduct desc = product_id i)"
    by (induction ds arbitrary: os) (auto simp: matches_def split: option.splits if_splits prod.splits)
qed

theorem device_id_round_trip_witness:
  "device_id_parse (hex_text 0x118d1 @ '':'' @ hex_text 0x4ee7) =
     Inr \<lparr>vendor_id = 0x18d1, product_id = 0x4ee7, id_serial = []\<rparr>"
proof -
  have "device_id_parse (hex_text 0x118d1 @ '':'' @ hex_text 0x4ee7) =
      Inr \<lparr>vendor_id = of_nat 0x118d1, product_id = of_nat 0x4ee7, id_serial = []\<rparr>"
    by (rule device_id_round_trip [of "0x118d1" "0x4ee7" "''a''" sample_usb "[]" "\<lparr>vendor_id = 0, product_id = 0, id_serial = []\<rparr>"
          "(0, [], [], {#})" "()" "(0, [], [], {#})", THEN conjunct1]) simp_all
  then show ?thesis by simp
qed

end
