(* ===== verification/Adb_Retry.thy ===== *)
theory Adb_Retry
  imports Adb_Connection
begin

text \<open>
  Connecting with retries, the template \<open>connect_with_retry\<close> of \<open>include/adbcpp/connection.hpp\<close>: the
  transport is opened by a callable, placed into the caller's optional, and the handshake is run on
  it; a failure of either is repeated after a pause that doubles.

  The callable, the destructor of the transport and the pause act on a state of the caller's choice.
  What they do to it is observed by three functions: how often \<open>open\<close> was called, which pauses were
  made, and how many transports are alive.
\<close>

section \<open>The loop\<close>

record ('t, 'w) Retry_env =
  rt_open :: "'w \<Rightarrow> 't Result \<times> 'w"
  rt_destroy :: "'t \<Rightarrow> 'w \<Rightarrow> 'w"
  rt_sleep :: "int \<Rightarrow> 'w \<Rightarrow> 'w"

text \<open>\<open>transport.emplace\<close> and \<open>transport.reset\<close> destroy the transport that is there.\<close>

definition rt_reset :: "('t, 'w) Retry_env \<Rightarrow> 't option \<Rightarrow> 'w \<Rightarrow> 'w" where
  "rt_reset E slot w = (case slot of None \<Rightarrow> w | Some t \<Rightarrow> rt_destroy E t w)"

text \<open>
  The transport of the optional is the one the connection's session works on: after a connect its
  state is the one in the session.
\<close>

function retry_from ::
  "('t, 'w) Retry_env \<Rightarrow> ('t \<Rightarrow> Status \<times> 't Connection) \<Rightarrow> int \<Rightarrow> int \<Rightarrow> int \<Rightarrow> Error \<Rightarrow> 't option \<Rightarrow> 'w
     \<Rightarrow> 't Connection Result \<times> 't option \<times> 'w" where
  "retry_from E conn attempts backoff attempt error slot w =
     (if attempt < attempts then
        let w1 = (if 0 < attempt then rt_sleep E (backoff * 2 ^ nat (min (attempt - 1) 20)) w else w) in
        (case rt_open E w1 of
           (Inl e, w2) \<Rightarrow> retry_from E conn attempts backoff (attempt + 1) e slot w2
         | (Inr t, w2) \<Rightarrow>
             let w3 = rt_reset E slot w2 in
             (case conn t of
                (Inl e, c) \<Rightarrow>
                  retry_from E conn attempts backoff (attempt + 1) e None
                    (rt_destroy E (sess_transport (conn_session c)) w3)
              | (Inr _, c) \<Rightarrow> (Inr c, Some (sess_transport (conn_session c)), w3)))
      else (Inl error, slot, w))"
  by pat_completeness auto
termination
  by (relation "measure (\<lambda>(E, conn, attempts, backoff, attempt, error, slot, w). nat (attempts - attempt))") auto

declare retry_from.simps [simp del]

definition connect_with_retry ::
  "Build \<Rightarrow> 't Transport_ops \<Rightarrow> ('t, 'w) Retry_env \<Rightarrow> 't option \<Rightarrow> byte list \<Rightarrow> Signer option \<Rightarrow> bool \<Rightarrow> int \<Rightarrow> int
     \<Rightarrow> 'w \<Rightarrow> 't Connection Result \<times> 't option \<times> 'w" where
  "connect_with_retry b T E slot public_key signer advertise_delayed_ack attempts backoff w =
     retry_from E (\<lambda>t. connect b T t public_key signer advertise_delayed_ack) attempts backoff 0
       (mk_error Transport ''the transport was not opened'') slot w"

section \<open>What a retry does\<close>

definition observes ::
  "('t, 'w) Retry_env \<Rightarrow> ('w \<Rightarrow> nat) \<Rightarrow> ('w \<Rightarrow> int list) \<Rightarrow> ('w \<Rightarrow> int) \<Rightarrow> bool" where
  "observes E opened slept alive \<longleftrightarrow>
     (\<forall>w. opened (snd (rt_open E w)) = Suc (opened w) \<and> slept (snd (rt_open E w)) = slept w
        \<and> alive (snd (rt_open E w)) = alive w + (if isl (fst (rt_open E w)) then 0 else 1))
     \<and> (\<forall>t w. opened (rt_destroy E t w) = opened w \<and> slept (rt_destroy E t w) = slept w
          \<and> alive (rt_destroy E t w) = alive w - 1)
     \<and> (\<forall>d w. opened (rt_sleep E d w) = opened w \<and> slept (rt_sleep E d w) = slept w @ [d]
          \<and> alive (rt_sleep E d w) = alive w)"

text \<open>The pauses between \<open>n\<close> attempts, and how many transports an optional holds.\<close>

definition pauses :: "int \<Rightarrow> nat \<Rightarrow> int list" where
  "pauses backoff n = map (\<lambda>k. backoff * 2 ^ min k 20) [0..<n - 1]"

definition held :: "'t option \<Rightarrow> int" where
  "held slot = (if slot = None then 0 else 1)"

text \<open>The attempt that decided the result: the last one.\<close>

definition attempted ::
  "('t, 'w) Retry_env \<Rightarrow> ('t \<Rightarrow> Status \<times> 't Connection) \<Rightarrow> ('w \<Rightarrow> nat) \<Rightarrow> nat \<Rightarrow> 't Connection Result \<Rightarrow> bool" where
  "attempted E conn opened n r \<longleftrightarrow>
     (\<exists>w w'. Suc (opened w) = n \<and>
        (case r of
           Inl e \<Rightarrow> rt_open E w = (Inl e, w') \<or> (\<exists>t c. rt_open E w = (Inr t, w') \<and> conn t = (Inl e, c))
         | Inr c \<Rightarrow> \<exists>t. rt_open E w = (Inr t, w') \<and> conn t = (Inr (), c)))"

lemma attemptedI:
  "rt_open E w = (Inl e, w') \<Longrightarrow> attempted E conn opened (Suc (opened w)) (Inl e)"
  "rt_open E w = (Inr t, w') \<Longrightarrow> conn t = (Inl e, c) \<Longrightarrow> attempted E conn opened (Suc (opened w)) (Inl e)"
  "rt_open E w = (Inr t, w') \<Longrightarrow> conn t = (Inr u, c) \<Longrightarrow> attempted E conn opened (Suc (opened w)) (Inr c)"
  unfolding attempted_def by (intro exI [of _ w] exI [of _ w'], auto)+

lemma rt_reset_observed:
  assumes "observes E opened slept alive"
  shows "opened (rt_reset E slot w) = opened w" "slept (rt_reset E slot w) = slept w"
    "alive (rt_reset E slot w) = alive w - held slot"
  using assms by (cases slot; simp add: observes_def rt_reset_def held_def)+

lemma pauses_Suc: "pauses backoff (Suc n) = pauses backoff n @ (if n = 0 then [] else [backoff * 2 ^ min (n - 1) 20])"
  by (cases n) (simp_all add: pauses_def)

lemma retry_from_spec:
  assumes obs: "observes E opened slept alive"
    and "retry_from E conn attempts backoff attempt error slot w = (r, slot', w')"
    and "0 \<le> attempt" "opened w = o0 + nat attempt" "slept w = s0 @ pauses backoff (nat attempt)"
    and "alive w = l0 + held slot" "attempt = 0 \<or> attempted E conn opened (opened w) (Inl error)"
  shows "\<exists>n. opened w' = o0 + n \<and> slept w' = s0 @ pauses backoff n \<and> alive w' = l0 + held slot'
    \<and> nat attempt \<le> n \<and> int n \<le> max attempts attempt \<and> (isl r \<longrightarrow> attempts \<le> int n) \<and> (isl r \<or> nat attempt < n)
    \<and> (r = Inl error \<and> n = 0 \<or> attempted E conn opened (opened w') r)
    \<and> (\<forall>c. r = Inr c \<longrightarrow> slot' = Some (sess_transport (conn_session c)))"
  using assms(2-)
proof (induction "nat (attempts - attempt)" arbitrary: attempt error slot w rule: less_induct)
  case less
  show ?case
  proof (cases "attempt < attempts")
    case False
    with less.prems(1) have "r = Inl error" "slot' = slot" "w' = w" by (simp_all add: retry_from.simps)
    with False less.prems(2-) show ?thesis by (intro exI [of _ "nat attempt"]) auto
  next
    case True
    define w1 where "w1 = (if 0 < attempt then rt_sleep E (backoff * 2 ^ nat (min (attempt - 1) 20)) w else w)"
    have exp: "nat (min (attempt - 1) 20) = min (nat attempt - 1) 20" using less.prems(2) by linarith
    have w1: "opened w1 = o0 + nat attempt" "slept w1 = s0 @ pauses backoff (Suc (nat attempt))" "alive w1 = l0 + held slot"
      using less.prems(2-5) obs by (auto simp: w1_def observes_def pauses_Suc exp)
    have Suc: "Suc (nat attempt) = nat (attempt + 1)" using less.prems(2) by simp
    obtain ro w2 where ro: "rt_open E w1 = (ro, w2)" by fastforce
    have w2: "opened w2 = o0 + nat (attempt + 1)" "slept w2 = s0 @ pauses backoff (nat (attempt + 1))"
      "alive w2 = l0 + held slot + (if isl ro then 0 else 1)"
      using obs ro w1 less.prems(2) unfolding observes_def by (metis Suc add_Suc_right fst_conv snd_conv)+
    have dec: "nat (attempts - (attempt + 1)) < nat (attempts - attempt)" "0 \<le> attempt + 1"
      "max attempts (attempt + 1) = max attempts attempt" using True less.prems(2) by auto
    have cnt: "Suc (opened w1) = opened w2" using w1(1) w2(1) Suc by simp
    note reset = rt_reset_observed [OF obs]
    show ?thesis
    proof (cases ro)
      case (Inl e)
      have "attempted E conn opened (opened w2) (Inl e)" using attemptedI(1) [of E w1 e w2 conn opened] ro Inl cnt by simp
      moreover have "retry_from E conn attempts backoff (attempt + 1) e slot w2 = (r, slot', w')"
        using less.prems(1) True ro Inl by (simp add: retry_from.simps [of E conn attempts backoff attempt] w1_def [symmetric])
      ultimately show ?thesis
        using less.hyps [OF dec(1), of e slot w2] dec(2,3) w2 Inl less.prems(2) by fastforce
    next
      case (Inr t)
      define w3 where "w3 = rt_reset E slot w2"
      have w3: "opened w3 = opened w2" "slept w3 = slept w2" "alive w3 = l0 + 1"
        using reset [of slot w2] w2(3) Inr by (simp_all add: w3_def)
      obtain rc c where rc: "conn t = (rc, c)" by fastforce
      show ?thesis
      proof (cases rc)
        case (Inl e)
        let ?w4 = "rt_destroy E (sess_transport (conn_session c)) w3"
        have w4: "opened ?w4 = opened w2" "slept ?w4 = slept w2" "alive ?w4 = l0 + held (None :: 'a option)"
          using obs w3 by (simp_all add: observes_def held_def)
        have "attempted E conn opened (opened ?w4) (Inl e)" 
          using attemptedI(2) [of E w1 t w2 conn e c opened] ro Inr rc Inl cnt w4(1) by simp
        moreover have "retry_from E conn attempts backoff (attempt + 1) e None ?w4 = (r, slot', w')"
          using less.prems(1) True ro Inr rc Inl
          by (simp add: retry_from.simps [of E conn attempts backoff attempt] w1_def [symmetric] w3_def)
        ultimately show ?thesis
          using less.hyps [OF dec(1), of e None ?w4] dec(2,3) w4 w2(1,2) less.prems(2) by fastforce
      next
        case ok: (Inr u)
        then have "r = Inr c" "slot' = Some (sess_transport (conn_session c))" "w' = w3"
          using less.prems(1) True ro Inr rc
          by (simp_all add: retry_from.simps [of E conn attempts backoff attempt] w1_def [symmetric] w3_def)
        moreover have "attempted E conn opened (opened w2) (Inr c)" 
          using attemptedI(3) [of E w1 t w2 conn u c opened] ro Inr rc ok cnt by simp
        ultimately show ?thesis
          using w3 w2(1,2) True less.prems(2) by (intro exI [of _ "nat (attempt + 1)"]) (auto simp: held_def)
      qed
    qed
  qed
qed

section \<open>Properties\<close>


text \<open>
  An environment that fails once and then hands out a transport on which the device answers; its
  state is the number of calls of \<open>open\<close>, the pauses, and the number of transports alive.
\<close>

definition answering :: MockTransport where
  "answering = mock_feed (wire [sample_banner]) mock_new"

definition sample_env :: "(MockTransport, nat \<times> int list \<times> int) Retry_env" where
  "sample_env =
     \<lparr>rt_open = (\<lambda>(n, ds, k). if n = 0 then (Inl (mk_error Transport ''busy''), (Suc n, ds, k))
                              else (Inr answering, (Suc n, ds, k + 1))),
      rt_destroy = (\<lambda>t (n, ds, k). (n, ds, k - 1)), rt_sleep = (\<lambda>d (n, ds, k). (n, ds @ [d], k))\<rparr>"

lemma sample_env_observes: "observes sample_env fst (fst \<circ> snd) (snd \<circ> snd)"
  by (auto simp: observes_def sample_env_def)

lemma sample_connect:
  "\<exists>c. connect sample_build mock_ops answering [] None False = (Inr (), c)"
proof -
  obtain s' where "connect sample_build mock_ops answering [] None False =
      finish_connect False sample_banner ((connection_new answering)\<lparr>conn_session := s', requested_authorization := False\<rparr>)"
    using mock.connect_spec [OF _ _ _ _ sample_handshake, of answering "[]"]
    by (fastforce simp: answering_def mock_pending_feed fits_def)
  moreover have "command (header sample_banner) = kCnxn" by (simp add: sample_banner_def Let_def)
  ultimately show ?thesis by (simp add: finish_connect_def Let_def)
qed


end
