(* ===== verification/Adb_Program.thy ===== *)
theory Adb_Program
  imports Adb_App Adb_Key
begin

text \<open>
  The surroundings of the example programs: the streams a program prints to, its pauses, the host's
  files, and the object it works with. An early end, \<open>fail(error)\<close> or a \<open>return\<close> after printing the error,
  is an error value; \<open>run_main\<close> turns it into the text on \<open>std::cerr\<close> and the status 1, which is what
  all the programs do with it.

  Time does not pass for the device while a program pauses: its answers are the frames it sends, in
  the order it sends them. \<open>asks\<close> says what a program returns and which services it opens, whatever the
  device answers; \<open>touches\<close> says which files it leaves alone.
\<close>

section \<open>Programs\<close>

record 'c Process =
  ps_core :: 'c
  ps_host :: Host
  ps_out :: string
  ps_err :: string
  ps_pauses :: "int list"

definition set_core :: "'d \<Rightarrow> 'c Process \<Rightarrow> 'd Process" where
  "set_core c p = \<lparr>ps_core = c, ps_host = ps_host p, ps_out = ps_out p, ps_err = ps_err p, ps_pauses = ps_pauses p\<rparr>"

lemma set_core_sel [simp]:
  "ps_core (set_core c p) = c" "ps_host (set_core c p) = ps_host p" "ps_out (set_core c p) = ps_out p"
  "ps_err (set_core c p) = ps_err p" "ps_pauses (set_core c p) = ps_pauses p"
  by (simp_all add: set_core_def)

abbreviation nl :: string where "nl \<equiv> [CHR 0x0A]"

definition print :: "string \<Rightarrow> ('c Process, unit) io" where
  "print text p = Some (Inr (), p\<lparr>ps_out := ps_out p @ text\<rparr>)"

definition print_error :: "string \<Rightarrow> ('c Process, unit) io" where
  "print_error text p = Some (Inr (), p\<lparr>ps_err := ps_err p @ text\<rparr>)"

text \<open>\<open>std::this_thread::sleep_for\<close>, in milliseconds.\<close>

definition pause :: "int \<Rightarrow> ('c Process, unit) io" where
  "pause milliseconds p = Some (Inr (), p\<lparr>ps_pauses := ps_pauses p @ [milliseconds]\<rparr>)"

text \<open>A call whose result is looked at, and one whose result is thrown away, \<open>(void)\<close>.\<close>

definition attempt :: "('s, 'a) io \<Rightarrow> ('s, 'a Result) io" where
  "attempt m s = (case m s of None \<Rightarrow> None | Some (r, s') \<Rightarrow> Some (Inr r, s'))"

definition disregard :: "('s, 'a) io \<Rightarrow> ('s, unit) io" where
  "disregard m = bind_io (attempt m) (\<lambda>_. ok_io ())"

text \<open>Statements one after the other.\<close>

fun in_order :: "('s, unit) io list \<Rightarrow> ('s, unit) io" where
  "in_order [] = ok_io ()"
| "in_order (m # ms) = bind_io m (\<lambda>_. in_order ms)"

definition on_core :: "('c, 'a) io \<Rightarrow> ('c Process, 'a) io" where
  "on_core m p = (case m (ps_core p) of None \<Rightarrow> None | Some (r, c) \<Rightarrow> Some (r, p\<lparr>ps_core := c\<rparr>))"

definition on_core_and_host :: "('c \<times> Host, 'a) io \<Rightarrow> ('c Process, 'a) io" where
  "on_core_and_host m p =
     (case m (ps_core p, ps_host p) of
        None \<Rightarrow> None
      | Some (r, (c, h)) \<Rightarrow> Some (r, p\<lparr>ps_core := c, ps_host := h\<rparr>))"

definition with_host :: "(Host \<Rightarrow> ('c Process, 'a) io) \<Rightarrow> ('c Process, 'a) io" where
  "with_host f p = f (ps_host p) p"

definition change_host :: "(Host \<Rightarrow> Host) \<Rightarrow> ('c Process, unit) io" where
  "change_host f p = Some (Inr (), p\<lparr>ps_host := f (ps_host p)\<rparr>)"

definition run_main :: "('c Process, nat) io \<Rightarrow> 'c Process \<Rightarrow> (nat \<times> 'c Process) option" where
  "run_main m p =
     (case m p of
        None \<Rightarrow> None
      | Some (Inl e, p') \<Rightarrow> Some (1, p'\<lparr>ps_err := ps_err p' @ ''error: '' @ err_message e @ nl\<rparr>)
      | Some (Inr status, p') \<Rightarrow> Some (status, p'))"

named_theorems prog_simps "evaluation of the statements of a program"

lemma print_eval [prog_simps]: "print text p = Some (Inr (), p\<lparr>ps_out := ps_out p @ text\<rparr>)"
  by (simp add: print_def)

lemma print_error_eval [prog_simps]: "print_error text p = Some (Inr (), p\<lparr>ps_err := ps_err p @ text\<rparr>)"
  by (simp add: print_error_def)

lemma pause_eval [prog_simps]: "pause ms p = Some (Inr (), p\<lparr>ps_pauses := ps_pauses p @ [ms]\<rparr>)"
  by (simp add: pause_def)

lemma attempt_eval [prog_simps]: "m s = Some (r, s') \<Longrightarrow> attempt m s = Some (Inr r, s')"
  by (simp add: attempt_def)

lemma on_core_eval [prog_simps]: "m (ps_core p) = Some (r, c) \<Longrightarrow> on_core m p = Some (r, p\<lparr>ps_core := c\<rparr>)"
  by (simp add: on_core_def)

lemma on_core_and_host_eval [prog_simps]:
  "m (ps_core p, ps_host p) = Some (r, (c, h)) \<Longrightarrow> on_core_and_host m p = Some (r, p\<lparr>ps_core := c, ps_host := h\<rparr>)"
  by (simp add: on_core_and_host_def)

lemma with_host_eval [prog_simps]: "with_host f p = f (ps_host p) p"
  by (simp add: with_host_def)

lemma change_host_eval [prog_simps]: "change_host f p = Some (Inr (), p\<lparr>ps_host := f (ps_host p)\<rparr>)"
  by (simp add: change_host_def)

section \<open>Local files\<close>

text \<open>
  \<open>std::ofstream output(path); output << text\<close>: when the file cannot be opened or written, nobody
  notices. \<open>contents.assign(std::istreambuf_iterator ...)\<close>: a file that cannot be opened or read gives nothing.
  \<open>std::filesystem::remove\<close>.
\<close>

definition write_text :: "string \<Rightarrow> string \<Rightarrow> Host \<Rightarrow> Host" where
  "write_text path text h =
     (case out_open path h of (False, h1) \<Rightarrow> h1 | (True, h1) \<Rightarrow> snd (out_write path (bytes_of_string text) h1))"

definition read_text :: "string \<Rightarrow> Host \<Rightarrow> string" where
  "read_text path h =
     (if in_open path h then string_of_bytes (fst (in_read path 0 (Suc (length (file_content h path))) h)) else [])"

definition remove_file :: "string \<Rightarrow> Host \<Rightarrow> Host" where
  "remove_file path h =
     h\<lparr>files := (files h)(path := None), disk_free := disk_free h + length (file_content h path)\<rparr>"

text \<open>\<open>std::hex\<close>.\<close>

fun to_hex :: "nat \<Rightarrow> string" where
  "to_hex n =
     (let digit = (\<lambda>d. char_of (if d < 10 then 48 + d else 87 + d)) in
      if n < 16 then [digit n] else to_hex (n div 16) @ [digit (n mod 16)])"

declare to_hex.simps [simp del]

lemma out_open_files: "out_open path h = (ok, h1) \<Longrightarrow> x \<noteq> path \<Longrightarrow> files h1 x = files h x"
  by (rule out_open_others)

lemma out_write_files: "out_write path bs h = (ok, h1) \<Longrightarrow> x \<noteq> path \<Longrightarrow> files h1 x = files h x"
  by (auto simp: out_write_def split: option.splits)

lemma write_text_files: "x \<noteq> path \<Longrightarrow> files (write_text path text h) x = files h x"
  using out_open_files [of path h _ _ x] out_write_files [of path _ _ _ _ x]
  by (auto simp: write_text_def split: prod.splits bool.splits) (metis prod.collapse)+

lemma remove_file_files: "x \<noteq> path \<Longrightarrow> files (remove_file path h) x = files h x"
  by (simp add: remove_file_def)

section \<open>Calls of the library\<close>

definition shell_command :: "'t Transport_ops \<Rightarrow> string \<Rightarrow> ('t Connection Process, CommandResult) io" where
  "shell_command T cmd = on_core (shell_run T cmd ShellAuto)"

definition push_file ::
  "Build \<Rightarrow> 'd Codecs \<Rightarrow> 't Transport_ops \<Rightarrow> string \<Rightarrow> string \<Rightarrow> SyncCompression \<Rightarrow> ('t Connection Process, unit) io" where
  "push_file b L T path remote compression = with_host (\<lambda>h. on_core (sync_push b L T h path remote compression))"

definition pull_file ::
  "Build \<Rightarrow> 'd Codecs \<Rightarrow> 't Transport_ops \<Rightarrow> string \<Rightarrow> string \<Rightarrow> SyncCompression \<Rightarrow> ('t Connection Process, unit) io" where
  "pull_file b L T remote path compression = on_core_and_host (sync_pull b L T remote path compression)"

definition install_apk ::
  "Build \<Rightarrow> 'd Codecs \<Rightarrow> 't Transport_ops \<Rightarrow> string \<Rightarrow> string \<Rightarrow> ('t Connection Process, PackageResult) io" where
  "install_apk b L T apk options = with_host (\<lambda>h. on_core (install b L T h apk options))"

definition close_connection :: "'t Transport_ops \<Rightarrow> ('t Connection Process, unit) io" where
  "close_connection T = on_core (\<lambda>c. Some (Inr (), connection_close T c))"

text \<open>A process that has done nothing yet.\<close>

definition sample_process :: "'c \<Rightarrow> 'c Process" where
  "sample_process c = \<lparr>ps_core = c, ps_host = sample_host, ps_out = [], ps_err = [], ps_pauses = []\<rparr>"

lemma sample_process_sel [simp]:
  "ps_core (sample_process c) = c" "ps_host (sample_process c) = sample_host" "ps_pauses (sample_process c) = []"
  "ps_out (sample_process c) = []" "ps_err (sample_process c) = []"
  by (simp_all add: sample_process_def)

end
