(* ===== verification/Adb_Requests.thy ===== *)
theory Adb_Requests
  imports Adb_Program
begin

text \<open>
  What a program asks of the device, whatever the device answers. \<open>asks base conn ft m W\<close> says that \<open>m\<close>, run
  on a connection in order and with the features \<open>ft\<close>, comes back, leaves the connection in order, and that
  its result and the services it opened satisfy \<open>W\<close>. The rules follow the statements of a program.
\<close>

text \<open>When no device with these features makes a transfer use a codec.\<close>

definition plain_transfers :: "Build \<Rightarrow> string list \<Rightarrow> bool" where
  "plain_transfers b ft \<longleftrightarrow> \<not> has_compression b \<or> ''sendrecv_v2'' \<notin> set ft"

lemma plain_transfer_codec:
  "plain_transfers b (features c) \<Longrightarrow> transfer_codec b c CompressAuto = Inr None"
  by (auto simp: plain_transfers_def transfer_codec_def choose_codec_def supports_feature_def Let_def)

section \<open>The rules\<close>

context byte_channel
begin

definition asks ::
  "byte list \<Rightarrow> ('s \<Rightarrow> 't Connection) \<Rightarrow> string list \<Rightarrow> ('s, 'a) io \<Rightarrow> ('a Result \<Rightarrow> string list \<Rightarrow> bool) \<Rightarrow> bool" where
  "asks base conn ft m W \<longleftrightarrow>
     (\<forall>s q. features (conn s) = ft \<longrightarrow> spoken good pending sent base [] (conn s) q \<longrightarrow>
        (\<exists>r s' q'. m s = Some (r, s') \<and> features (conn s') = ft \<and> spoken good pending sent base [] (conn s') (q @ q')
           \<and> W r (services q')))"

lemma asksI:
  assumes "\<And>s q. features (conn s) = ft \<Longrightarrow> spoken good pending sent base [] (conn s) q \<Longrightarrow>
      \<exists>r s' q'. m s = Some (r, s') \<and> features (conn s') = ft \<and> spoken good pending sent base [] (conn s') (q @ q')
        \<and> W r (services q')"
  shows "asks base conn ft m W"
  unfolding asks_def by (intro allI impI) (rule assms)

lemma asksE:
  assumes "asks base conn ft m W" "features (conn s) = ft" "spoken good pending sent base [] (conn s) q"
  obtains r s' q' where "m s = Some (r, s')" "features (conn s') = ft"
    "spoken good pending sent base [] (conn s') (q @ q')" "W r (services q')"
  using assms(1) [unfolded asks_def, rule_format, OF assms(2,3)] by blast

lemma asks_mono:
  assumes "asks base conn ft m W" "\<And>r ss. W r ss \<Longrightarrow> W' r ss"
  shows "asks base conn ft m W'"
proof (rule asksI)
  fix s q
  assume *: "features (conn s) = ft" "spoken good pending sent base [] (conn s) q"
  from asksE [OF assms(1) *] obtain r s' q' where "m s = Some (r, s')" "features (conn s') = ft"
    "spoken good pending sent base [] (conn s') (q @ q')" "W r (services q')" .
  with assms(2) show "\<exists>r s' q'. m s = Some (r, s') \<and> features (conn s') = ft
      \<and> spoken good pending sent base [] (conn s') (q @ q') \<and> W' r (services q')"
    by blast
qed

lemma asks_silent:
  assumes "\<And>s. \<exists>r s'. m s = Some (r, s') \<and> conn s' = conn s \<and> W r []"
  shows "asks base conn ft m W"
proof (rule asksI)
  fix s q
  assume *: "features (conn s) = ft" "spoken good pending sent base [] (conn s) q"
  obtain r s' where "m s = Some (r, s')" "conn s' = conn s" "W r []" using assms by blast
  with * show "\<exists>r s' q'. m s = Some (r, s') \<and> features (conn s') = ft
      \<and> spoken good pending sent base [] (conn s') (q @ q') \<and> W r (services q')"
    by (intro exI [of _ r] exI [of _ s'] exI [of _ "[]"]) simp
qed

lemma asks_ok: "W (Inr a) [] \<Longrightarrow> asks base conn ft (ok_io a) W"
  by (rule asks_silent) (simp add: seq_simps)

lemma asks_fail: "W (Inl e) [] \<Longrightarrow> asks base conn ft (fail_io e) W"
  by (rule asks_silent) (simp add: seq_simps)

lemma asks_bind:
  assumes "asks base conn ft m
      (\<lambda>r ss. (\<forall>e. r = Inl e \<longrightarrow> W (Inl e) ss) \<and> (\<forall>a. r = Inr a \<longrightarrow> asks base conn ft (f a) (\<lambda>r' ss'. W r' (ss @ ss'))))"
  shows "asks base conn ft (bind_io m f) W"
proof (rule asksI)
  fix s q
  assume *: "features (conn s) = ft" "spoken good pending sent base [] (conn s) q"
  from asksE [OF assms *] obtain r s' q' where 1: "m s = Some (r, s')" "features (conn s') = ft"
    "spoken good pending sent base [] (conn s') (q @ q')" "(\<forall>e. r = Inl e \<longrightarrow> W (Inl e) (services q'))
      \<and> (\<forall>a. r = Inr a \<longrightarrow> asks base conn ft (f a) (\<lambda>r' ss'. W r' (services q' @ ss')))" .
  show "\<exists>r s' q'. bind_io m f s = Some (r, s') \<and> features (conn s') = ft
      \<and> spoken good pending sent base [] (conn s') (q @ q') \<and> W r (services q')"
  proof (cases r)
    case (Inl e)
    with 1(4) have "W (Inl e) (services q')" by simp
    with Inl 1(1-3) show ?thesis by (intro exI [of _ "Inl e"] exI [of _ s'] exI [of _ q']) (simp add: seq_simps)
  next
    case (Inr a)
    with 1(4) have "asks base conn ft (f a) (\<lambda>r' ss'. W r' (services q' @ ss'))" by simp
    from asksE [OF this 1(2,3)] obtain r2 s2 q2 where "f a s' = Some (r2, s2)" "features (conn s2) = ft"
      "spoken good pending sent base [] (conn s2) ((q @ q') @ q2)" "W r2 (services q' @ services q2)" .
    with 1(1) Inr show ?thesis
      by (intro exI [of _ r2] exI [of _ s2] exI [of _ "q' @ q2"]) (simp add: seq_simps)
  qed
qed

text \<open>When nothing depends on the first result.\<close>

lemma asks_then:
  assumes "asks base conn ft m (\<lambda>r ss. (\<forall>e. r = Inl e \<longrightarrow> W (Inl e) ss) \<and> P ss)"
    and "\<And>a ss. P ss \<Longrightarrow> asks base conn ft (f a) (\<lambda>r' ss'. W r' (ss @ ss'))"
  shows "asks base conn ft (bind_io m f) W"
  by (rule asks_bind, rule asks_mono [OF assms(1)]) (use assms(2) in auto)

lemma asks_attempt:
  assumes "asks base conn ft m (\<lambda>r. W (Inr r))"
  shows "asks base conn ft (attempt m) W"
proof (rule asksI)
  fix s q
  assume *: "features (conn s) = ft" "spoken good pending sent base [] (conn s) q"
  from asksE [OF assms *] obtain r s' q' where "m s = Some (r, s')" "features (conn s') = ft"
    "spoken good pending sent base [] (conn s') (q @ q')" "W (Inr r) (services q')" .
  then show "\<exists>r s' q'. attempt m s = Some (r, s') \<and> features (conn s') = ft
      \<and> spoken good pending sent base [] (conn s') (q @ q') \<and> W r (services q')"
    by (intro exI [of _ "Inr r"] exI [of _ s'] exI [of _ q']) (simp add: prog_simps)
qed

lemma asks_disregard:
  assumes "asks base conn ft m (\<lambda>r. W (Inr ()))"
  shows "asks base conn ft (disregard m) W"
  unfolding disregard_def
  by (intro asks_bind asks_attempt asks_mono [OF assms]) (simp add: asks_ok)

lemma asks_if: "(b \<Longrightarrow> asks base conn ft m W) \<Longrightarrow> (\<not> b \<Longrightarrow> asks base conn ft m' W) \<Longrightarrow> asks base conn ft (if b then m else m') W"
  by simp

lemma asks_print: "W (Inr ()) [] \<Longrightarrow> asks base ps_core ft (print text) W"
  "W (Inr ()) [] \<Longrightarrow> asks base ps_core ft (pause ms) W" "W (Inr ()) [] \<Longrightarrow> asks base ps_core ft (change_host g) W"
  by (rule asks_silent; simp add: prog_simps)+

lemma asks_with_host:
  assumes "\<And>h. asks base ps_core ft (f h) W"
  shows "asks base ps_core ft (with_host f) W"
proof (rule asksI)
  fix p :: "'t Connection Process" and q
  assume *: "features (ps_core p) = ft" "spoken good pending sent base [] (ps_core p) q"
  show "\<exists>r p' q'. with_host f p = Some (r, p') \<and> features (ps_core p') = ft
      \<and> spoken good pending sent base [] (ps_core p') (q @ q') \<and> W r (services q')"
    unfolding with_host_def using asksE [OF assms *] by metis
qed

lemma asks_on_core:
  assumes "asks base id ft m W"
  shows "asks base ps_core ft (on_core m) W"
proof (rule asksI)
  fix p :: "'t Connection Process" and q
  assume *: "features (ps_core p) = ft" "spoken good pending sent base [] (ps_core p) q"
  then have "features (id (ps_core p)) = ft" "spoken good pending sent base [] (id (ps_core p)) q" by simp_all
  from asksE [OF assms this] obtain r c q' where "m (ps_core p) = Some (r, c)" "features c = ft"
    "spoken good pending sent base [] c (q @ q')" "W r (services q')"
    by (metis id_apply)
  then show "\<exists>r p' q'. on_core m p = Some (r, p') \<and> features (ps_core p') = ft
      \<and> spoken good pending sent base [] (ps_core p') (q @ q') \<and> W r (services q')"
    by (intro exI [of _ r] exI [of _ "p\<lparr>ps_core := c\<rparr>"] exI [of _ q']) (simp add: prog_simps)
qed

section \<open>The library's calls\<close>

abbreviation speaks_v2 :: "string list \<Rightarrow> bool" where
  "speaks_v2 ft \<equiv> ''shell_v2'' \<in> set ft"

lemma asks_run:
  fixes ft :: "string list"
  assumes "length cmd < 2 ^ 31 - 20" "\<And>r. W r [shell_service (speaks_v2 ft) cmd]"
  shows "asks base id ft (shell_run T cmd ShellAuto) W"
proof (rule asksI)
  fix c :: "'t Connection" and q
  assume *: "features (id c) = ft" "spoken good pending sent base [] (id c) q"
  from shell_run_talks [of base c q cmd ShellAuto] * assms(1) obtain r s q' where
    "shell_run T cmd ShellAuto c = Some (r, next_connection c s)" "opens q' = []"
    "spoken good pending sent base [] (next_connection c s) (q @ open_request_frame c (shell_service (uses_v2 ShellAuto c) cmd) # q')"
    by auto
  with * assms(2) [of r] show "\<exists>r s' q'. shell_run T cmd ShellAuto c = Some (r, s') \<and> features (id s') = ft
      \<and> spoken good pending sent base [] (id s') (q @ q') \<and> W r (services q')"
    by (intro exI [of _ r] exI [of _ "next_connection c s"] exI [of _ "open_request_frame c (shell_service (uses_v2 ShellAuto c) cmd) # q'"])
      (simp add: services_none uses_v2_def)
qed

lemma asks_command:
  assumes "length cmd < 2 ^ 31 - 20" "\<And>r. W r [shell_service (speaks_v2 ft) cmd]"
  shows "asks base ps_core ft (shell_command T cmd) W"
  unfolding shell_command_def by (rule asks_on_core, rule asks_run) (rule assms)+

lemma same_settings_features: "same_settings c c' \<Longrightarrow> features c' = features c"
  by (auto simp: same_settings_def)

lemma asks_stat:
  assumes "\<And>r ss. ss = [''sync:''] \<or> isl r \<and> ss = [] \<Longrightarrow> W r ss"
  shows "asks base id ft (sync_stat T path) W"
proof (rule asksI)
  fix c :: "'t Connection" and q
  assume *: "features (id c) = ft" "spoken good pending sent base [] (id c) q"
  then have "spoken good pending sent base [] c q" by simp
  from sync_stat_talks [OF this] obtain r c' q' where "sync_stat T path c = Some (r, c')" "same_settings c c'"
    "spoken good pending sent base [] c' (q @ q')" "services q' = [''sync:''] \<or> isl r \<and> services q' = []"
    by blast
  with * assms show "\<exists>r s' q'. sync_stat T path c = Some (r, s') \<and> features (id s') = ft
      \<and> spoken good pending sent base [] (id s') (q @ q') \<and> W r (services q')"
    by (intro exI [of _ r] exI [of _ c'] exI [of _ q']) (simp add: same_settings_features)
qed

lemma asks_push_connection:
  assumes "\<And>r ss. ss = [''sync:'', ''sync:''] \<or> isl r \<and> (ss = [] \<or> ss = [''sync:'']) \<Longrightarrow> W r ss"
  shows "asks base id ft (sync_push b L T h path remote compression) W"
proof (rule asksI)
  fix c :: "'t Connection" and q
  assume *: "features (id c) = ft" "spoken good pending sent base [] (id c) q"
  then have "spoken good pending sent base [] c q" by simp
  from sync_push_talks [OF this] obtain r c' q' where "sync_push b L T h path remote compression c = Some (r, c')"
    "same_settings c c'" "spoken good pending sent base [] c' (q @ q')"
    "services q' = [''sync:'', ''sync:''] \<or> isl r \<and> (services q' = [] \<or> services q' = [''sync:''])"
    by blast
  with * assms show "\<exists>r s' q'. sync_push b L T h path remote compression c = Some (r, s') \<and> features (id s') = ft
      \<and> spoken good pending sent base [] (id s') (q @ q') \<and> W r (services q')"
    by (intro exI [of _ r] exI [of _ c'] exI [of _ q']) (simp add: same_settings_features)
qed

lemma asks_push:
  assumes "\<And>r ss. ss = [''sync:'', ''sync:''] \<or> isl r \<and> (ss = [] \<or> ss = [''sync:'']) \<Longrightarrow> W r ss"
  shows "asks base ps_core ft (push_file b L T path remote compression) W"
  unfolding push_file_def by (intro asks_with_host asks_on_core asks_push_connection assms)

text \<open>Listing, and pulling without compression.\<close>

lemma meets_talks:
  assumes "\<And>S0 ev q d. meets good pending sent base [] S0 ev q m (p ev) d"
  shows "keeps base m"
proof (rule keepsI)
  fix S0 S d ev q
  assume *: "dialogue good pending sent base [] S0 S d ev q"
  from assms [unfolded meets_def, rule_format, OF * disjI1 [OF refl]] obtain S' where
    "m S = Some (fst (p ev d), S')" "same_link S0 S'" "spoken good pending sent base [] (snd S') q"
    "isr (fst (p ev d)) \<longrightarrow> dialogue good pending sent base [] S0 S' (snd (p ev d)) ev q"
    by blast
  then show "\<exists>r S' q'. m S = Some (r, S') \<and> same_link S0 S' \<and> spoken good pending sent base [] (snd S') (q @ q')
      \<and> opens q' = [] \<and> (isr r \<longrightarrow> (\<exists>d'. dialogue good pending sent base [] S0 S' d' ev (q @ q')))"
    by (intro exI [of _ "fst (p ev d)"] exI [of _ S'] exI [of _ "[]"]) auto
qed

lemma keeps_list_body: "keeps base (list_body T v2 path)"
  unfolding list_body_def write_path_request_def write_quit_def
  by (intro keeps_intros meets_talks [where p = "\<lambda>ev. plist ev v2 []"] meets_list)

lemma asks_list:
  assumes "\<And>r ss. ss = [''sync:''] \<or> isl r \<and> ss = [] \<Longrightarrow> W r ss"
  shows "asks base id ft (sync_list T path) W"
proof (rule asksI)
  fix c :: "'t Connection" and q
  assume *: "features (id c) = ft" "spoken good pending sent base [] (id c) q"
  show "\<exists>r s' q'. sync_list T path c = Some (r, s') \<and> features (id s') = ft
      \<and> spoken good pending sent base [] (id s') (q @ q') \<and> W r (services q')"
  proof (cases "kMaxPathLength < length path")
    case True
    with * assms show ?thesis
      by (intro exI [of _ "Inl path_limit"] exI [of _ c] exI [of _ "[]"]) (simp add: sync_list_def seq_simps)
  next
    case False
    from * sync_service_talks [OF _ keeps_talks [OF keeps_list_body], of base c q "supports_feature c ''ls_v2''" path]
    obtain r s q' where "with_stream T ''sync:'' (list_body T (supports_feature c ''ls_v2'') path) c = Some (r, next_connection c s)"
      "spoken good pending sent base [] (next_connection c s) (q @ q')" "services q' = [''sync:'']"
      by auto
    with * False assms show ?thesis
      by (intro exI [of _ r] exI [of _ "next_connection c s"] exI [of _ q']) (simp add: sync_list_def)
  qed
qed

text \<open>An operation beside the local files that keeps its stream.\<close>

definition keeps_on :: "byte list \<Rightarrow> ('t streaming \<times> Host, 'a) io \<Rightarrow> bool" where
  "keeps_on base m \<longleftrightarrow>
     (\<forall>S0 S h d ev q. dialogue good pending sent base [] S0 S d ev q \<longrightarrow>
        (\<exists>r S' h' q'. m (S, h) = Some (r, (S', h')) \<and> same_link S0 S' \<and> spoken good pending sent base [] (snd S') (q @ q')
           \<and> opens q' = [] \<and> (isr r \<longrightarrow> (\<exists>d'. dialogue good pending sent base [] S0 S' d' ev (q @ q')))))"

lemma keeps_onE:
  assumes "keeps_on base m" "dialogue good pending sent base [] S0 S d ev q"
  obtains r S' h' q' where "m (S, h) = Some (r, (S', h'))" "same_link S0 S'"
    "spoken good pending sent base [] (snd S') (q @ q')" "opens q' = []"
    "isr r \<longrightarrow> (\<exists>d'. dialogue good pending sent base [] S0 S' d' ev (q @ q'))"
  using assms(1) [unfolded keeps_on_def, rule_format, OF assms(2), of h] by blast

lemma keeps_on_stream:
  assumes "keeps base m"
  shows "keeps_on base (on_stream m)"
  unfolding keeps_on_def
proof (intro allI impI)
  fix S0 S h d ev q
  assume "dialogue good pending sent base [] S0 S d ev q"
  from assms [unfolded keeps_def, rule_format, OF this] obtain r S' q' where "m S = Some (r, S')" "same_link S0 S'"
    "spoken good pending sent base [] (snd S') (q @ q')" "opens q' = []"
    "isr r \<longrightarrow> (\<exists>d'. dialogue good pending sent base [] S0 S' d' ev (q @ q'))"
    by blast
  then show "\<exists>r S' h' q'. on_stream m (S, h) = Some (r, (S', h')) \<and> same_link S0 S'
      \<and> spoken good pending sent base [] (snd S') (q @ q') \<and> opens q' = []
      \<and> (isr r \<longrightarrow> (\<exists>d'. dialogue good pending sent base [] S0 S' d' ev (q @ q')))"
    by (intro exI [of _ r] exI [of _ S'] exI [of _ h] exI [of _ q']) (simp add: on_stream_def)
qed

lemma keeps_on_reader:
  assumes "\<And>S0 ev q X. meets_on good pending sent base [] S0 ev q m (p ev) X" "\<And>ev X. p ev X \<noteq> None"
  shows "keeps_on base m"
  unfolding keeps_on_def
proof (intro allI impI)
  fix S0 S h d ev q
  assume *: "dialogue good pending sent base [] S0 S d ev q"
  obtain r X' where p: "p ev (d, h) = Some (r, X')" using assms(2) by (metis option.exhaust surj_pair)
  from assms(1) [of S0 ev q "(d, h)", unfolded meets_on_def fst_conv snd_conv p option.case prod.case, rule_format,
      OF * disjI1 [OF refl]]
  obtain S' where "m (S, h) = Some (r, (S', snd X'))" "same_link S0 S'" "spoken good pending sent base [] (snd S') q"
    "\<And>a. r = Inr a \<Longrightarrow> dialogue good pending sent base [] S0 S' (fst X') ev q"
    by blast
  then show "\<exists>r S' h' q'. m (S, h) = Some (r, (S', h')) \<and> same_link S0 S'
      \<and> spoken good pending sent base [] (snd S') (q @ q') \<and> opens q' = []
      \<and> (isr r \<longrightarrow> (\<exists>d'. dialogue good pending sent base [] S0 S' d' ev (q @ q')))"
    by (intro exI [of _ r] exI [of _ S'] exI [of _ "snd X'"] exI [of _ "[]"]) (cases r; auto)
qed

lemma keeps_on_bind:
  assumes "keeps_on base m" "\<And>a. keeps_on base (f a)"
  shows "keeps_on base (bind_io m f)"
  unfolding keeps_on_def
proof (intro allI impI)
  fix S0 S h d ev q
  assume *: "dialogue good pending sent base [] S0 S d ev q"
  obtain r S' h' q' where 1: "m (S, h) = Some (r, (S', h'))" "same_link S0 S'"
    "spoken good pending sent base [] (snd S') (q @ q')" "opens q' = []"
    "isr r \<longrightarrow> (\<exists>d'. dialogue good pending sent base [] S0 S' d' ev (q @ q'))"
    by (rule keeps_onE [OF assms(1) *])
  show "\<exists>r S' h' q'. bind_io m f (S, h) = Some (r, (S', h')) \<and> same_link S0 S'
      \<and> spoken good pending sent base [] (snd S') (q @ q') \<and> opens q' = []
      \<and> (isr r \<longrightarrow> (\<exists>d'. dialogue good pending sent base [] S0 S' d' ev (q @ q')))"
  proof (cases r)
    case (Inl e)
    with 1(1-4) show ?thesis
      by (intro exI [of _ "Inl e"] exI [of _ S'] exI [of _ h'] exI [of _ q']) (simp add: seq_simps)
  next
    case (Inr a)
    with 1(5) obtain d' where "dialogue good pending sent base [] S0 S' d' ev (q @ q')" by auto
    from keeps_onE [OF assms(2) this, of a h'] obtain r2 S2 h2 q2 where "f a (S', h') = Some (r2, (S2, h2))"
      "same_link S0 S2" "spoken good pending sent base [] (snd S2) ((q @ q') @ q2)" "opens q2 = []"
      "isr r2 \<longrightarrow> (\<exists>d'. dialogue good pending sent base [] S0 S2 d' ev ((q @ q') @ q2))" .
    with 1(1,4) Inr show ?thesis
      by (intro exI [of _ r2] exI [of _ S2] exI [of _ h2] exI [of _ "q' @ q2"]) (simp add: seq_simps)
  qed
qed

lemma ppull_returns: "ppull ev path X \<noteq> None"
  using ppull_only_target [of path X "snd X" ev] by (auto simp: only_target_def)

lemma keeps_on_pull: "keeps_on base (pull_body T remote path)"
  unfolding pull_body_def write_path_request_def write_quit_def
  by (intro keeps_on_bind keeps_on_stream keeps_write keeps_on_reader [OF meets_on_create]
      keeps_on_reader [where p = "\<lambda>ev. ppull ev path", OF meets_pull ppull_returns])
    (auto simp: create_output_def split: prod.splits)

lemma sync_pull_talks:
  fixes c :: "'t Connection"
  assumes "spoken good pending sent base [] c q" "transfer_codec b c compression = Inr None"
  shows "\<exists>r c' h' q'. sync_pull b L T remote path compression (c, h) = Some (r, (c', h')) \<and> same_settings c c'
    \<and> spoken good pending sent base [] c' (q @ q') \<and> (services q' = [''sync:''] \<or> isl r \<and> services q' = [])"
proof (cases "kMaxPathLength < length remote")
  case True
  with assms(1) show ?thesis
    by (intro exI [of _ "Inl path_limit"] exI [of _ c] exI [of _ h] exI [of _ "[]"]) (simp add: sync_pull_def seq_simps)
next
  case False
  let ?body = "\<lambda>S. map_option (\<lambda>(r, (S', h')). (Inr (r, h'), S')) (pull_body T remote path (S, h))"
  have "talks base ?body"
    unfolding talks_def
  proof (intro allI impI)
    fix S0 S d ev q
    assume "dialogue good pending sent base [] S0 S d ev q"
    from keeps_onE [OF keeps_on_pull this, of remote path h] obtain r S' h' q' where
      "pull_body T remote path (S, h) = Some (r, (S', h'))" "same_link S0 S'"
      "spoken good pending sent base [] (snd S') (q @ q')" "opens q' = []" .
    then show "\<exists>r S' q'. ?body S = Some (r, S') \<and> same_link S0 S' \<and> spoken good pending sent base [] (snd S') (q @ q')
        \<and> opens q' = []"
      by (intro exI [of _ "Inr (r, h')"] exI [of _ S'] exI [of _ q']) simp
  qed
  from sync_service_talks [OF assms(1) this] obtain r s q' where
    run: "with_stream T ''sync:'' ?body c = Some (r, next_connection c s)"
    "spoken good pending sent base [] (next_connection c s) (q @ q')" "services q' = [''sync:'']"
    by blast
  have "sync_pull b L T remote path compression (c, h) = with_stream_on T ''sync:'' (pull_body T remote path) (c, h)"
    using False assms(2) by (simp add: sync_pull_def)
  with run show ?thesis
    by (cases r) (auto simp: with_stream_on_def intro!: exI [of _ q'])
qed

lemma asks_pull:
  assumes "plain_transfers b ft" "\<And>r ss. ss = [''sync:''] \<or> isl r \<and> ss = [] \<Longrightarrow> W r ss"
  shows "asks base ps_core ft (pull_file b L T remote path CompressAuto) W"
proof (rule asksI)
  fix p :: "'t Connection Process" and q
  assume *: "features (ps_core p) = ft" "spoken good pending sent base [] (ps_core p) q"
  then have "transfer_codec b (ps_core p) CompressAuto = Inr None" using plain_transfer_codec assms(1) by metis
  from sync_pull_talks [OF *(2) this, of L remote path "ps_host p"] obtain r c' h' q' where
    "sync_pull b L T remote path CompressAuto (ps_core p, ps_host p) = Some (r, (c', h'))" "same_settings (ps_core p) c'"
    "spoken good pending sent base [] c' (q @ q')" "services q' = [''sync:''] \<or> isl r \<and> services q' = []"
    by blast
  with * assms(2) show "\<exists>r p' q'. pull_file b L T remote path CompressAuto p = Some (r, p') \<and> features (ps_core p') = ft
      \<and> spoken good pending sent base [] (ps_core p') (q @ q') \<and> W r (services q')"
    by (intro exI [of _ r] exI [of _ "p\<lparr>ps_core := c', ps_host := h'\<rparr>"] exI [of _ q'])
      (simp add: pull_file_def prog_simps same_settings_features)
qed

section \<open>Applications\<close>

lemma asks_result:
  assumes "length cmd < 2 ^ 31 - 20" "\<And>r. W r [shell_service (speaks_v2 ft) cmd]"
    and "\<And>a c. \<exists>r. f a c = Some (r, c)"
  shows "asks base id ft (bind_io (shell_run T cmd ShellAuto) f) W"
proof (rule asks_bind, rule asks_run [OF assms(1)], intro conjI allI impI)
  fix r :: "CommandResult Result" and a
  show "asks base id ft (f a) (\<lambda>r' ss'. W r' ([shell_service (speaks_v2 ft) cmd] @ ss'))"
    using assms(2,3) by (intro asks_silent) (metis append_Nil2)
qed (rule assms(2))

lemma app_command_lengths:
  assumes "length package < 2 ^ 28"
  shows "length (uninstall_command package keep) < 2 ^ 31 - 20" "length (launch_command package) < 2 ^ 31 - 20"
    "length (close_command package) < 2 ^ 31 - 20" "length (running_command package) < 2 ^ 31 - 20"
  using length_shell_quote [of package] assms
  by (simp_all add: uninstall_command_def launch_command_def close_command_def running_command_def Let_def)

lemma asks_app:
  assumes "length package < 2 ^ 28"
  shows "(\<And>r. U r [shell_service (speaks_v2 ft) (uninstall_command package keep)]) \<Longrightarrow>
      asks base ps_core ft (on_core (uninstall T package keep)) U"
    and "(\<And>r. W r [shell_service (speaks_v2 ft) (launch_command package)]) \<Longrightarrow> asks base ps_core ft (on_core (launch T package)) W"
    and "(\<And>r. V r [shell_service (speaks_v2 ft) (close_command package)]) \<Longrightarrow> asks base ps_core ft (on_core (app_close T package)) V"
    and "(\<And>r. X r [shell_service (speaks_v2 ft) (running_command package)]) \<Longrightarrow> asks base ps_core ft (on_core (is_running T package)) X"
  unfolding uninstall_def launch_def app_close_def is_running_def
  by (intro asks_on_core asks_result asks_run app_command_lengths [OF assms]; simp add: seq_simps)+

lemma remove_quietly_eq:
  "remove_quietly T path = disregard (shell_run T (remove_command path) ShellAuto)"
  by (auto simp: fun_eq_iff remove_quietly_def disregard_def attempt_def bind_io_def ok_io_def split: option.splits prod.splits)

lemma install_eq:
  "install b L T h apk options =
     (if \<not> is_regular_file h apk then fail_io (mk_error InvalidArgument ''the APK is not a regular file'')
      else bind_io (attempt (sync_push b L T h apk (remote_apk apk) CompressAuto))
        (\<lambda>pushed. case pushed of
           Inl e \<Rightarrow> bind_io (remove_quietly T (remote_apk apk)) (\<lambda>_. fail_io e)
         | Inr _ \<Rightarrow>
             bind_io (attempt (shell_run T (install_command options (remote_apk apk)) ShellAuto))
               (\<lambda>result. bind_io (remove_quietly T (remote_apk apk))
                 (\<lambda>_. case result of Inl e \<Rightarrow> fail_io e | Inr r \<Rightarrow> ok_io (package_result r)))))"
  by (auto simp: fun_eq_iff install_def Let_def attempt_def bind_io_def split: option.splits prod.splits sum.splits)

section \<open>Programs that come back\<close>

text \<open>With nothing to say about the result and the services, the rules need no bookkeeping.\<close>

abbreviation comes_back :: "byte list \<Rightarrow> ('s \<Rightarrow> 't Connection) \<Rightarrow> string list \<Rightarrow> ('s, 'a) io \<Rightarrow> bool" where
  "comes_back base conn ft m \<equiv> asks base conn ft m (\<lambda>_ _. True)"

lemma comes_back_bind:
  assumes "comes_back base conn ft m" "\<And>a. comes_back base conn ft (f a)"
  shows "comes_back base conn ft (bind_io m f)"
  by (rule asks_bind, rule asks_mono [OF assms(1)]) (simp add: assms(2))

lemma comes_back_in_order:
  assumes "\<And>m. m \<in> set ms \<Longrightarrow> comes_back base conn ft m"
  shows "comes_back base conn ft (in_order ms)"
  using assms by (induction ms) (auto intro: asks_ok comes_back_bind)

lemma comes_back_disregard: "comes_back base conn ft m \<Longrightarrow> comes_back base conn ft (disregard m)"
  by (rule asks_disregard)

lemma comes_back_basic:
  "comes_back base conn ft (ok_io a)" "comes_back base conn ft (fail_io e)" "comes_back base ps_core ft (print text)"
  "comes_back base ps_core ft (pause ms)" "comes_back base ps_core ft (change_host g)"
  "comes_back base ps_core ft (push_file b L T path remote compression)"
  "comes_back base id ft (sync_push b L T h path remote compression)"
  "comes_back base id ft (sync_list T path)" "comes_back base id ft (sync_stat T path)"
  "plain_transfers b ft \<Longrightarrow> comes_back base ps_core ft (pull_file b L T remote path CompressAuto)"
  "length cmd < 2 ^ 31 - 20 \<Longrightarrow> comes_back base id ft (shell_run T cmd ShellAuto)"
  "length cmd < 2 ^ 31 - 20 \<Longrightarrow> comes_back base ps_core ft (shell_command T cmd)"
  by (simp_all add: asks_ok asks_fail asks_print asks_push asks_push_connection asks_list asks_stat asks_pull asks_run asks_command)

lemmas comes_back_intros = comes_back_bind comes_back_in_order comes_back_disregard asks_attempt asks_if asks_with_host
  asks_on_core comes_back_basic

lemma comes_back_sum:
  "(\<And>e. comes_back base conn ft (f e)) \<Longrightarrow> (\<And>a. comes_back base conn ft (g a)) \<Longrightarrow>
     comes_back base conn ft (case r of Inl e \<Rightarrow> f e | Inr a \<Rightarrow> g a)"
  by (cases r) simp_all

lemma comes_back_install:
  assumes "length apk < 2 ^ 28" "length options < 2 ^ 28"
  shows "comes_back base ps_core ft (install_apk b L T apk options)"
proof -
  have "length (remote_apk apk) < 2 ^ 28 + 16" using assms(1) length_filename [of apk] by (simp add: remote_apk_def)
  then have len: "length (remove_command (remote_apk apk)) < 2 ^ 31 - 20"
    "length (install_command options (remote_apk apk)) < 2 ^ 31 - 20"
    using length_shell_quote [of "remote_apk apk"] assms(2) by (simp_all add: remove_command_def install_command_def Let_def)
  show ?thesis
    unfolding install_apk_def install_eq remove_quietly_eq by (intro comes_back_intros comes_back_sum len)
qed

lemma comes_back_app:
  assumes "length package < 2 ^ 28"
  shows "comes_back base ps_core ft (on_core (uninstall T package keep))"
    "comes_back base ps_core ft (on_core (launch T package))" "comes_back base ps_core ft (on_core (app_close T package))"
    "comes_back base ps_core ft (on_core (is_running T package))"
  by (rule asks_app [OF assms]; simp)+

end

section \<open>How much a command can print\<close>

definition payload_size :: "Frame list \<Rightarrow> nat" where
  "payload_size fs = length (concat (map payload fs))"

lemma payload_size_simps [simp]:
  "payload_size [] = 0" "payload_size (f # fs) = length (payload f) + payload_size fs"
  by (simp_all add: payload_size_def)

lemma stream_data_size: "length (stream_data lid fs) \<le> payload_size fs"
  by (induction fs) auto

lemma open_reply_size: "open_reply lid fs = (r, gs) \<Longrightarrow> payload_size gs \<le> payload_size fs"
  using open_reply_suffix [of lid fs r gs] by (auto simp: payload_size_def)

lemma packets_from_size:
  "length (cmd_output (packets_from raw offset r)) \<le> length (cmd_output r) + (length raw - offset)"
proof (induction raw offset r rule: packets_from.induct)
  case (1 raw offset r)
  show ?case
  proof (cases "offset + 5 \<le> length raw")
    case True
    define i n where in_def: "i = raw ! offset" "n = unat (read_u32_le (drop (offset + 1) raw))"
    let ?r = "apply_packet i (take n (drop (offset + 5) raw)) r"
    show ?thesis
    proof (cases "length raw < offset + 5 + n")
      case False
      have "length (cmd_output (packets_from raw (offset + 5 + n) ?r)) \<le> length (cmd_output ?r) + (length raw - (offset + 5 + n))"
        using 1 True False by (simp add: in_def)
      moreover have "length (cmd_output ?r) \<le> length (cmd_output r) + n" by (simp add: apply_packet_def)
      moreover have "packets_from raw offset r = packets_from raw (offset + 5 + n) ?r"
        using True False by (subst packets_from.simps) (simp add: in_def Let_def)
      ultimately show ?thesis using False by simp
    next
      case True': True
      with True have "packets_from raw offset r = r" by (subst packets_from.simps) (simp add: in_def Let_def)
      then show ?thesis by simp
    qed
  next
    case False
    then have "packets_from raw offset r = r" by (subst packets_from.simps) simp
    then show ?thesis by simp
  qed
qed

lemma command_result_size: "length (cmd_output (command_result v2 raw)) \<le> length raw"
  using packets_from_size [of raw 0 empty_CommandResult]
  by (simp add: command_result_def shell_result_def Let_def empty_CommandResult_def)

context byte_channel
begin

lemma shell_run_output:
  fixes c :: "'t Connection"
  assumes "conn_stage good pending sent base c fs out" "length cmd < 2 ^ 31 - 20"
    and "shell_run T cmd protocol c = Some (Inr res, c')"
  shows "length (cmd_output res) \<le> payload_size fs"
proof -
  let ?v2 = "uses_v2 protocol c" and ?lid = "next_local_id c"
  let ?svc = "shell_service ?v2 cmd" and ?f = "\<lambda>raw. ok_io (command_result (uses_v2 protocol c) raw)"
  have len: "Suc (length ?svc) < 2 ^ 31" using assms(2) by (simp add: shell_service_def)
  obtain r gs where reply: "open_reply ?lid fs = (r, gs)" by fastforce
  have sp: "spoken good pending sent base (fs @ []) c (requests out)" using spoken_start [OF assms(1)] by simp
  show ?thesis
  proof (cases r)
    case (Inl e)
    with with_stream_refused [OF assms(1) len] reply obtain c2 where
      "with_stream T ?svc (bind_io (read_all T) ?f) c = Some (Inl e, c2)" by blast
    with assms(3) show ?thesis by (simp add: shell_run_eq)
  next
    case (Inr rid)
    let ?d = "stream_data ?lid gs"
    let ?res = "if stream_end ?lid gs = Closed then Inr (command_result ?v2 ?d) else Inl (end_error (stream_end ?lid gs))"
    have "\<exists>c2. with_stream T ?svc (bind_io (read_all T) ?f) c = Some (?res, c2)"
      by (rule with_stream_returns [OF sp len reply [unfolded Inr] unaddressed_Nil(2)])
        (auto simp: bind_io_def ok_io_def dest!: dialogue_read_all)
    with assms(3) have "res = command_result ?v2 ?d" by (auto simp: shell_run_eq split: if_splits)
    then show ?thesis
      using command_result_size [of ?v2 ?d] stream_data_size [of ?lid gs] open_reply_size [OF reply] by simp
  qed
qed

end

end
