(* ===== verification/Adb_Tour.thy ===== *)
theory Adb_Tour
  imports Adb_Requests Adb_Usb Adb_Retry
begin

text \<open>
  The guided tour, \<open>examples/demo/main.cpp\<close> for one device and \<open>examples/demo_multi/main.cpp\<close> for every
  attached device at once. A step of the tour is an operation on the connection; the steps of both
  programs are the same, but for the text and the names of the scratch files.

  \<open>demo\<close> ends with \<open>std::exit\<close> when a step fails, which destroys nothing; in \<open>demo_multi\<close> a failed step
  throws, so the transport is destroyed on the way out of the tour.
\<close>

section \<open>Steps (examples/demo)\<close>

definition heading :: "string \<Rightarrow> ('c Process, unit) io" where
  "heading what = print (nl @ ''== '' @ what @ '' =='' @ nl)"

fun send_keys :: "'t Transport_ops \<Rightarrow> string list \<Rightarrow> ('t Connection Process, unit) io" where
  "send_keys T [] = ok_io ()"
| "send_keys T (key # keys) =
     bind_io (shell_command T (''input keyevent '' @ key)) (\<lambda>_. bind_io (pause 1000) (\<lambda>_. send_keys T keys))"

definition set_power :: "'t Transport_ops \<Rightarrow> string \<Rightarrow> string list \<Rightarrow> ('t Connection Process, unit) io" where
  "set_power T action keys =
     in_order
       [heading action,
        send_keys T keys,
        bind_io (attempt (shell_command T ''dumpsys power | grep mWakefulness''))
          (\<lambda>state. case state of
             Inl _ \<Rightarrow> ok_io ()
           | Inr r \<Rightarrow> if cmd_output r \<noteq> [] then print (cmd_output r) else ok_io ())]"

text \<open>Installing: one APK with the library, a split application through a session of the package manager.\<close>

definition session_of :: "CommandResult \<Rightarrow> string Result" where
  "session_of created =
     (case str_find ''['' (cmd_output created) of
        None \<Rightarrow> Inl (mk_error Device (cmd_output created))
      | Some open \<Rightarrow>
          (case str_find_from '']'' (cmd_output created) (open + 1) of
             None \<Rightarrow> Inl (mk_error Device (cmd_output created))
           | Some close \<Rightarrow>
               if \<not> success created then Inl (mk_error Device (cmd_output created))
               else Inr (take (close - open - 1) (drop (open + 1) (cmd_output created)))))"

definition write_command :: "string \<Rightarrow> string \<Rightarrow> string" where
  "write_command session apk =
     ''pm install-write '' @ session @ '' '' @ filename apk @ '' '' @ ''/data/local/tmp/'' @ filename apk"

fun write_apks ::
  "Build \<Rightarrow> 'd Codecs \<Rightarrow> 't Transport_ops \<Rightarrow> string \<Rightarrow> string list \<Rightarrow> ('t Connection Process, unit) io" where
  "write_apks b L T session [] = ok_io ()"
| "write_apks b L T session (apk # apks) =
     bind_io (push_file b L T apk (''/data/local/tmp/'' @ filename apk) CompressAuto)
       (\<lambda>_. bind_io (shell_command T (write_command session apk))
         (\<lambda>written.
           if \<not> success written then
             bind_io (disregard (shell_command T (''pm install-abandon '' @ session)))
               (\<lambda>_. fail_io (mk_error Device (cmd_output written)))
           else write_apks b L T session apks))"

definition install_app ::
  "Build \<Rightarrow> 'd Codecs \<Rightarrow> 't Transport_ops \<Rightarrow> string list \<Rightarrow> ('t Connection Process, PackageResult) io" where
  "install_app b L T apks =
     (if length apks = 1 then install_apk b L T (hd apks) []
      else
        bind_io (shell_command T ''pm install-create'')
          (\<lambda>created. case session_of created of
             Inl e \<Rightarrow> fail_io e
           | Inr session \<Rightarrow>
               bind_io (write_apks b L T session apks)
                 (\<lambda>_. bind_io (shell_command T (''pm install-commit '' @ session))
                   (\<lambda>committed. ok_io \<lparr>cmd_output = cmd_output committed, standard_output = [], error_output = [],
                      exit_code = exit_code committed, success = success committed\<rparr>))))"

definition tour_shell :: "'t Transport_ops \<Rightarrow> ('t Connection Process, unit) io" where
  "tour_shell T =
     bind_io (heading ''run a shell command'')
       (\<lambda>_. bind_io (shell_command T ''echo hello'')
         (\<lambda>hello. print (''exit code '' @ to_string (unat (exit_code hello)) @ '', output: '' @ cmd_output hello)))"

definition tour_list :: "'t Transport_ops \<Rightarrow> ('t Connection Process, unit) io" where
  "tour_list T =
     bind_io (heading ''list /sdcard'')
       (\<lambda>_. bind_io (on_core (sync_list T ''/sdcard''))
         (\<lambda>entries. print (to_string (length entries) @ '' entries, first: ''
            @ (if entries \<noteq> [] then de_name (hd entries) else []) @ nl)))"

text \<open>The names of the local files and the text are those of the program.\<close>

definition file_round_trip ::
  "Build \<Rightarrow> 'd Codecs \<Rightarrow> 't Transport_ops \<Rightarrow> string \<Rightarrow> string \<Rightarrow> string \<Rightarrow> string \<Rightarrow> ('t Connection Process, unit) io" where
  "file_round_trip b L T text local remote pulled =
     bind_io (in_order [heading ''push, stat, and pull a file'', change_host (write_text local text),
         push_file b L T local remote CompressAuto])
       (\<lambda>_. bind_io (on_core (sync_stat T remote))
         (\<lambda>st. bind_io (in_order
             [print (''pushed '' @ remote @ '' ('' @ to_string (case st of None \<Rightarrow> 0 | Some s \<Rightarrow> unat (fs_size s)) @ '' bytes)'' @ nl),
              pull_file b L T remote pulled CompressAuto])
           (\<lambda>_. with_host (\<lambda>h. let contents = read_text pulled h in
             in_order
               [change_host (remove_file local), change_host (remove_file pulled),
                disregard (shell_command T (''rm -f '' @ remote)),
                print (''round-tripped '' @ to_string (length contents) @ '' bytes'' @ nl)]))))"

definition tour_files ::
  "Build \<Rightarrow> 'd Codecs \<Rightarrow> 't Transport_ops \<Rightarrow> string \<Rightarrow> ('t Connection Process, unit) io" where
  "tour_files b L T tmp =
     file_round_trip b L T (''adbcpp demo'' @ nl) (path_append tmp ''adbcpp_demo_push.txt'')
       ''/data/local/tmp/adbcpp_demo_push.txt'' (path_append tmp ''adbcpp_demo_pull.txt'')"

definition expect_success :: "CommandResult \<Rightarrow> ('s, unit) io" where
  "expect_success r = (if \<not> success r then fail_io (mk_error Device (cmd_output r)) else ok_io ())"

definition remove_installed :: "'t Transport_ops \<Rightarrow> string \<Rightarrow> ('t Connection Process, unit) io" where
  "remove_installed T package =
     bind_io (shell_command T (''pm path '' @ package))
       (\<lambda>installed.
         if str_find package (cmd_output installed) \<noteq> None then
           bind_io (print (package @ '' is already installed; uninstalling it first'' @ nl))
             (\<lambda>_. bind_io (on_core (uninstall T package False)) expect_success)
         else ok_io ())"

definition tour_install ::
  "Build \<Rightarrow> 'd Codecs \<Rightarrow> 't Transport_ops \<Rightarrow> string \<Rightarrow> string list \<Rightarrow> ('t Connection Process, unit) io" where
  "tour_install b L T package apks =
     in_order
       [heading (''install '' @ package),
        remove_installed T package,
        bind_io (install_app b L T apks) expect_success,
        print (''installed '' @ package @ '' from '' @ to_string (length apks) @ '' apk(s)'' @ nl)]"

text \<open>The retries of the launch; the argument is the outcome of the last one.\<close>

fun launch_attempts ::
  "'t Transport_ops \<Rightarrow> string \<Rightarrow> nat \<Rightarrow> CommandResult Result \<Rightarrow> ('t Connection Process, CommandResult Result) io" where
  "launch_attempts T package 0 launched = ok_io launched"
| "launch_attempts T package (Suc n) launched =
     bind_io (attempt (on_core (launch T package)))
       (\<lambda>launched.
         if (case launched of Inl _ \<Rightarrow> False | Inr r \<Rightarrow> success r) then ok_io launched
         else bind_io (pause 500) (\<lambda>_. launch_attempts T package n launched))"

definition tour_launch :: "'t Transport_ops \<Rightarrow> string \<Rightarrow> ('t Connection Process, unit) io" where
  "tour_launch T package =
     bind_io (heading (''launch '' @ package))
       (\<lambda>_. bind_io (launch_attempts T package 10 (Inl (mk_error Device ''the app was not launched'')))
         (\<lambda>launched. case launched of Inl e \<Rightarrow> fail_io e | Inr r \<Rightarrow> expect_success r))"

text \<open>The loop over the seconds from \<open>second\<close> on, \<open>n\<close> of them.\<close>

fun watch_app :: "'t Transport_ops \<Rightarrow> string \<Rightarrow> nat \<Rightarrow> nat \<Rightarrow> ('t Connection Process, unit) io" where
  "watch_app T package second 0 = ok_io ()"
| "watch_app T package second (Suc n) =
     bind_io (pause 1000)
       (\<lambda>_. bind_io (on_core (is_running T package))
         (\<lambda>running.
           bind_io (print (to_string (second + 1) @ ''s: '' @ package @ (if running then '' is running'' else '' is not running'') @ nl))
             (\<lambda>_. if \<not> running then ok_io () else watch_app T package (second + 1) n)))"

definition tour_watch :: "'t Transport_ops \<Rightarrow> string \<Rightarrow> ('t Connection Process, unit) io" where
  "tour_watch T package = in_order [heading ''check that it runs for ten seconds'', watch_app T package 0 10]"

definition tour_close :: "'t Transport_ops \<Rightarrow> string \<Rightarrow> ('t Connection Process, unit) io" where
  "tour_close T package =
     in_order [heading (''close '' @ package), on_core (app_close T package), print (''stopped '' @ package @ nl)]"

text \<open>All steps on the device, from the second on.\<close>

definition demo_tour ::
  "Build \<Rightarrow> 'd Codecs \<Rightarrow> 't Transport_ops \<Rightarrow> string \<Rightarrow> string \<Rightarrow> string list \<Rightarrow> ('t Connection Process, unit) io" where
  "demo_tour b L T tmp package apks =
     in_order
       [tour_shell T, tour_list T, tour_files b L T tmp, set_power T ''sleep the device'' [''223''],
        tour_install b L T package apks, set_power T ''wake the device'' [''224'', ''82''],
        tour_launch T package, tour_watch T package, tour_close T package,
        close_connection T, print (nl @ ''done'' @ nl)]"

section \<open>Programs over USB\<close>

text \<open>
  Before a device is open the program works with libusb's state and the entropy of mbedTLS. The environment
  of the retry loop is that process: opening, destroying and pausing act on it. The entropy a signature
  needs is that at the time of connecting. Once connected, libusb's state is inside the transport.
\<close>

type_synonym ('o, 'w) host_process = "('o \<times> 'w) Process"

definition set_usb :: "'o \<Rightarrow> ('o, 'w) host_process \<Rightarrow> ('o, 'w) host_process" where
  "set_usb os p = p\<lparr>ps_core := (os, snd (ps_core p))\<rparr>"

definition on_usb :: "('o, 'a) st \<Rightarrow> (('o, 'w) host_process, 'a) io" where
  "on_usb m p = (case m (fst (ps_core p)) of (r, os) \<Rightarrow> Some (r, set_usb os p))"

definition load_key :: "('m, 'k, 'w) Mbedtls \<Rightarrow> Account \<Rightarrow> (('o, 'w) host_process, 'k Key) io" where
  "load_key M A p =
     (case load_or_generate M A (snd (ps_core p), ps_host p) of
        (r, (w, h)) \<Rightarrow> Some (r, p\<lparr>ps_core := (fst (ps_core p), w), ps_host := h\<rparr>))"

definition usb_env ::
  "('o, 'd) Libusb \<Rightarrow> DeviceId \<Rightarrow> u32 \<Rightarrow> u32 \<Rightarrow> ('o usb, ('o, 'w) host_process) Retry_env" where
  "usb_env U i transfer_timeout_ms transfer_budget_ms =
     \<lparr>rt_open = (\<lambda>p. case usb_open U i transfer_timeout_ms transfer_budget_ms (fst (ps_core p)) of
                  (Inl e, os) \<Rightarrow> (Inl e, set_usb os p) | (Inr t, os) \<Rightarrow> (Inr (t, os), set_usb os p)),
      rt_destroy = (\<lambda>t p. set_usb (usb_destroy U t) p),
      rt_sleep = (\<lambda>d p. p\<lparr>ps_pauses := ps_pauses p @ [d]\<rparr>)\<rparr>"

definition usb_connect ::
  "Build \<Rightarrow> ('o, 'd) Libusb \<Rightarrow> ('m, 'k, 'w) Mbedtls \<Rightarrow> DeviceId \<Rightarrow> u32 \<Rightarrow> u32 \<Rightarrow> 'k Key
     \<Rightarrow> (('o, 'w) host_process, 'o usb Connection) io" where
  "usb_connect b U M i transfer_timeout_ms transfer_budget_ms key p =
     (case connect_with_retry b (usb_ops U) (usb_env U i transfer_timeout_ms transfer_budget_ms) None
         (bytes_of_string (key_public key)) (Some (\<lambda>token. fst (key_sign M key token (snd (ps_core p))))) False 5 250 p of
        (r, slot, p') \<Rightarrow> Some (r, p'))"

text \<open>\<open>connect\<close> of the two demos: the defaults of \<open>UsbTransport::open\<close>.\<close>

definition demo_connect ::
  "Build \<Rightarrow> ('o, 'd) Libusb \<Rightarrow> ('m, 'k, 'w) Mbedtls \<Rightarrow> DeviceId \<Rightarrow> 'k Key
     \<Rightarrow> (('o, 'w) host_process, 'o usb Connection) io" where
  "demo_connect b U M i key = usb_connect b U M i 5000 120000 key"

text \<open>
  The rest of a program on its connection. On the way out the transport is destroyed, but not when
  the program was left by \<open>std::exit\<close>: \<open>unwinds\<close> says whether an error leaves by returning.
\<close>

definition on_device ::
  "('x \<times> 'o \<Rightarrow> 'o) \<Rightarrow> bool \<Rightarrow> (('x \<times> 'o) Connection Process, 'a) io \<Rightarrow> ('x \<times> 'o) Connection
     \<Rightarrow> (('o, 'w) host_process, 'a) io" where
  "on_device destroy unwinds body c p =
     (case body (set_core c p) of
        None \<Rightarrow> None
      | Some (r, p') \<Rightarrow>
          let t = sess_transport (conn_session (ps_core p')) in
          Some (r, set_core (if isl r \<and> \<not> unwinds then snd t else destroy t, snd (ps_core p)) p'))"

text \<open>What a program prints about its connection.\<close>

definition connected_text :: "'t Transport_ops \<Rightarrow> 't Connection \<Rightarrow> string" where
  "connected_text T c =
     ''connected to a device running protocol 0x'' @ to_hex (unat (device_version c))
       @ (if device_serial T c \<noteq> [] then '' with serial '' @ device_serial T c else []) @ nl"

section \<open>The demo for one device\<close>

record DemoArgs =
  da_package :: string
  da_apks :: "string list"
  da_serial :: "string option"

fun demo_args :: "string list \<Rightarrow> DemoArgs \<Rightarrow> DemoArgs" where
  "demo_args [] a = a"
| "demo_args (arg # args) a =
     (if arg = ''--serial'' \<and> args \<noteq> [] then demo_args (tl args) (a\<lparr>da_serial := Some (hd args)\<rparr>)
      else if da_package a = [] then demo_args args (a\<lparr>da_package := arg\<rparr>)
      else demo_args args (a\<lparr>da_apks := da_apks a @ [arg]\<rparr>))"

definition serial_text :: "DeviceId \<Rightarrow> string" where
  "serial_text i = (if id_serial i = [] then ''(no serial)'' else id_serial i)"

definition found_text :: "DeviceId list \<Rightarrow> string" where
  "found_text devices =
     ''found '' @ to_string (length devices) @ '' device(s):'' @ concat (map (\<lambda>i. '' '' @ serial_text i) devices) @ nl"

definition no_device :: string where
  "no_device = ''warning: no USB device found; skipping'' @ nl"

definition demo_detect ::
  "('o, 'd) Libusb \<Rightarrow> string option \<Rightarrow> (('o, 'w) host_process, DeviceId option) io" where
  "demo_detect U serial =
     bind_io (heading ''detect a device'')
       (\<lambda>_. bind_io
         (case serial of
            Some s \<Rightarrow> ok_io (Some \<lparr>vendor_id = 0, product_id = 0, id_serial = s\<rparr>)
          | None \<Rightarrow>
              bind_io (on_usb (usb_list U))
                (\<lambda>devices.
                  if devices = [] then bind_io (print_error no_device) (\<lambda>_. ok_io None)
                  else bind_io (print (found_text devices)) (\<lambda>_. ok_io (Some (hd devices)))))
         (\<lambda>device. case device of
            None \<Rightarrow> ok_io None
          | Some i \<Rightarrow> bind_io (print (''using device '' @ id_serial i @ nl)) (\<lambda>_. ok_io (Some i))))"

definition fingerprint_text :: "('m, 'k, 'w) Mbedtls \<Rightarrow> 'k Key \<Rightarrow> string" where
  "fingerprint_text M key = (case fingerprint M key of Inl _ \<Rightarrow> ''?'' | Inr text \<Rightarrow> text)"

definition demo_open ::
  "Build \<Rightarrow> ('o, 'd) Libusb \<Rightarrow> ('m, 'k, 'w) Mbedtls \<Rightarrow> Account \<Rightarrow> DeviceId \<Rightarrow> (('o, 'w) host_process, 'o usb Connection) io" where
  "demo_open b U M A i =
     bind_io (heading ''connect'')
       (\<lambda>_. bind_io (load_key M A)
         (\<lambda>key. bind_io (in_order
             [print (''key fingerprint: '' @ fingerprint_text M key @ nl),
              print (''approve the USB debugging prompt on the device if it appears'' @ nl)])
           (\<lambda>_. bind_io (demo_connect b U M i key)
             (\<lambda>c. bind_io (print (connected_text (usb_ops U) c)) (\<lambda>_. ok_io c)))))"

definition demo_main ::
  "Build \<Rightarrow> 'e Codecs \<Rightarrow> ('o, 'd) Libusb \<Rightarrow> ('m, 'k, 'w) Mbedtls \<Rightarrow> Account \<Rightarrow> string \<Rightarrow> string list
     \<Rightarrow> ('o, 'w) host_process \<Rightarrow> (nat \<times> ('o, 'w) host_process) option" where
  "demo_main b L U M A tmp argv =
     (let a = demo_args argv \<lparr>da_package = [], da_apks = [], da_serial = None\<rparr> in
      run_main
        (if da_package a = [] \<or> da_apks a = [] then
           bind_io (print_error (''usage: adbcpp_demo_example <package> <apk> [<split-apk>...] [--serial <serial>]'' @ nl))
             (\<lambda>_. ok_io 1)
         else
           bind_io (demo_detect U (da_serial a))
             (\<lambda>device. case device of
                None \<Rightarrow> ok_io 0
              | Some i \<Rightarrow>
                  bind_io (demo_open b U M A i)
                    (\<lambda>c. bind_io (on_device (usb_destroy U) False (demo_tour b L (usb_ops U) tmp (da_package a) (da_apks a)) c)
                      (\<lambda>_. ok_io 0)))))"

section \<open>The demo for every device (examples/demo_multi)\<close>

definition multi_files ::
  "Build \<Rightarrow> 'd Codecs \<Rightarrow> 't Transport_ops \<Rightarrow> string \<Rightarrow> nat \<Rightarrow> ('t Connection Process, unit) io" where
  "multi_files b L T tmp index =
     file_round_trip b L T (''adbcpp demo multi'' @ nl)
       (path_append tmp (''adbcpp_demo_multi_push_'' @ to_string index @ ''.txt''))
       ''/data/local/tmp/adbcpp_demo_multi_push.txt''
       (path_append tmp (''adbcpp_demo_multi_pull_'' @ to_string index @ ''.txt''))"

definition tour_uninstall :: "'t Transport_ops \<Rightarrow> string \<Rightarrow> ('t Connection Process, unit) io" where
  "tour_uninstall T package =
     in_order
       [heading (''uninstall '' @ package), bind_io (on_core (uninstall T package False)) expect_success,
        print (''uninstalled '' @ package @ nl)]"

definition multi_open ::
  "Build \<Rightarrow> ('o, 'd) Libusb \<Rightarrow> ('m, 'k, 'w) Mbedtls \<Rightarrow> Account \<Rightarrow> DeviceId \<Rightarrow> (('o, 'w) host_process, 'o usb Connection) io" where
  "multi_open b U M A i =
     bind_io (in_order [heading ''detect a device'', print (''using device '' @ serial_text i @ nl)])
       (\<lambda>_. demo_open b U M A i)"

definition multi_tour ::
  "Build \<Rightarrow> 'd Codecs \<Rightarrow> 't Transport_ops \<Rightarrow> string \<Rightarrow> nat \<Rightarrow> string \<Rightarrow> string list \<Rightarrow> ('t Connection Process, unit) io" where
  "multi_tour b L T tmp index package apks =
     in_order
       [tour_shell T, tour_list T, multi_files b L T tmp index, set_power T ''sleep the device'' [''223''],
        tour_install b L T package apks, set_power T ''wake the device'' [''224'', ''82''],
        tour_launch T package, tour_watch T package, tour_close T package, tour_uninstall T package,
        close_connection T, print (nl @ ''done'' @ nl)]"

definition run_tour ::
  "Build \<Rightarrow> 'e Codecs \<Rightarrow> ('o, 'd) Libusb \<Rightarrow> ('m, 'k, 'w) Mbedtls \<Rightarrow> Account \<Rightarrow> string \<Rightarrow> DeviceId \<Rightarrow> nat \<Rightarrow> string
     \<Rightarrow> string list \<Rightarrow> (('o, 'w) host_process, unit) io" where
  "run_tour b L U M A tmp i index package apks =
     bind_io (multi_open b U M A i) (on_device (usb_destroy U) True (multi_tour b L (usb_ops U) tmp index package apks))"

record DeviceResult =
  dr_serial :: string
  dr_success :: bool
  dr_log :: string

text \<open>
  One thread: the tour with an output of its own. The threads share nothing the code synchronises on, so
  they are run one after the other, each on a process with its own output.
\<close>

definition device_thread ::
  "(DeviceId \<Rightarrow> nat \<Rightarrow> ('p Process, unit) io) \<Rightarrow> DeviceId \<Rightarrow> nat \<Rightarrow> 'p Process \<Rightarrow> (DeviceResult \<times> 'p Process) option" where
  "device_thread tour i index p =
     (case tour i index (p\<lparr>ps_out := []\<rparr>) of
        None \<Rightarrow> None
      | Some (Inl e, p') \<Rightarrow>
          Some (\<lparr>dr_serial = id_serial i, dr_success = False, dr_log = ps_out p' @ ''error: '' @ err_message e @ nl\<rparr>,
            p'\<lparr>ps_out := ps_out p\<rparr>)
      | Some (Inr _, p') \<Rightarrow>
          Some (\<lparr>dr_serial = id_serial i, dr_success = True, dr_log = ps_out p'\<rparr>, p'\<lparr>ps_out := ps_out p\<rparr>))"

fun run_threads ::
  "(DeviceId \<Rightarrow> nat \<Rightarrow> ('p Process, unit) io) \<Rightarrow> DeviceId list \<Rightarrow> nat \<Rightarrow> 'p Process
     \<Rightarrow> (DeviceResult list \<times> 'p Process) option" where
  "run_threads tour [] index p = Some ([], p)"
| "run_threads tour (i # is) index p =
     (case device_thread tour i index p of
        None \<Rightarrow> None
      | Some (r, p1) \<Rightarrow>
          (case run_threads tour is (index + 1) p1 of None \<Rightarrow> None | Some (rs, p2) \<Rightarrow> Some (r # rs, p2)))"

definition result_text :: "DeviceResult \<Rightarrow> string" where
  "result_text r = nl @ ''== '' @ (if dr_serial r = [] then ''(no serial)'' else dr_serial r) @ '' =='' @ nl @ dr_log r"

definition multi_args :: "string list \<Rightarrow> string \<times> string list" where
  "multi_args argv =
     (case dropWhile (\<lambda>arg. arg = []) argv of [] \<Rightarrow> ([], []) | package # apks \<Rightarrow> (package, apks))"

definition demo_multi_main ::
  "Build \<Rightarrow> 'e Codecs \<Rightarrow> ('o, 'd) Libusb \<Rightarrow> ('m, 'k, 'w) Mbedtls \<Rightarrow> Account \<Rightarrow> string \<Rightarrow> string list
     \<Rightarrow> ('o, 'w) host_process \<Rightarrow> (nat \<times> ('o, 'w) host_process) option" where
  "demo_multi_main b L U M A tmp argv =
     (case multi_args argv of
        (package, apks) \<Rightarrow>
          run_main
            (if package = [] \<or> apks = [] then
               bind_io (print_error (''usage: adbcpp_demo_multi_example <package> <apk> [<split-apk>...]'' @ nl)) (\<lambda>_. ok_io 1)
             else
               bind_io (on_usb (usb_list U))
                 (\<lambda>attached.
                   if attached = [] then bind_io (print_error no_device) (\<lambda>_. ok_io 0)
                   else
                     bind_io (print (found_text attached))
                       (\<lambda>_ p.
                         case run_threads (\<lambda>i index. run_tour b L U M A tmp i index package apks) attached 0 p of
                           None \<Rightarrow> None
                         | Some (results, p') \<Rightarrow>
                             bind_io (print (concat (map result_text results)))
                               (\<lambda>_. ok_io (if \<exists>r \<in> set results. \<not> dr_success r then 1 else 0)) p'))))"

end
