(* ===== verification/Adb_Tour_Spec.thy ===== *)
theory Adb_Tour_Spec
  imports Adb_Tour
begin

text \<open>
  What the tour does on a device, whatever the device answers: it ends, it installs a split application as
  a whole or not at all, and it leaves alone every local file but its own two.
\<close>

section \<open>Installing a split application\<close>

definition write_services :: "bool \<Rightarrow> string \<Rightarrow> string \<Rightarrow> string list" where
  "write_services v2 session apk = [''sync:'', ''sync:'', shell_service v2 (write_command session apk)]"

text \<open>The services of an APK that was not written: the push failed, or the command, or it was refused.\<close>

definition unfinished :: "bool \<Rightarrow> string \<Rightarrow> string \<Rightarrow> string list list" where
  "unfinished v2 session apk =
     [[], [''sync:''], [''sync:'', ''sync:''], write_services v2 session apk,
      write_services v2 session apk @ [shell_service v2 (''pm install-abandon '' @ session)]]"

definition interrupted :: "bool \<Rightarrow> string \<Rightarrow> string list \<Rightarrow> string list \<Rightarrow> bool" where
  "interrupted v2 session apks ss \<longleftrightarrow>
     (\<exists>written apk rest stop. apks = written @ apk # rest \<and> stop \<in> set (unfinished v2 session apk)
        \<and> ss = concat (map (write_services v2 session) written) @ stop)"

lemma interrupted_here: "stop \<in> set (unfinished v2 session apk) \<Longrightarrow> interrupted v2 session (apk # apks) stop"
  unfolding interrupted_def by (intro exI [of _ "[]"] exI [of _ apk] exI [of _ apks] exI [of _ stop]) simp

lemma interrupted_later:
  assumes "interrupted v2 session apks ss"
  shows "interrupted v2 session (apk # apks) (write_services v2 session apk @ ss)"
proof -
  obtain written apk' rest stop where "apks = written @ apk' # rest" "stop \<in> set (unfinished v2 session apk')"
    "ss = concat (map (write_services v2 session) written) @ stop"
    using assms unfolding interrupted_def by blast
  then show ?thesis
    unfolding interrupted_def by (intro exI [of _ "apk # written"] exI [of _ apk'] exI [of _ rest] exI [of _ stop]) simp
qed

lemma length_write_command:
  "length session < 2 ^ 28 \<Longrightarrow> length apk < 2 ^ 28 \<Longrightarrow> length (write_command session apk) < 2 ^ 31 - 20"
  using length_filename [of apk] by (simp add: write_command_def)

context byte_channel
begin

lemma asks_write_apks:
  fixes ft :: "string list"
  assumes "length session < 2 ^ 28" "\<And>apk. apk \<in> set apks \<Longrightarrow> length apk < 2 ^ 28"
  defines "v2 \<equiv> speaks_v2 ft"
  shows "asks base ps_core ft (write_apks b L T session apks)
    (\<lambda>r ss. isr r \<and> ss = concat (map (write_services v2 session) apks) \<or> isl r \<and> interrupted v2 session apks ss)"
  using assms(2)
proof (induction apks)
  case Nil
  show ?case by (simp add: asks_ok)
next
  case (Cons apk apks)
  let ?W = "\<lambda>apks r ss. isr r \<and> ss = concat (map (write_services v2 session) apks) \<or> isl r \<and> interrupted v2 session apks ss"
  let ?written = "shell_service v2 (write_command session apk)"
  let ?abandon = "shell_service v2 (''pm install-abandon '' @ session)"
  have len: "length (write_command session apk) < 2 ^ 31 - 20" "length (''pm install-abandon '' @ session) < 2 ^ 31 - 20"
    using length_write_command [OF assms(1)] Cons.prems assms(1) by simp_all
  have IH: "asks base ps_core ft (write_apks b L T session apks) (?W apks)"
    using Cons by simp
  have sync: "interrupted v2 session (apk # apks) ss" if "ss = [] \<or> ss = [''sync:''] \<or> ss = [''sync:'', ''sync:'']" for ss
    using that by (auto intro: interrupted_here simp: unfinished_def)
  have cut: "interrupted v2 session (apk # apks) [''sync:'', ''sync:'', ?written]"
    "interrupted v2 session (apk # apks) [''sync:'', ''sync:'', ?written, ?abandon]"
    by (auto intro!: interrupted_here simp: unfinished_def write_services_def)
  have rest: "asks base ps_core ft (write_apks b L T session apks) (\<lambda>r ss. ?W (apk # apks) r ([''sync:'', ''sync:'', ?written] @ ss))"
    by (rule asks_mono [OF IH]) (use interrupted_later in \<open>auto simp: write_services_def\<close>)
  have abandon: "asks base ps_core ft
      (bind_io (disregard (shell_command T (''pm install-abandon '' @ session))) (\<lambda>_. fail_io e))
      (\<lambda>r ss. ?W (apk # apks) r ([''sync:'', ''sync:'', ?written] @ ss))" for e
    by (intro asks_bind asks_disregard asks_command len(2)) (use cut(2) in \<open>auto simp: v2_def intro: asks_fail\<close>)
  have written: "asks base ps_core ft
      (bind_io (shell_command T (write_command session apk))
         (\<lambda>written. if \<not> success written
            then bind_io (disregard (shell_command T (''pm install-abandon '' @ session))) (\<lambda>_. fail_io (mk_error Device (cmd_output written)))
            else write_apks b L T session apks))
      (\<lambda>r ss. ?W (apk # apks) r ([''sync:'', ''sync:''] @ ss))"
    by (intro asks_bind asks_command len(1))
      (use cut(1) rest abandon in \<open>auto simp: v2_def [symmetric] intro!: asks_if\<close>)
  show ?case
    unfolding write_apks.simps
  proof (rule asks_bind, rule asks_push, intro conjI allI impI)
    fix r :: "unit Result" and ss e
    assume "ss = [''sync:'', ''sync:''] \<or> isl r \<and> (ss = [] \<or> ss = [''sync:''])"
    then have "interrupted v2 session (apk # apks) ss" using sync by blast
    then show "?W (apk # apks) (Inl e) ss" by simp
  next
    fix r :: "unit Result" and ss a
    assume "ss = [''sync:'', ''sync:''] \<or> isl r \<and> (ss = [] \<or> ss = [''sync:''])" "r = Inr a"
    then have "ss = [''sync:'', ''sync:'']" by simp
    with written show "asks base ps_core ft
      (bind_io (shell_command T (write_command session apk))
         (\<lambda>written. if \<not> success written
            then bind_io (disregard (shell_command T (''pm install-abandon '' @ session))) (\<lambda>_. fail_io (mk_error Device (cmd_output written)))
            else write_apks b L T session apks))
      (\<lambda>r ss'. ?W (apk # apks) r (ss @ ss'))"
      by (simp only:)
  qed
qed

end

text \<open>The whole installation; the name of the session comes from the device, so its length is bounded by what the device sends.\<close>

lemma session_of_length: "session_of r = Inr session \<Longrightarrow> length session \<le> length (cmd_output r)"
  by (auto simp: session_of_def split: option.splits if_splits)

definition split_services :: "bool \<Rightarrow> string list \<Rightarrow> bool \<Rightarrow> string list \<Rightarrow> bool" where
  "split_services v2 apks failed ss \<longleftrightarrow>
     failed \<and> ss = [shell_service v2 ''pm install-create'']
     \<or> (\<exists>session ws. ss = shell_service v2 ''pm install-create'' # ws
          \<and> (ws = concat (map (write_services v2 session) apks) @ [shell_service v2 (''pm install-commit '' @ session)]
             \<or> failed \<and> interrupted v2 session apks ws))"

context byte_channel
begin

lemma asks_install_session:
  fixes ft :: "string list"
  assumes "length session < 2 ^ 28" "\<And>apk. apk \<in> set apks \<Longrightarrow> length apk < 2 ^ 28"
  defines "v2 \<equiv> speaks_v2 ft"
  shows "asks base ps_core ft
      (bind_io (write_apks b L T session apks)
         (\<lambda>_. bind_io (shell_command T (''pm install-commit '' @ session)) (\<lambda>committed. ok_io (f committed))))
      (\<lambda>r ss. ss = concat (map (write_services v2 session) apks) @ [shell_service v2 (''pm install-commit '' @ session)]
         \<or> isl r \<and> interrupted v2 session apks ss)"
    (is "asks base ps_core ft _ ?W")
proof (rule asks_bind, rule asks_mono [OF asks_write_apks [OF assms(1,2)]])
  fix r :: "unit Result" and ss
  let ?commit = "bind_io (shell_command T (''pm install-commit '' @ session)) (\<lambda>committed. ok_io (f committed))"
  assume *: "isr r \<and> ss = concat (map (write_services (speaks_v2 ft) session) apks)
    \<or> isl r \<and> interrupted (speaks_v2 ft) session apks ss"
  have "asks base ps_core ft ?commit (\<lambda>r ss'. ss' = [shell_service v2 (''pm install-commit '' @ session)])"
    by (intro asks_bind asks_command) (use assms(1) in \<open>auto simp: v2_def intro: asks_ok\<close>)
  then have "asks base ps_core ft ?commit (\<lambda>r ss'. ?W r (concat (map (write_services v2 session) apks) @ ss'))"
    by (rule asks_mono) simp
  with * show "(\<forall>e. r = Inl e \<longrightarrow> ?W (Inl e) ss) \<and> (\<forall>a. r = Inr a \<longrightarrow> asks base ps_core ft ?commit (\<lambda>r' ss'. ?W r' (ss @ ss')))"
    by (cases r) (simp_all add: v2_def)
qed simp

lemma install_app_talks:
  fixes p :: "'t Connection Process"
  assumes "conn_stage good pending sent base (ps_core p) fs []" "payload_size fs < 2 ^ 28" "length apks \<noteq> 1"
    and "\<And>apk. apk \<in> set apks \<Longrightarrow> length apk < 2 ^ 28"
  defines "v2 \<equiv> speaks_v2 (features (ps_core p))"
  shows "\<exists>r p' q. install_app b L T apks p = Some (r, p') \<and> spoken good pending sent base [] (ps_core p') q
    \<and> split_services v2 apks (isl r) (services q)"
proof -
  let ?ft = "features (ps_core p)" and ?create = "shell_service v2 ''pm install-create''"
  have sp: "spoken good pending sent base [] (ps_core p) []" using spoken_start_Nil [OF assms(1)] spoken_forget by blast
  have "asks base ps_core ?ft (shell_command T ''pm install-create'') (\<lambda>r ss. ss = [?create])"
    by (rule asks_command) (simp_all add: v2_def)
  from asksE [OF this refl sp] obtain r1 p1 q1 where
    1: "shell_command T ''pm install-create'' p = Some (r1, p1)" "features (ps_core p1) = ?ft"
    "spoken good pending sent base [] (ps_core p1) q1" "services q1 = [?create]"
    by auto
  have create: "install_app b L T apks p =
      (case r1 of Inl e \<Rightarrow> Some (Inl e, p1)
       | Inr created \<Rightarrow> (case session_of created of
           Inl e \<Rightarrow> Some (Inl e, p1)
         | Inr session \<Rightarrow>
             bind_io (write_apks b L T session apks)
               (\<lambda>_. bind_io (shell_command T (''pm install-commit '' @ session))
                 (\<lambda>committed. ok_io \<lparr>cmd_output = cmd_output committed, standard_output = [], error_output = [],
                    exit_code = exit_code committed, success = success committed\<rparr>)) p1))"
    using assms(3) 1(1) by (auto simp: install_app_def bind_io_def fail_io_def split: sum.splits)
  show ?thesis
  proof (cases "\<exists>created session. r1 = Inr created \<and> session_of created = Inr session")
    case False
    then obtain e where "install_app b L T apks p = Some (Inl e, p1)" using create by (auto split: sum.splits)
    with 1(3,4) show ?thesis
      by (intro exI [of _ "Inl e"] exI [of _ p1] exI [of _ q1]) (simp add: split_services_def)
  next
    case True
    then obtain created session where r1: "r1 = Inr created" "session_of created = Inr session" by blast
    obtain c1 where "shell_run T ''pm install-create'' ShellAuto (ps_core p) = Some (Inr created, c1)"
      using 1(1) r1(1) by (auto simp: shell_command_def on_core_def split: option.splits)
    from shell_run_output [OF assms(1) _ this] session_of_length [OF r1(2)] assms(2) have len: "length session < 2 ^ 28"
      by simp
    let ?install = "bind_io (write_apks b L T session apks)
        (\<lambda>_. bind_io (shell_command T (''pm install-commit '' @ session))
          (\<lambda>committed. ok_io \<lparr>cmd_output = cmd_output committed, standard_output = [], error_output = [],
             exit_code = exit_code committed, success = success committed\<rparr>))"
    have "asks base ps_core ?ft ?install
        (\<lambda>r ss. ss = concat (map (write_services v2 session) apks) @ [shell_service v2 (''pm install-commit '' @ session)]
           \<or> isl r \<and> interrupted v2 session apks ss)"
      unfolding v2_def by (rule asks_install_session [OF len assms(4)])
    from asksE [OF this 1(2,3)] obtain r p' q where
      "?install p1 = Some (r, p')" "spoken good pending sent base [] (ps_core p') (q1 @ q)"
      "services q = concat (map (write_services v2 session) apks) @ [shell_service v2 (''pm install-commit '' @ session)]
       \<or> isl r \<and> interrupted v2 session apks (services q)" .
    moreover from this(1) have "install_app b L T apks p = Some (r, p')" using create r1 by simp
    ultimately have "install_app b L T apks p = Some (r, p')" "spoken good pending sent base [] (ps_core p') (q1 @ q)"
      "split_services v2 apks (isl r) (services (q1 @ q))"
      using 1(4) by (auto simp: split_services_def)
    then show ?thesis by blast
  qed
qed

end

section \<open>Local files and pauses\<close>

text \<open>
  \<open>careful P n m\<close>: however \<open>m\<close> ends, it has left alone every local file but those of \<open>P\<close>, and has paused
  for at most \<open>n\<close> milliseconds.
\<close>

definition careful :: "string set \<Rightarrow> int \<Rightarrow> ('c Process, 'a) io \<Rightarrow> bool" where
  "careful P n m \<longleftrightarrow>
     (\<forall>p r p'. m p = Some (r, p') \<longrightarrow>
        (\<forall>x. x \<notin> P \<longrightarrow> files (ps_host p') x = files (ps_host p) x)
        \<and> (\<exists>ds. ps_pauses p' = ps_pauses p @ ds \<and> sum_list ds \<le> n))"

lemma carefulD:
  assumes "careful P n m" "m p = Some (r, p')"
  shows "x \<notin> P \<Longrightarrow> files (ps_host p') x = files (ps_host p) x"
    "\<exists>ds. ps_pauses p' = ps_pauses p @ ds \<and> sum_list ds \<le> n"
  using assms unfolding careful_def by blast+

lemma careful_mono: "careful P n m \<Longrightarrow> n \<le> n' \<Longrightarrow> careful P n' m"
  unfolding careful_def by (meson order_trans)

lemma careful_bind:
  assumes "careful P n m" "\<And>a. careful P k (f a)" "0 \<le> k"
  shows "careful P (n + k) (bind_io m f)"
  unfolding careful_def
proof (intro allI impI)
  fix p r p'
  assume "bind_io m f p = Some (r, p')"
  then show "(\<forall>x. x \<notin> P \<longrightarrow> files (ps_host p') x = files (ps_host p) x)
      \<and> (\<exists>ds. ps_pauses p' = ps_pauses p @ ds \<and> sum_list ds \<le> n + k)"
  proof (cases rule: bind_io_SomeE)
    case (err e p1)
    then have "p' = p1" by simp
    with carefulD [OF assms(1) err(1)] assms(3) show ?thesis by fastforce
  next
    case (ok a p1)
    obtain ds es where "ps_pauses p1 = ps_pauses p @ ds" "sum_list ds \<le> n" "ps_pauses p' = ps_pauses p1 @ es" "sum_list es \<le> k"
      using carefulD(2) [OF assms(1) ok(1)] carefulD(2) [OF assms(2) ok(2)] by blast
    then have "ps_pauses p' = ps_pauses p @ (ds @ es) \<and> sum_list (ds @ es) \<le> n + k" by simp
    with carefulD(1) [OF assms(1) ok(1)] carefulD(1) [OF assms(2) ok(2)] show ?thesis by metis
  qed
qed

lemma careful_basic:
  "careful P 0 (ok_io a)" "careful P 0 (fail_io e)" "careful P 0 (print text)" "0 \<le> d \<Longrightarrow> careful P d (pause d)"
  "careful P 0 (on_core m)" "careful P 0 (shell_command T cmd)" "careful P 0 (push_file b L T path remote compression)"
  "careful P 0 (install_apk b L T apk options)"
  "path \<in> P \<Longrightarrow> careful P 0 (change_host (write_text path text))" "path \<in> P \<Longrightarrow> careful P 0 (change_host (remove_file path))"
  by (auto simp: careful_def seq_simps prog_simps shell_command_def push_file_def install_apk_def on_core_def
      split: option.splits prod.splits intro!: write_text_files remove_file_files)

lemma careful_if: "(c \<Longrightarrow> careful P n m) \<Longrightarrow> (\<not> c \<Longrightarrow> careful P n m') \<Longrightarrow> careful P n (if c then m else m')"
  by simp

lemma careful_sum: "(\<And>e. careful P n (f e)) \<Longrightarrow> (\<And>a. careful P n (g a)) \<Longrightarrow> careful P n (case r of Inl e \<Rightarrow> f e | Inr a \<Rightarrow> g a)"
  by (cases r) simp_all

lemma careful_attempt: "careful P n m \<Longrightarrow> careful P n (attempt m)"
  by (auto simp: careful_def attempt_def split: option.splits prod.splits)

lemma careful_with_host: "(\<And>h. careful P n (f h)) \<Longrightarrow> careful P n (with_host f)"
  unfolding careful_def with_host_def by blast

text \<open>Without pauses.\<close>

lemma careful_bind0: "careful P 0 m \<Longrightarrow> (\<And>a. careful P 0 (f a)) \<Longrightarrow> careful P 0 (bind_io m f)"
  using careful_bind [of P 0 m 0 f] by simp

lemma careful_disregard: "careful P 0 m \<Longrightarrow> careful P 0 (disregard m)"
  unfolding disregard_def by (intro careful_bind0 careful_attempt careful_basic)

lemma careful_in_order: "(\<And>m. m \<in> set ms \<Longrightarrow> careful P 0 m) \<Longrightarrow> careful P 0 (in_order ms)"
  by (induction ms) (auto intro: careful_bind0 careful_basic)

lemmas careful_intros = careful_bind0 careful_in_order careful_disregard careful_attempt careful_if careful_sum
  careful_with_host careful_basic

text \<open>A pull writes to its target only, in both forms and however it ends.\<close>

definition spares :: "string \<Rightarrow> ('s \<times> Host, 'a) io \<Rightarrow> bool" where
  "spares path m \<longleftrightarrow> (\<forall>X r X'. m X = Some (r, X') \<longrightarrow> (\<forall>x. x \<noteq> path \<longrightarrow> files (snd X') x = files (snd X) x))"

lemma sparesI: "(\<And>X r X' x. m X = Some (r, X') \<Longrightarrow> x \<noteq> path \<Longrightarrow> files (snd X') x = files (snd X) x) \<Longrightarrow> spares path m"
  unfolding spares_def by blast

lemma spares_bind: "spares path m \<Longrightarrow> (\<And>a. spares path (f a)) \<Longrightarrow> spares path (bind_io m f)"
  by (rule sparesI, erule bind_io_SomeE) (auto simp: spares_def)

lemma spares_basic:
  "spares path (on_stream m)" "spares path (ok_io a)" "spares path (fail_io e)" "spares path (write_output path bs)"
  "spares path (create_output path)"
  by (rule sparesI; auto simp: on_stream_def seq_simps create_output_def split: prod.splits
      dest: write_output_other out_open_others)+

lemma spares_decode: "spares path (decode_output b L path chunk cd)"
proof (rule sparesI)
  fix X r X' x
  assume "decode_output b L path chunk cd X = Some (r, X')" "x \<noteq> path"
  then show "files (snd X') x = files (snd X) x"
    by (auto simp: decode_output_def bind_io_def ok_io_def split: option.splits prod.splits sum.splits
        dest: write_output_other)
qed

lemma spares_if: "(c \<Longrightarrow> spares path m) \<Longrightarrow> (\<not> c \<Longrightarrow> spares path m') \<Longrightarrow> spares path (if c then m else m')"
  by simp

lemmas spares_intros = spares_bind spares_basic spares_decode spares_if

lemma spares_bindD:
  assumes "spares path m" "\<And>a. spares path (f a)" "bind_io m f X = Some y" "x \<noteq> path"
  shows "files (snd (snd y)) x = files (snd X) x"
proof -
  have "\<forall>X r X'. bind_io m f X = Some (r, X') \<longrightarrow> (\<forall>x. x \<noteq> path \<longrightarrow> files (snd X') x = files (snd X) x)"
    using spares_bind [OF assms(1,2)] unfolding spares_def .
  from this [rule_format, of X "fst y" "snd y" x] assms(3,4) show ?thesis by simp
qed

lemma spares_pull: "spares path (pull_from T path)"
proof (rule sparesI)
  fix X r X' x
  assume run: "pull_from T path X = Some (r, X')" and x: "x \<noteq> path"
  have "files (snd (snd (r, X'))) x = files (snd X) x"
  proof (rule pull_from.raw_induct
      [where P = "\<lambda>T path X y. \<forall>x. x \<noteq> path \<longrightarrow> files (snd (snd y)) x = files (snd X) x", rule_format, OF _ run x], goal_cases)
    case (1 f T path X y x)
    have f: "spares path (f T path)" by (rule sparesI) (use 1(1) in fastforce)
    show ?case
      by (rule spares_bindD [OF _ _ 1(2) [unfolded Let_def] 1(3)]) (intro spares_intros f)+
  qed
  then show "files (snd X') x = files (snd X) x" by simp
qed

lemma spares_pull_v2: "spares path (pull_v2_from b L T path cd)"
proof (rule sparesI)
  fix X r X' x
  assume run: "pull_v2_from b L T path cd X = Some (r, X')" and x: "x \<noteq> path"
  have "files (snd (snd (r, X'))) x = files (snd X) x"
  proof (rule pull_v2_from.raw_induct
      [where P = "\<lambda>b L T path cd X y. \<forall>x. x \<noteq> path \<longrightarrow> files (snd (snd y)) x = files (snd X) x", rule_format, OF _ run x], goal_cases)
    case (1 f b L T path cd X y x)
    have f: "spares path (f b L T path cd')" for cd' by (rule sparesI) (use 1(1) in fastforce)
    show ?case
      by (rule spares_bindD [OF _ _ 1(2) [unfolded Let_def] 1(3)]) (intro spares_intros f)+
  qed
  then show "files (snd X') x = files (snd X) x" by simp
qed

lemma sync_pull_spares:
  assumes "sync_pull b L T remote path compression (c, h) = Some (r, (c', h'))" "x \<noteq> path"
  shows "files h' x = files h x"
proof -
  have body: "spares path (pull_body T remote path)" "spares path (pull_v2_body b L T remote path codec)" for codec
    unfolding pull_body_def pull_v2_body_def by (intro spares_intros spares_pull spares_pull_v2)+
  have "files h' x = files h x" if "with_stream_on T ''sync:'' m (c, h) = Some (r, (c', h'))" "spares path m" for m
    using that assms(2) by (auto simp: with_stream_on_def with_stream_def spares_def split: option.splits prod.splits sum.splits)
  with body assms(1) show ?thesis
    by (auto simp: sync_pull_def pull_v2_def fail_io_def split: if_splits option.splits sum.splits)
qed

lemma careful_pull: "path \<in> P \<Longrightarrow> careful P 0 (pull_file b L T remote path compression)"
  by (auto simp: careful_def pull_file_def on_core_and_host_def split: option.splits prod.splits dest: sync_pull_spares)

section \<open>The tour\<close>

lemma careful_send_keys: "careful P (1000 * int (length keys)) (send_keys T keys)"
proof (induction keys)
  case (Cons key keys)
  have "careful P (0 + (1000 + 1000 * int (length keys))) (send_keys T (key # keys))"
    unfolding send_keys.simps by (intro careful_bind Cons careful_basic) simp_all
  then show ?case by (simp add: algebra_simps)
qed (simp add: careful_basic)

lemma careful_steps:
  assumes "list_all2 (careful P) ns ms" "\<forall>n \<in> set ns. 0 \<le> n"
  shows "careful P (sum_list ns) (in_order ms)"
  using assms by (induction rule: list_all2_induct) (auto intro!: careful_bind careful_basic sum_list_nonneg)

lemma careful_heading: "careful P 0 (heading what)"
  by (simp add: heading_def careful_basic)

lemma careful_set_power: "careful P (1000 * int (length keys)) (set_power T action keys)"
proof -
  have "careful P (sum_list [0, 1000 * int (length keys), 0]) (set_power T action keys)"
    unfolding set_power_def
    by (rule careful_steps) (auto intro!: careful_send_keys careful_heading careful_bind0 careful_sum careful_if careful_attempt careful_basic)
  then show ?thesis by simp
qed

lemma careful_write_apks: "careful P 0 (write_apks b L T session apks)"
  by (induction apks) (auto intro!: careful_intros)

lemma careful_install_app: "careful P 0 (install_app b L T apks)"
  unfolding install_app_def by (intro careful_intros careful_write_apks)

lemma careful_launch_attempts: "careful P (500 * int n) (launch_attempts T package n launched)"
proof (induction n arbitrary: launched)
  case (Suc n)
  have "careful P (0 + (500 + 500 * int n)) (launch_attempts T package (Suc n) launched)"
    unfolding launch_attempts.simps
    by (intro careful_bind careful_attempt careful_if Suc careful_basic careful_mono [OF careful_basic(1)]) simp_all
  then show ?case by (simp add: algebra_simps)
qed (simp add: careful_basic)

lemma careful_watch_app: "careful P (1000 * int n) (watch_app T package second n)"
proof (induction n arbitrary: second)
  case (Suc n)
  have "careful P (1000 + (0 + (0 + 1000 * int n))) (watch_app T package second (Suc n))"
    unfolding watch_app.simps
    by (intro careful_bind careful_if Suc careful_basic careful_mono [OF careful_basic(1)]) simp_all
  then show ?case by (simp add: algebra_simps)
qed (simp add: careful_basic)

lemma careful_expect: "careful P 0 (expect_success r)"
  unfolding expect_success_def by (intro careful_intros)

lemma careful_tour_steps:
  "careful P 0 (tour_shell T)" "careful P 0 (tour_list T)" "careful P 0 (tour_install b L T package apks)"
  "careful P 0 (tour_close T package)" "careful P 0 (tour_uninstall T package)" "careful P 0 (close_connection T)"
  unfolding tour_shell_def tour_list_def tour_install_def remove_installed_def tour_close_def tour_uninstall_def close_connection_def
  by (auto intro!: careful_intros careful_heading careful_expect careful_install_app)

lemma careful_round_trip: "local \<in> P \<Longrightarrow> pulled \<in> P \<Longrightarrow> careful P 0 (file_round_trip b L T text local remote pulled)"
  unfolding file_round_trip_def Let_def by (auto intro!: careful_intros careful_heading careful_pull)

lemma careful_tour_launch: "careful P 5000 (tour_launch T package)"
proof -
  have "careful P (0 + (500 * int 10 + 0)) (tour_launch T package)"
    unfolding tour_launch_def
    by (intro careful_bind careful_heading careful_launch_attempts careful_sum careful_expect careful_basic) simp_all
  then show ?thesis by simp
qed

lemma careful_tour_watch: "careful P 10000 (tour_watch T package)"
proof -
  have "careful P (sum_list [0, 1000 * int 10]) (tour_watch T package)"
    unfolding tour_watch_def by (rule careful_steps) (auto intro: careful_heading careful_watch_app [of P 10, simplified])
  then show ?thesis by simp
qed

definition tour_paths :: "string \<Rightarrow> nat \<Rightarrow> string set" where
  "tour_paths tmp index =
     {path_append tmp (''adbcpp_demo_multi_push_'' @ to_string index @ ''.txt''),
      path_append tmp (''adbcpp_demo_multi_pull_'' @ to_string index @ ''.txt'')}"

lemma careful_multi_tour: "careful (tour_paths tmp index) 18000 (multi_tour b L T tmp index package apks)"
proof -
  let ?P = "tour_paths tmp index"
  have "careful ?P (sum_list [0, 0, 0, 1000, 0, 2000, 5000, 10000, 0, 0, 0, 0]) (multi_tour b L T tmp index package apks)"
    unfolding multi_tour_def multi_files_def
    using careful_set_power [of ?P "[''223'']" T "''sleep the device''"] careful_set_power [of ?P "[''224'', ''82'']" T "''wake the device''"]
    by (intro careful_steps)
      (auto intro!: careful_tour_steps careful_round_trip careful_tour_launch careful_tour_watch careful_basic simp: tour_paths_def)
  then show ?thesis by simp
qed

text \<open>The calls of the tour come back, before the connection is closed.\<close>

lemma in_order_append: "in_order (xs @ ys) = bind_io (in_order xs) (\<lambda>_. in_order ys)"
proof (induction xs)
  case (Cons m xs)
  show ?case
  proof
    fix s
    show "in_order ((m # xs) @ ys) s = bind_io (in_order (m # xs)) (\<lambda>_. in_order ys) s"
      using Cons by (auto simp: bind_io_def split: option.splits sum.splits)
  qed
qed (simp add: fun_eq_iff bind_io_def ok_io_def)

context byte_channel
begin

lemma comes_back_heading: "comes_back base ps_core ft (heading what)"
  unfolding heading_def by (rule comes_back_basic)

lemma comes_back_send_keys:
  "(\<And>key. key \<in> set keys \<Longrightarrow> length key < 100) \<Longrightarrow> comes_back base ps_core ft (send_keys T keys)"
proof (induction keys)
  case (Cons key keys)
  then have "length (''input keyevent '' @ key) < 2 ^ 31 - 20" by fastforce
  with Cons show ?case unfolding send_keys.simps by (intro comes_back_intros Cons) auto
qed (simp add: comes_back_basic)

lemma comes_back_set_power:
  assumes "\<And>key. key \<in> set keys \<Longrightarrow> length key < 100"
  shows "comes_back base ps_core ft (set_power T action keys)"
proof -
  have "length ''dumpsys power | grep mWakefulness'' < 2 ^ 31 - 20" by simp
  then show ?thesis
    unfolding set_power_def
    by (auto intro!: comes_back_intros comes_back_heading comes_back_send_keys [OF assms] split: sum.splits)
qed

lemma comes_back_round_trip:
  assumes "plain_transfers b ft" "length remote < 2 ^ 28"
  shows "comes_back base ps_core ft (file_round_trip b L T text local remote pulled)"
proof -
  have "length (''rm -f '' @ remote) < 2 ^ 31 - 20" using assms(2) by simp
  with assms(1) show ?thesis
    unfolding file_round_trip_def Let_def
    by (auto intro!: comes_back_intros comes_back_heading simp del: length_append)
qed

lemma comes_back_expect: "comes_back base conn ft (expect_success r)"
  unfolding expect_success_def by (intro comes_back_intros)

lemma comes_back_launch_attempts:
  "length package < 2 ^ 28 \<Longrightarrow> comes_back base ps_core ft (launch_attempts T package n launched)"
  by (induction n arbitrary: launched) (auto intro!: comes_back_intros comes_back_app simp del: on_core_def)

lemma comes_back_watch_app:
  "length package < 2 ^ 28 \<Longrightarrow> comes_back base ps_core ft (watch_app T package second n)"
  by (induction n arbitrary: second) (auto intro!: comes_back_bind asks_if comes_back_basic comes_back_app)

lemma comes_back_multi_tour:
  assumes "plain_transfers b ft" "length package < 2 ^ 28" "length apk < 2 ^ 28"
  shows "comes_back base ps_core ft (in_order
      [tour_shell T, tour_list T, multi_files b L T tmp index, set_power T ''sleep the device'' [''223''],
       tour_install b L T package [apk], set_power T ''wake the device'' [''224'', ''82''],
       tour_launch T package, tour_watch T package, tour_close T package, tour_uninstall T package])"
proof -
  have cmds: "length ''echo hello'' < 2 ^ 31 - 20" "length (''pm path '' @ package) < 2 ^ 31 - 20"
    using assms(2) by simp_all
  note app = comes_back_app [OF assms(2)]
  have "comes_back base ps_core ft (tour_shell T)" "comes_back base ps_core ft (tour_list T)"
    unfolding tour_shell_def tour_list_def by (intro comes_back_intros comes_back_heading cmds)+
  moreover have "comes_back base ps_core ft (multi_files b L T tmp index)"
    unfolding multi_files_def by (rule comes_back_round_trip [OF assms(1)]) simp
  moreover have "comes_back base ps_core ft (tour_install b L T package [apk])"
    unfolding tour_install_def remove_installed_def install_app_def
    by (auto intro!: comes_back_intros comes_back_heading comes_back_expect comes_back_install app cmds(2) [simplified] assms(3) [simplified])
  moreover have "comes_back base ps_core ft (tour_launch T package)"
    unfolding tour_launch_def
    by (intro comes_back_bind comes_back_heading comes_back_launch_attempts comes_back_sum comes_back_expect comes_back_basic assms(2))
  moreover have "comes_back base ps_core ft (tour_watch T package)"
    unfolding tour_watch_def
    by (rule comes_back_in_order) (use comes_back_heading comes_back_watch_app [OF assms(2)] in auto)
  moreover have "comes_back base ps_core ft (tour_close T package)" "comes_back base ps_core ft (tour_uninstall T package)"
    unfolding tour_close_def tour_uninstall_def
    by (auto intro!: comes_back_in_order comes_back_bind comes_back_heading comes_back_expect app comes_back_basic)
  moreover have "comes_back base ps_core ft (set_power T action keys)" if "keys \<in> {[''223''], [''224'', ''82'']}" for action keys
    by (rule comes_back_set_power) (use that in auto)
  ultimately show ?thesis by (intro comes_back_in_order) auto
qed

end

lemma to_string_not_Nil [simp]: "to_string n \<noteq> []"
  by (subst to_string.simps) simp

lemma to_string_digits:
  "n < 10 \<Longrightarrow> to_string n = [char_of (48 + n)]"
  "\<not> n < 10 \<Longrightarrow> to_string n = to_string (n div 10) @ [char_of (48 + n mod 10)]"
  by (subst to_string.simps, simp)+

lemma to_string_inject: "to_string m = to_string n \<Longrightarrow> m = n"
proof (induction m arbitrary: n rule: to_string.induct)
  case (1 m)
  have char: "a = b" if "(char_of (48 + a) :: char) = char_of (48 + b)" "a < 10" "b < 10" for a b :: nat
  proof -
    have "of_char (char_of (48 + a) :: char) = (of_char (char_of (48 + b) :: char) :: nat)" using that(1) by simp
    then show ?thesis using that(2,3) by simp
  qed
  consider (small) "m < 10" "n < 10" | (one) "m < 10" "\<not> n < 10" | (other) "\<not> m < 10" "n < 10" | (large) "\<not> m < 10" "\<not> n < 10"
    by blast
  then show ?case
  proof cases
    case small
    then have "(char_of (48 + m) :: char) = char_of (48 + n)"
      using 1(2) unfolding to_string_digits(1) [OF small(1)] to_string_digits(1) [OF small(2)] by blast
    then show ?thesis using char small by blast
  next
    case one
    then have "[char_of (48 + m)] = to_string (n div 10) @ [char_of (48 + n mod 10)]"
      using 1(2) unfolding to_string_digits(1) [OF one(1)] to_string_digits(2) [OF one(2)] by blast
    then show ?thesis using to_string_not_Nil [of "n div 10"] by (cases "to_string (n div 10)") simp_all
  next
    case other
    then have "to_string (m div 10) @ [char_of (48 + m mod 10)] = [char_of (48 + n)]"
      using 1(2) unfolding to_string_digits(2) [OF other(1)] to_string_digits(1) [OF other(2)] by blast
    then show ?thesis using to_string_not_Nil [of "m div 10"] by (cases "to_string (m div 10)") simp_all
  next
    case large
    then have "to_string (m div 10) @ [char_of (48 + m mod 10)] = to_string (n div 10) @ [char_of (48 + n mod 10)]"
      using 1(2) unfolding to_string_digits(2) [OF large(1)] to_string_digits(2) [OF large(2)] by blast
    then have "to_string (m div 10) = to_string (n div 10)" "(char_of (48 + m mod 10) :: char) = char_of (48 + n mod 10)"
      by simp_all
    then have "m div 10 = n div 10" "m mod 10 = n mod 10"
      using 1(1) large(1) char [of "m mod 10" "n mod 10"] by auto
    then show ?thesis by (metis div_mult_mod_eq)
  qed
qed

lemma path_append_inject: "path_append p q = path_append p q' \<longleftrightarrow> q = q'"
  by (simp add: path_append_def)

lemma tour_paths_disjoint: "i \<noteq> j \<Longrightarrow> tour_paths tmp i \<inter> tour_paths tmp j = {}"
  using to_string_inject by (auto simp: tour_paths_def path_append_inject)

section \<open>Properties\<close>


text \<open>The device creates session 7 on stream 2, and says nothing more.\<close>

definition created_frames :: "Frame list" where
  "created_frames = [device_frame kOkay 2 [], device_frame kWrte 2 (bytes_of_string ''[7]''), device_frame kClse 2 []]"

lemma created_frames_valid: "list_all valid_frame created_frames"
  by (simp add: created_frames_def)


text \<open>
  An APK whose push fails leaves the session open on the device: nothing follows the \<open>install-create\<close>.
\<close>

lemma failed_push_leaves_session:
  fixes p :: "'t Connection Process"
  assumes "byte_channel T good pending sent" "conn_stage good pending sent base (ps_core p) fs []"
    and "open_reply (next_local_id (ps_core p)) fs = (Inr rid, gs)" "stream_end (next_local_id (ps_core p)) gs = Closed"
    and "session_of (command_result (uses_v2 ShellAuto (ps_core p)) (stream_data (next_local_id (ps_core p)) gs)) = Inr session"
    and "\<not> is_regular_file (ps_host p) apk" "apks \<noteq> []"
  shows "\<exists>p'. install_app b L T (apk # apks) p = Some (Inl (mk_error InvalidArgument ''the local file is not a regular file''), p')
    \<and> spoken good pending sent base [] (ps_core p') [command_frame (ps_core p) ''pm install-create'']"
proof -
  have "length ''pm install-create'' < 2 ^ 31 - 20" by simp
  from byte_channel.command_spec [OF assms(1) spoken_start_Nil [OF assms(2)] this assms(3) unaddressed_Nil(2) assms(4)]
  obtain s where s: "shell_run T ''pm install-create'' ShellAuto (ps_core p) =
      Some (Inr (command_result (uses_v2 ShellAuto (ps_core p)) (stream_data (next_local_id (ps_core p)) gs)),
        next_connection (ps_core p) s)"
    "spoken good pending sent base [] (next_connection (ps_core p) s) [command_frame (ps_core p) ''pm install-create'']"
    by auto
  let ?p = "p\<lparr>ps_core := next_connection (ps_core p) s\<rparr>"
  have "shell_command T ''pm install-create'' p =
      Some (Inr (command_result (uses_v2 ShellAuto (ps_core p)) (stream_data (next_local_id (ps_core p)) gs)), ?p)"
    using s(1) by (simp add: shell_command_def prog_simps)
  moreover have "push_file b L T apk (''/data/local/tmp/'' @ filename apk) CompressAuto ?p =
      Some (Inl (mk_error InvalidArgument ''the local file is not a regular file''), ?p)"
    using assms(6) by (simp add: push_file_def with_host_def on_core_def sync_push_def fail_io_def)
  ultimately have "install_app b L T (apk # apks) p =
      Some (Inl (mk_error InvalidArgument ''the local file is not a regular file''), ?p)"
    using assms(5,7) by (simp add: install_app_def bind_io_def)
  with s(2) show ?thesis by (intro exI [of _ ?p]) simp
qed



end
