(* ===== verification/Adb_Tools.thy ===== *)
theory Adb_Tools
  imports Adb_Tour Adb_Tcp
begin

text \<open>
  The command-line program \<open>examples/usb/main.cpp\<close>, the program \<open>examples/tcp/main.cpp\<close>, and
  \<open>examples/multi/main.cpp\<close>, which drives two devices.
\<close>

section \<open>Options of the USB program\<close>

text \<open>\<open>std::stoul(text)\<close>: \<open>None\<close> when it throws.\<close>

fun dec_digits :: "string \<Rightarrow> nat list" where
  "dec_digits [] = []"
| "dec_digits (c # cs) =
     (if 48 \<le> (of_char c :: nat) \<and> of_char c \<le> (57 :: nat) then (of_char c - 48) # dec_digits cs else [])"

definition stoul_10 :: "string \<Rightarrow> nat option" where
  "stoul_10 text =
     (let s = dropWhile is_space text;
          negative = (s \<noteq> [] \<and> hd s = CHR ''-'');
          s = (if s \<noteq> [] \<and> (hd s = CHR ''-'' \<or> hd s = CHR ''+'') then tl s else s);
          ds = dec_digits s;
          v = foldl (\<lambda>acc d. 10 * acc + d) 0 ds in
      if ds = [] \<or> 2 ^ 64 \<le> v then None
      else Some (if negative then (2 ^ 64 - v) mod 2 ^ 64 else v))"

record UsbArgs =
  ua_timeout :: u32
  ua_budget :: u32
  ua_id :: DeviceId
  ua_compression :: SyncCompression
  ua_args :: "string list"

definition usb_defaults :: UsbArgs where
  "usb_defaults =
     \<lparr>ua_timeout = 5000, ua_budget = 120000,
      ua_id = \<lparr>vendor_id = 0x22D9, product_id = 0x2769, id_serial = []\<rparr>,
      ua_compression = CompressAuto, ua_args = []\<rparr>"

definition compression_of :: "string \<Rightarrow> SyncCompression option" where
  "compression_of value =
     (if value = ''auto'' then Some CompressAuto
      else if value = ''none'' then Some CompressNone
      else if value = ''zstd'' then Some CompressZstd
      else if value = ''lz4'' then Some CompressLz4
      else if value = ''brotli'' then Some CompressBrotli
      else None)"

text \<open>
  The loop over the arguments: an error that is printed, an exception of \<open>std::stoul\<close>, which nothing
  catches, or the settings.
\<close>

datatype options = Rejected string | Thrown | Accepted UsbArgs

fun usb_args :: "string list \<Rightarrow> UsbArgs \<Rightarrow> options" where
  "usb_args [] a = Accepted a"
| "usb_args [arg] a = Accepted (a\<lparr>ua_args := ua_args a @ [arg]\<rparr>)"
| "usb_args (arg # value # args) a =
     (if arg = ''--timeout'' then
        (case stoul_10 value of None \<Rightarrow> Thrown | Some n \<Rightarrow> usb_args args (a\<lparr>ua_timeout := of_nat n\<rparr>))
      else if arg = ''--budget'' then
        (case stoul_10 value of None \<Rightarrow> Thrown | Some n \<Rightarrow> usb_args args (a\<lparr>ua_budget := of_nat n\<rparr>))
      else if arg = ''--device'' then
        (case device_id_parse value of Inl e \<Rightarrow> Rejected (err_message e) | Inr i \<Rightarrow> usb_args args (a\<lparr>ua_id := i\<rparr>))
      else if arg = ''--serial'' then
        usb_args args (a\<lparr>ua_id := \<lparr>vendor_id = 0, product_id = 0, id_serial = value\<rparr>\<rparr>)
      else if arg = ''--compression'' then
        (case compression_of value of
           None \<Rightarrow> Rejected (''unknown compression: '' @ value)
         | Some c \<Rightarrow> usb_args args (a\<lparr>ua_compression := c\<rparr>))
      else usb_args (value # args) (a\<lparr>ua_args := ua_args a @ [arg]\<rparr>))"

section \<open>What the USB program does\<close>

text \<open>The statements at the end of every branch.\<close>

definition finish :: "'t Transport_ops \<Rightarrow> string \<Rightarrow> nat \<Rightarrow> ('t Connection Process, nat) io" where
  "finish T text status = bind_io (in_order [print text, close_connection T]) (\<lambda>_. ok_io status)"

definition entry_text :: "DirEntry \<Rightarrow> string" where
  "entry_text e =
     (if is_directory (de_mode e) then ''d'' else ''-'') @ '' '' @ to_string (unat (de_size e)) @ '' '' @ de_name e @ nl"

text \<open>The arguments that are left over, put together to one command.\<close>

definition command_of :: "string list \<Rightarrow> string" where
  "command_of args =
     (if args = [] then ''echo hello''
      else foldl (\<lambda>cmd arg. (if cmd \<noteq> [] then cmd @ '' '' else cmd) @ arg) [] args)"

definition package_status :: "CommandResult \<Rightarrow> nat" where
  "package_status r = (if success r then 0 else 1)"

definition usb_action ::
  "Build \<Rightarrow> 'd Codecs \<Rightarrow> 't Transport_ops \<Rightarrow> SyncCompression \<Rightarrow> string list \<Rightarrow> ('t Connection Process, nat) io" where
  "usb_action b L T compression args =
     (if 1 < length args \<and> args ! 0 = ''--list'' then
        bind_io (on_core (sync_list T (args ! 1))) (\<lambda>entries. finish T (concat (map entry_text entries)) 0)
      else if 2 < length args \<and> args ! 0 = ''--pull'' then
        bind_io (pull_file b L T (args ! 1) (args ! 2) compression)
          (\<lambda>_. finish T (''pulled '' @ args ! 1 @ '' to '' @ args ! 2 @ nl) 0)
      else if 2 < length args \<and> args ! 0 = ''--push'' then
        bind_io (push_file b L T (args ! 1) (args ! 2) compression)
          (\<lambda>_. finish T (''pushed '' @ args ! 1 @ '' to '' @ args ! 2 @ nl) 0)
      else if 1 < length args \<and> args ! 0 = ''--install'' then
        bind_io (install_apk b L T (args ! 1) (if 2 < length args then args ! 2 else []))
          (\<lambda>r. finish T (cmd_output r) (package_status r))
      else if 1 < length args \<and> args ! 0 = ''--uninstall'' then
        bind_io (on_core (uninstall T (args ! 1) False)) (\<lambda>r. finish T (cmd_output r) (package_status r))
      else if 1 < length args \<and> args ! 0 = ''--launch'' then
        bind_io (on_core (launch T (args ! 1))) (\<lambda>r. finish T (cmd_output r) (package_status r))
      else if 1 < length args \<and> args ! 0 = ''--close'' then
        bind_io (on_core (app_close T (args ! 1))) (\<lambda>_. finish T (''stopped '' @ args ! 1 @ nl) 0)
      else if 1 < length args \<and> args ! 0 = ''--running'' then
        bind_io (on_core (is_running T (args ! 1)))
          (\<lambda>running. finish T (args ! 1 @ (if running then '' is running'' else '' is not running'') @ nl) 0)
      else
        bind_io (shell_command T (command_of args)) (\<lambda>r. finish T (cmd_output r) (unat (exit_code r))))"

definition absent_text :: "DeviceId \<Rightarrow> string" where
  "absent_text i =
     ''warning: no USB device ''
       @ (if id_serial i \<noteq> [] then ''with serial '' @ id_serial i
          else to_hex (unat (vendor_id i)) @ '':'' @ to_hex (unat (product_id i)))
       @ '' found; skipping'' @ nl"

definition usb_open_device ::
  "Build \<Rightarrow> ('o, 'd) Libusb \<Rightarrow> ('m, 'k, 'w) Mbedtls \<Rightarrow> Account \<Rightarrow> UsbArgs \<Rightarrow> (('o, 'w) host_process, 'o usb Connection) io" where
  "usb_open_device b U M A a =
     bind_io (load_key M A)
       (\<lambda>key. case fingerprint M key of
          Inl e \<Rightarrow> fail_io e
        | Inr text \<Rightarrow>
            bind_io (print_error (''key fingerprint: '' @ text @ nl
                @ ''connecting; approve the USB debugging prompt on the device if it appears'' @ nl))
              (\<lambda>_. bind_io (usb_connect b U M (ua_id a) (ua_timeout a) (ua_budget a) key)
                (\<lambda>c. bind_io (in_order
                    [if requested_authorization c
                     then print_error (''the device rejected the signature and requested authorization'' @ nl) else ok_io (),
                     print (connected_text (usb_ops U) c)])
                  (\<lambda>_. ok_io c))))"

definition usb_session ::
  "Build \<Rightarrow> 'e Codecs \<Rightarrow> ('o, 'd) Libusb \<Rightarrow> ('m, 'k, 'w) Mbedtls \<Rightarrow> Account \<Rightarrow> UsbArgs \<Rightarrow> (('o, 'w) host_process, nat) io" where
  "usb_session b L U M A a =
     bind_io (on_usb (is_present U (ua_id a)))
       (\<lambda>present.
         if \<not> present then bind_io (print_error (absent_text (ua_id a))) (\<lambda>_. ok_io 0)
         else bind_io (usb_open_device b U M A a)
           (on_device (usb_destroy U) False (usb_action b L (usb_ops U) (ua_compression a) (ua_args a))))"

text \<open>How a program ends; an exception that nothing catches aborts it.\<close>

datatype ended = Exited nat | Aborted

definition usb_main ::
  "Build \<Rightarrow> 'e Codecs \<Rightarrow> ('o, 'd) Libusb \<Rightarrow> ('m, 'k, 'w) Mbedtls \<Rightarrow> Account \<Rightarrow> string list
     \<Rightarrow> ('o, 'w) host_process \<Rightarrow> (ended \<times> ('o, 'w) host_process) option" where
  "usb_main b L U M A argv p =
     (case usb_args argv usb_defaults of
        Thrown \<Rightarrow> Some (Aborted, p)
      | Rejected text \<Rightarrow> Some (Exited 1, p\<lparr>ps_err := ps_err p @ ''error: '' @ text @ nl\<rparr>)
      | Accepted a \<Rightarrow> map_option (\<lambda>(status, p'). (Exited status, p')) (run_main (usb_session b L U M A a) p))"

section \<open>The TCP program\<close>

text \<open>The difference it reports is an error of its own, with nothing but a text.\<close>

definition tcp_session ::
  "Build \<Rightarrow> 'd Codecs \<Rightarrow> 't Transport_ops \<Rightarrow> string \<Rightarrow> ('t Connection Process, unit) io" where
  "tcp_session b L T tmp =
     (let local = path_append tmp ''adbcpp_tcp_example.txt''; remote = ''/data/local/tmp/adbcpp_tcp_example.txt'';
          pulled = path_append tmp ''adbcpp_tcp_back.txt'' in
      bind_io (shell_command T ''echo hello'')
        (\<lambda>hello. bind_io (in_order
            [print (cmd_output hello), change_host (write_text local (''adbcpp tcp test'' @ nl)),
             push_file b L T local remote CompressAuto, change_host (remove_file local),
             pull_file b L T remote pulled CompressAuto])
          (\<lambda>_. with_host (\<lambda>h. let contents = read_text pulled h in
            in_order
              [change_host (remove_file pulled), disregard (shell_command T (''rm -f '' @ remote)),
               if contents \<noteq> ''adbcpp tcp test'' @ nl then fail_io (mk_error Protocol ''the round-tripped file differs'')
               else ok_io (),
               print (''round-tripped a file over TCP'' @ nl), close_connection T]))))"

text \<open>The transport lives from here to the end of the program, and is destroyed on every way out.\<close>

definition tcp_connected ::
  "Build \<Rightarrow> 'd Codecs \<Rightarrow> ('o, 'a) Sockets \<Rightarrow> ('m, 'k, 'w) Mbedtls \<Rightarrow> string \<Rightarrow> TcpTransport \<Rightarrow> 'k Key
     \<Rightarrow> (('o, 'w) host_process, nat) io" where
  "tcp_connected b L N M tmp t key p =
     (case connect b (tcp_ops N) (t, fst (ps_core p)) (bytes_of_string (key_public key))
         (Some (\<lambda>token. fst (key_sign M key token (snd (ps_core p))))) False of
        (Inl e, c) \<Rightarrow> Some (Inl e, set_usb (tcp_destroy N (sess_transport (conn_session c))) p)
      | (Inr _, c) \<Rightarrow>
          bind_io (print (''connected to a device running protocol 0x'' @ to_hex (unat (device_version c)) @ nl))
            (\<lambda>_. on_device (tcp_destroy N) True (bind_io (tcp_session b L (tcp_ops N) tmp) (\<lambda>_. ok_io 0)) c) p)"

definition tcp_main ::
  "Build \<Rightarrow> 'd Codecs \<Rightarrow> ('o, 'a) Sockets \<Rightarrow> ('m, 'k, 'w) Mbedtls \<Rightarrow> Account \<Rightarrow> string \<Rightarrow> string list
     \<Rightarrow> ('o, 'w) host_process \<Rightarrow> (nat \<times> ('o, 'w) host_process) option" where
  "tcp_main b L N M A tmp argv =
     run_main
       (bind_io (on_usb (tcp_open N (if argv \<noteq> [] then hd argv else ''localhost:5555'')
            kDefaultConnectTimeoutMs kDefaultTransferTimeoutMs kDefaultTransferBudgetMs))
         (\<lambda>t p. case load_key M A p of
            None \<Rightarrow> None
          | Some (Inl e, p1) \<Rightarrow> Some (Inl e, set_usb (tcp_destroy N (t, fst (ps_core p1))) p1)
          | Some (Inr key, p1) \<Rightarrow> tcp_connected b L N M tmp t key p1))"

section \<open>Two devices (examples/multi)\<close>

definition drive_device ::
  "Build \<Rightarrow> 'd Codecs \<Rightarrow> 't Transport_ops \<Rightarrow> string \<Rightarrow> nat \<Rightarrow> ('t Connection Process, string) io" where
  "drive_device b L T tmp index p =
     (let tag = to_string index;
          local = path_append tmp (''adbcpp_multi_'' @ tag @ ''.txt'');
          remote = ''/data/local/tmp/adbcpp_multi_'' @ tag @ ''.txt'';
          pulled = path_append tmp (''adbcpp_multi_back_'' @ tag @ ''.txt'');
          c = ps_core p;
          log = ''device '' @ tag @ '' connected to protocol 0x'' @ to_string (unat (device_version c))
            @ (if device_serial T c \<noteq> [] then '' with serial '' @ device_serial T c else []) @ nl in
      bind_io (shell_command T ''echo hello'')
        (\<lambda>hello. bind_io (in_order
            [change_host (write_text local (''adbcpp multi test'' @ nl)), push_file b L T local remote CompressAuto,
             change_host (remove_file local), pull_file b L T remote pulled CompressAuto])
          (\<lambda>_. with_host (\<lambda>h. let contents = read_text pulled h in
            bind_io (in_order
              [change_host (remove_file pulled), disregard (shell_command T (''rm -f '' @ remote)),
               if contents \<noteq> ''adbcpp multi test'' @ nl
               then fail_io (mk_error Protocol (''device '' @ tag @ '' returned different bytes'')) else ok_io (),
               close_connection T])
            (\<lambda>_. ok_io (log @ ''device '' @ tag @ '' says: '' @ cmd_output hello
               @ ''device '' @ tag @ '' round-tripped a file'' @ nl))))) p)"

definition drive ::
  "Build \<Rightarrow> 'e Codecs \<Rightarrow> ('o, 'd) Libusb \<Rightarrow> ('m, 'k, 'w) Mbedtls \<Rightarrow> Account \<Rightarrow> string \<Rightarrow> DeviceId \<Rightarrow> nat
     \<Rightarrow> (('o, 'w) host_process, string) io" where
  "drive b L U M A tmp i index =
     bind_io (load_key M A)
       (\<lambda>key. bind_io (usb_connect b U M i 5000 120000 key)
         (on_device (usb_destroy U) True (drive_device b L (usb_ops U) tmp index)))"

fun parse_devices :: "string list \<Rightarrow> DeviceId list Result" where
  "parse_devices [] = Inr []"
| "parse_devices (arg # args) =
     bind_result (device_id_parse arg) (\<lambda>i. bind_result (parse_devices args) (\<lambda>is. Inr (i # is)))"

definition run_both ::
  "(DeviceId \<Rightarrow> nat \<Rightarrow> ('p Process, string) io) \<Rightarrow> DeviceId list \<Rightarrow> ('p Process, unit) io" where
  "run_both driver devices =
     (let log = (\<lambda>r. case r of Inl e \<Rightarrow> ''error: '' @ err_message e @ nl | Inr text \<Rightarrow> text) in
      bind_io (attempt (driver (devices ! 0) 0))
        (\<lambda>r0. bind_io (attempt (driver (devices ! 1) 1)) (\<lambda>r1. print (log r0 @ log r1))))"

definition multi_devices :: "('o, 'd) Libusb \<Rightarrow> string list \<Rightarrow> (('o, 'w) host_process, DeviceId list option) io" where
  "multi_devices U argv =
     (case parse_devices argv of
        Inl e \<Rightarrow> fail_io e
      | Inr devices \<Rightarrow>
          if devices = [] then
            bind_io (on_usb (usb_list U))
              (\<lambda>attached.
                if length attached < 2 then
                  bind_io (print_error (''warning: two ADB devices are needed, but '' @ to_string (length attached)
                      @ '' is attached; skipping'' @ nl))
                    (\<lambda>_. ok_io None)
                else ok_io (Some (take 2 attached)))
          else ok_io (Some (devices @ replicate (2 - length devices) (hd devices))))"

definition multi_main ::
  "Build \<Rightarrow> 'e Codecs \<Rightarrow> ('o, 'd) Libusb \<Rightarrow> ('m, 'k, 'w) Mbedtls \<Rightarrow> Account \<Rightarrow> string \<Rightarrow> string list
     \<Rightarrow> ('o, 'w) host_process \<Rightarrow> (nat \<times> ('o, 'w) host_process) option" where
  "multi_main b L U M A tmp argv =
     run_main
       (bind_io (multi_devices U argv)
         (\<lambda>devices. case devices of
            None \<Rightarrow> ok_io 0
          | Some ds \<Rightarrow> bind_io (run_both (drive b L U M A tmp) ds) (\<lambda>_. ok_io 0)))"

end
