(* ===== verification/Adb_Tools_Spec.thy ===== *)
theory Adb_Tools_Spec
  imports Adb_Tour_Spec Adb_Tools
begin

text \<open>
  The command-line programs: the options of the USB program are taken as they are spelled, wherever they stand,
  and what the programs do on a device ends with the session closed, whatever the device answers.
\<close>

section \<open>Decimal numbers are read back\<close>

lemma of_char_digit: "d < 10 \<Longrightarrow> of_char (char_of (48 + d) :: char) = (48 + d :: nat)"
  by simp

lemma to_string_set: "c \<in> set (to_string n) \<Longrightarrow> \<exists>d :: nat. d < 10 \<and> c = char_of (48 + d)"
proof (induction n rule: to_string.induct)
  case (1 n)
  show ?case
  proof (cases "n < 10")
    case True
    then show ?thesis using "1.prems" to_string_digits(1) [OF True] by auto
  next
    case False
    then show ?thesis using 1 to_string_digits(2) [OF False] by (auto intro: exI [of _ "n mod 10"])
  qed
qed

lemma dec_digits_append: "(\<forall>c \<in> set s. 48 \<le> (of_char c :: nat) \<and> of_char c \<le> (57 :: nat)) \<Longrightarrow>
    dec_digits (s @ t) = dec_digits s @ dec_digits t"
  by (induction s) auto

lemma to_string_value: "foldl (\<lambda>acc d. 10 * acc + d) 0 (dec_digits (to_string n)) = n"
proof (induction n rule: to_string.induct)
  case (1 n)
  show ?case
  proof (cases "n < 10")
    case True
    then show ?thesis unfolding to_string_digits(1) [OF True] by (simp add: of_char_digit)
  next
    case False
    have digits: "48 \<le> (of_char c :: nat) \<and> of_char c \<le> (57 :: nat)" if "c \<in> set (to_string (n div 10))" for c
      using to_string_set [OF that] by (auto simp: of_char_digit)
    have "dec_digits (to_string n) = dec_digits (to_string (n div 10)) @ [n mod 10]"
      unfolding to_string_digits(2) [OF False] by (subst dec_digits_append) (use digits in \<open>auto simp: of_char_digit\<close>)
    with 1 [OF False] show ?thesis by simp
  qed
qed

lemma stoul_10_to_string:
  assumes "n < 2 ^ 64"
  shows "stoul_10 (to_string n) = Some n"
proof -
  obtain c cs where c: "to_string n = c # cs" by (meson to_string_not_Nil list.exhaust)
  then obtain d :: nat where d: "d < 10" "c = char_of (48 + d)" using to_string_set [of c n] by auto
  then have "of_char c = (48 + d :: nat)" by simp
  then have first: "\<not> is_space c" "c \<noteq> CHR ''-''" "c \<noteq> CHR ''+''" using d(1) by (auto simp: is_space_def)
  then have "dropWhile is_space (to_string n) = to_string n" "hd (to_string n) \<noteq> CHR ''-''" "hd (to_string n) \<noteq> CHR ''+''"
    by (simp_all add: c)
  moreover have "dec_digits (to_string n) \<noteq> []" using d by (simp add: c)
  ultimately show ?thesis using assms to_string_value [of n] by (simp add: stoul_10_def Let_def)
qed

section \<open>Spelling the options\<close>

text \<open>What a user means, and how it is written on the command line.\<close>

datatype setting =
    Timeout nat
  | Budget nat
  | Product nat nat
  | Serial string
  | Codec SyncCompression
  | Word string

definition codec_name :: "SyncCompression \<Rightarrow> string" where
  "codec_name c =
     (case c of CompressAuto \<Rightarrow> ''auto'' | CompressNone \<Rightarrow> ''none'' | CompressZstd \<Rightarrow> ''zstd'' | CompressLz4 \<Rightarrow> ''lz4''
      | CompressBrotli \<Rightarrow> ''brotli'')"

fun spell :: "setting \<Rightarrow> string list" where
  "spell (Timeout n) = [''--timeout'', to_string n]"
| "spell (Budget n) = [''--budget'', to_string n]"
| "spell (Product v p) = [''--device'', hex_text v @ '':'' @ hex_text p]"
| "spell (Serial s) = [''--serial'', s]"
| "spell (Codec c) = [''--compression'', codec_name c]"
| "spell (Word w) = [w]"

definition option_names :: "string set" where
  "option_names = {''--timeout'', ''--budget'', ''--device'', ''--serial'', ''--compression''}"

fun proper :: "setting \<Rightarrow> bool" where
  "proper (Timeout n) = (n < 2 ^ 64)"
| "proper (Budget n) = (n < 2 ^ 64)"
| "proper (Product v p) = (v < 2 ^ 64 \<and> p < 2 ^ 64)"
| "proper (Word w) = (w \<notin> option_names)"
| "proper _ = True"

text \<open>The values given for one setting, in their order.\<close>

definition timeouts :: "setting list \<Rightarrow> u32 list" where
  "timeouts xs = List.map_filter (\<lambda>x. case x of Timeout n \<Rightarrow> Some (of_nat n) | _ \<Rightarrow> None) xs"

definition budgets :: "setting list \<Rightarrow> u32 list" where
  "budgets xs = List.map_filter (\<lambda>x. case x of Budget n \<Rightarrow> Some (of_nat n) | _ \<Rightarrow> None) xs"

definition selections :: "setting list \<Rightarrow> DeviceId list" where
  "selections xs = List.map_filter (\<lambda>x. case x of
       Product v p \<Rightarrow> Some \<lparr>vendor_id = of_nat v, product_id = of_nat p, id_serial = []\<rparr>
     | Serial s \<Rightarrow> Some \<lparr>vendor_id = 0, product_id = 0, id_serial = s\<rparr>
     | _ \<Rightarrow> None) xs"

definition codecs_named :: "setting list \<Rightarrow> SyncCompression list" where
  "codecs_named xs = List.map_filter (\<lambda>x. case x of Codec c \<Rightarrow> Some c | _ \<Rightarrow> None) xs"

definition words_left :: "setting list \<Rightarrow> string list" where
  "words_left xs = List.map_filter (\<lambda>x. case x of Word w \<Rightarrow> Some w | _ \<Rightarrow> None) xs"

lemma setting_lists [simp]:
  "timeouts [] = []" "budgets [] = []" "selections [] = []" "codecs_named [] = []" "words_left [] = []"
  "timeouts (x # xs) = (case x of Timeout n \<Rightarrow> [of_nat n] | _ \<Rightarrow> []) @ timeouts xs"
  "budgets (x # xs) = (case x of Budget n \<Rightarrow> [of_nat n] | _ \<Rightarrow> []) @ budgets xs"
  "selections (x # xs) = (case x of
       Product v p \<Rightarrow> [\<lparr>vendor_id = of_nat v, product_id = of_nat p, id_serial = []\<rparr>]
     | Serial s \<Rightarrow> [\<lparr>vendor_id = 0, product_id = 0, id_serial = s\<rparr>]
     | _ \<Rightarrow> []) @ selections xs"
  "codecs_named (x # xs) = (case x of Codec c \<Rightarrow> [c] | _ \<Rightarrow> []) @ codecs_named xs"
  "words_left (x # xs) = (case x of Word w \<Rightarrow> [w] | _ \<Rightarrow> []) @ words_left xs"
  by (simp_all add: timeouts_def budgets_def selections_def codecs_named_def words_left_def map_filter_simps split: setting.split)

lemma compression_of_name [simp]: "compression_of (codec_name c) = Some c"
  by (cases c) (simp_all add: compression_of_def codec_name_def)

lemma usb_args_word: "w \<notin> option_names \<Longrightarrow> usb_args (w # args) a = usb_args args (a\<lparr>ua_args := ua_args a @ [w]\<rparr>)"
  by (cases args) (simp_all add: option_names_def)

lemma device_spelled:
  "v < 2 ^ 64 \<Longrightarrow> p < 2 ^ 64 \<Longrightarrow> device_id_parse (hex_text v @ '':'' @ hex_text p) =
     Inr \<lparr>vendor_id = of_nat v, product_id = of_nat p, id_serial = []\<rparr>"
  by (rule device_id_round_trip [of v p "''a''" U ds i os d o1, THEN conjunct1]) simp_all

lemma usb_args_spelled:
  assumes "\<forall>x \<in> set xs. proper x"
  shows "usb_args (concat (map spell xs)) a = Accepted
    \<lparr>ua_timeout = last (ua_timeout a # timeouts xs), ua_budget = last (ua_budget a # budgets xs),
     ua_id = last (ua_id a # selections xs), ua_compression = last (ua_compression a # codecs_named xs),
     ua_args = ua_args a @ words_left xs\<rparr>"
  using assms
proof (induction xs arbitrary: a)
  case Nil
  then show ?case by (cases a) simp
next
  case (Cons x xs)
  then show ?case
    by (cases x) (simp_all add: stoul_10_to_string device_spelled [simplified] usb_args_word last_ConsR)
qed

section \<open>Programs that close their session\<close>

text \<open>
  \<open>closing base ft W m\<close>: on a connection in order, \<open>m\<close> comes back; when it does so without an error, the session is
  closed and the result satisfies \<open>W\<close>.
\<close>

lemma close_connection_closed:
  "\<exists>p'. close_connection T p = Some (Inr (), p') \<and> sess_closed (conn_session (ps_core p'))"
  by (simp add: close_connection_def prog_simps connection_close_def session_close_def)

context byte_channel
begin

definition closing :: "byte list \<Rightarrow> string list \<Rightarrow> ('a \<Rightarrow> bool) \<Rightarrow> ('t Connection Process, 'a) io \<Rightarrow> bool" where
  "closing base ft W m \<longleftrightarrow>
     (\<forall>p q. features (ps_core p) = ft \<longrightarrow> spoken good pending sent base [] (ps_core p) q \<longrightarrow>
        (\<exists>r p'. m p = Some (r, p') \<and> (\<forall>a. r = Inr a \<longrightarrow> W a \<and> sess_closed (conn_session (ps_core p')))))"

lemma closingE:
  assumes "closing base ft W m" "features (ps_core p) = ft" "spoken good pending sent base [] (ps_core p) q"
  obtains r p' where "m p = Some (r, p')" "\<And>a. r = Inr a \<Longrightarrow> W a \<and> sess_closed (conn_session (ps_core p'))"
  using assms(1) [unfolded closing_def, rule_format, OF assms(2,3)] by blast

lemma closing_bind:
  assumes "comes_back base ps_core ft m" "\<And>a. closing base ft W (f a)"
  shows "closing base ft W (bind_io m f)"
  unfolding closing_def
proof (intro allI impI)
  fix p :: "'t Connection Process" and q
  assume *: "features (ps_core p) = ft" "spoken good pending sent base [] (ps_core p) q"
  obtain r p1 q1 where 1: "m p = Some (r, p1)" "features (ps_core p1) = ft" "spoken good pending sent base [] (ps_core p1) (q @ q1)"
    using asksE [OF assms(1) *] by blast
  show "\<exists>r p'. bind_io m f p = Some (r, p') \<and> (\<forall>a. r = Inr a \<longrightarrow> W a \<and> sess_closed (conn_session (ps_core p')))"
  proof (cases r)
    case (Inl e)
    with 1(1) show ?thesis by (simp add: seq_simps)
  next
    case (Inr a)
    obtain r2 p2 where "f a p1 = Some (r2, p2)" "\<And>a. r2 = Inr a \<Longrightarrow> W a \<and> sess_closed (conn_session (ps_core p2))"
      by (rule closingE [OF assms(2) [of a] 1(2,3)]) blast
    with 1(1) Inr show ?thesis by (intro exI [of _ r2] exI [of _ p2]) (simp add: seq_simps)
  qed
qed

lemma closing_with_host: "(\<And>h. closing base ft W (f h)) \<Longrightarrow> closing base ft W (with_host f)"
  unfolding closing_def with_host_def by blast

lemma closing_if: "(c \<Longrightarrow> closing base ft W m) \<Longrightarrow> (\<not> c \<Longrightarrow> closing base ft W m') \<Longrightarrow> closing base ft W (if c then m else m')"
  by simp

lemma closing_in_order:
  assumes "\<And>m. m \<in> set ms \<Longrightarrow> comes_back base ps_core ft m"
  shows "closing base ft (\<lambda>_. True) (in_order (ms @ [close_connection T]))"
  using assms
proof (induction ms)
  case Nil
  have "\<exists>r p'. in_order [close_connection T] p = Some (r, p') \<and> (\<forall>a. r = Inr a \<longrightarrow> sess_closed (conn_session (ps_core p')))"
    for p :: "'t Connection Process"
    using close_connection_closed [of T p] by (auto simp: bind_io_def ok_io_def)
  then show ?case by (simp add: closing_def)
next
  case (Cons m ms)
  then show ?case by (simp add: closing_bind)
qed

lemma closing_steps:
  assumes "steps \<noteq> []" "last steps = close_connection T" "\<And>m. m \<in> set (butlast steps) \<Longrightarrow> comes_back base ps_core ft m"
  shows "closing base ft (\<lambda>_. True) (in_order steps)"
  using closing_in_order [of "butlast steps" base ft] append_butlast_last_id [OF assms(1)] assms(2,3) by simp

lemma closing_value:
  assumes "closing base ft (\<lambda>_. True) m" "W v"
  shows "closing base ft W (bind_io m (\<lambda>_. ok_io v))"
  unfolding closing_def
proof (intro allI impI)
  fix p :: "'t Connection Process" and q
  assume *: "features (ps_core p) = ft" "spoken good pending sent base [] (ps_core p) q"
  obtain r p' where "m p = Some (r, p')" "\<And>a. r = Inr a \<Longrightarrow> True \<and> sess_closed (conn_session (ps_core p'))"
    by (rule closingE [OF assms(1) *]) blast
  with assms(2) show "\<exists>r p'. bind_io m (\<lambda>_. ok_io v) p = Some (r, p')
      \<and> (\<forall>a. r = Inr a \<longrightarrow> W a \<and> sess_closed (conn_session (ps_core p')))"
    by (cases r) (auto simp: seq_simps)
qed

lemma closing_finish: "W status \<Longrightarrow> closing base ft W (finish T text status)"
  unfolding finish_def using closing_in_order [of "[print text]" base ft] comes_back_basic(3)
  by (intro closing_value) simp_all

lemma closing_usb_action:
  assumes "plain_transfers b ft" "\<forall>arg \<in> set args. length arg < 2 ^ 28" "length (command_of args) < 2 ^ 31 - 20"
  shows "closing base ft (\<lambda>status. status < 256) (usb_action b L T CompressAuto args)"
proof -
  have len: "length (args ! i) < 2 ^ 28" if "i < length args" for i using assms(2) that by simp
  have code: "unat (c :: byte) < 256" for c using unsigned_less [of c] by simp
  have opt: "length (if 2 < length args then args ! 2 else []) < 2 ^ 28" using len [of 2] by simp
  show ?thesis
    unfolding usb_action_def
    by (intro closing_if closing_bind closing_finish asks_on_core [OF comes_back_basic(8)] comes_back_basic(6,10,12) assms(1,3)
        comes_back_install opt)
      (use len [of 1] in \<open>auto intro!: comes_back_app simp: package_status_def code\<close>)
qed

text \<open>The round trip of a file, as the TCP program and the program for two devices make it.\<close>

lemma closing_tcp_session:
  assumes "plain_transfers b ft"
  shows "closing base ft (\<lambda>_. True) (tcp_session b L T tmp)"
proof -
  have len: "length ''echo hello'' < 2 ^ 31 - 20" "length (''rm -f '' @ ''/data/local/tmp/adbcpp_tcp_example.txt'') < 2 ^ 31 - 20"
    by simp_all
  show ?thesis
    unfolding tcp_session_def Let_def
  proof (intro closing_bind comes_back_basic(12) len(1) comes_back_in_order closing_with_host closing_steps, goal_cases)
    case (1 hello m)
    with assms show ?case by (auto intro!: comes_back_intros)
  next
    case (4 hello u h m)
    with len(2) show ?case by (auto intro!: comes_back_intros simp del: length_append)
  qed simp_all
qed

lemma closing_drive_device:
  assumes "plain_transfers b ft" "length (to_string index) < 2 ^ 28"
  shows "closing base ft (\<lambda>_. True) (drive_device b L T tmp index)"
proof -
  have len: "length ''echo hello'' < 2 ^ 31 - 20"
    "length (''rm -f '' @ ''/data/local/tmp/adbcpp_multi_'' @ to_string index @ ''.txt'') < 2 ^ 31 - 20"
    using assms(2) by simp_all
  have run: "\<exists>r p'. drive_device b L T tmp index p = Some (r, p') \<and> (\<forall>a. r = Inr a \<longrightarrow> True \<and> sess_closed (conn_session (ps_core p')))"
    if "features (ps_core p) = ft" "spoken good pending sent base [] (ps_core p) q" for p :: "'t Connection Process" and q
    unfolding drive_device_def Let_def
  proof (rule closing_def [THEN iffD1, rule_format, OF _ that], intro closing_value closing_bind comes_back_basic(12) len(1)
      comes_back_in_order closing_with_host closing_steps, goal_cases)
    case (1 hello m)
    with assms show ?case by (auto intro!: comes_back_intros)
  next
    case (4 hello u h m)
    with len(2) show ?case by (auto intro!: comes_back_intros simp del: length_append)
  qed simp_all
  show ?thesis unfolding closing_def by (intro allI impI) (rule run)
qed

end

section \<open>The local files of the programs\<close>

lemma careful_finish: "careful P 0 (finish T text status)"
  unfolding finish_def by (auto intro!: careful_intros simp: careful_tour_steps)

lemma careful_usb_action:
  assumes "2 < length args \<and> args ! 0 = ''--pull'' \<Longrightarrow> args ! 2 \<in> P"
  shows "careful P 0 (usb_action b L T compression args)"
  unfolding usb_action_def by (intro careful_if careful_bind0 careful_finish careful_basic careful_pull assms) auto

definition tcp_paths :: "string \<Rightarrow> string set" where
  "tcp_paths tmp = {path_append tmp ''adbcpp_tcp_example.txt'', path_append tmp ''adbcpp_tcp_back.txt''}"

lemma careful_tcp_session: "careful (tcp_paths tmp) 0 (tcp_session b L T tmp)"
  unfolding tcp_session_def Let_def
  by (auto intro!: careful_intros careful_pull careful_tour_steps simp: tcp_paths_def)

definition multi_paths :: "string \<Rightarrow> nat \<Rightarrow> string set" where
  "multi_paths tmp index = {path_append tmp (''adbcpp_multi_'' @ to_string index @ ''.txt''),
     path_append tmp (''adbcpp_multi_back_'' @ to_string index @ ''.txt'')}"

lemma careful_run:
  assumes "bind_io m f p = Some (r, p')" "careful P n (bind_io m f)"
  shows "(\<forall>x. x \<notin> P \<longrightarrow> files (ps_host p') x = files (ps_host p) x)
    \<and> (\<exists>ds. ps_pauses p' = ps_pauses p @ ds \<and> sum_list ds \<le> n)"
  using assms(2,1) unfolding careful_def by blast

lemma careful_drive_device:
  fixes T :: "'t Transport_ops"
  shows "careful (multi_paths tmp index) 0 (drive_device b L T tmp index)"
  unfolding careful_def
proof (intro allI impI)
  fix p :: "'t Connection Process" and r p'
  assume run: "drive_device b L T tmp index p = Some (r, p')"
  show "(\<forall>x. x \<notin> multi_paths tmp index \<longrightarrow> files (ps_host p') x = files (ps_host p) x)
      \<and> (\<exists>ds. ps_pauses p' = ps_pauses p @ ds \<and> sum_list ds \<le> 0)"
    by (rule careful_run [OF run [unfolded drive_device_def Let_def]])
      (auto intro!: careful_intros careful_pull careful_tour_steps simp: multi_paths_def)
qed

lemma multi_paths_disjoint: "i \<noteq> j \<Longrightarrow> multi_paths tmp i \<inter> multi_paths tmp j = {}"
proof -
  assume "i \<noteq> j"
  moreover have "to_string m @ ''.txt'' \<noteq> ''back_'' @ to_string n @ ''.txt''" for m n
  proof -
    obtain c cs where c: "to_string m = c # cs" by (meson to_string_not_Nil list.exhaust)
    then obtain d :: nat where "d < 10" "c = char_of (48 + d)" using to_string_set [of c m] by auto
    then have "of_char c < (98 :: nat)" by simp
    then have "c \<noteq> CHR ''b''" by auto
    with c show ?thesis by simp
  qed
  ultimately show ?thesis
    using to_string_inject [of i j] by (auto simp: multi_paths_def path_append_inject)
qed

lemma session_ends:
  fixes p :: "'t Connection Process"
  assumes "byte_channel T good pending sent" "conn_stage good pending sent base (ps_core p) fs []"
    and "byte_channel.closing good pending sent base (features (ps_core p)) W m" "careful P 0 m"
  shows "\<exists>r p'. m p = Some (r, p') \<and> (\<forall>a. r = Inr a \<longrightarrow> W a \<and> sess_closed (conn_session (ps_core p')))
    \<and> (\<forall>x. x \<notin> P \<longrightarrow> files (ps_host p') x = files (ps_host p) x)"
proof -
  have "spoken good pending sent base [] (ps_core p) []" using spoken_start_Nil [OF assms(2)] spoken_forget by blast
  from byte_channel.closingE [OF assms(1,3) refl this] obtain r p' where
    "m p = Some (r, p')" "\<And>a. r = Inr a \<Longrightarrow> W a \<and> sess_closed (conn_session (ps_core p'))" by blast
  with carefulD(1) [OF assms(4)] show ?thesis by blast
qed

section \<open>Properties\<close>

text \<open>
  C21. The options of the USB program are taken as they are spelled, wherever they stand among the other words. For
  any command line made of proper settings, the program runs with the last value given for each setting, or
  the default where none was given; \<open>--device\<close> and \<open>--serial\<close> select the device together, the later one
  winning; timeouts are taken modulo \<open>2 ^ 32\<close> and ids modulo \<open>2 ^ 16\<close>; the words that are left are the arguments, in
  their order.
\<close>

theorem usb_options_round_trip:
  assumes "\<forall>x \<in> set xs. proper x"
  shows "usb_args (concat (map spell xs)) usb_defaults = Accepted
    \<lparr>ua_timeout = last (5000 # timeouts xs), ua_budget = last (120000 # budgets xs),
     ua_id = last (\<lparr>vendor_id = 0x22D9, product_id = 0x2769, id_serial = []\<rparr> # selections xs),
     ua_compression = last (CompressAuto # codecs_named xs), ua_args = words_left xs\<rparr>"
  using usb_args_spelled [OF assms, of usb_defaults] unfolding usb_defaults_def UsbArgs.simps append_Nil .

theorem usb_options_round_trip_witness:
  "usb_args (concat (map spell [Word ''--pull'', Timeout 1000, Serial ''abc'', Word ''/a'', Timeout 2000, Codec CompressNone, Word ''b'']))
      usb_defaults = Accepted
    \<lparr>ua_timeout = 2000, ua_budget = 120000, ua_id = \<lparr>vendor_id = 0, product_id = 0, id_serial = ''abc''\<rparr>,
     ua_compression = CompressNone, ua_args = [''--pull'', ''/a'', ''b'']\<rparr>"
  using usb_options_round_trip [of "[Word ''--pull'', Timeout 1000, Serial ''abc'', Word ''/a'', Timeout 2000, Codec CompressNone, Word ''b'']"]
  by (simp add: option_names_def)



end
