(* ===== verification/Adb_Samples.thy ===== *)
theory Adb_Samples
  imports Adb_Program
begin

text \<open>
  The two programs that need no device, \<open>examples/sample/main.cpp\<close> and \<open>examples/sync/main.cpp\<close>: they queue the
  device's bytes on the transport in memory and run the library on them. Everything they print is
  determined, so their theorems are the text they print.
\<close>

section \<open>One header (examples/sample)\<close>

text \<open>\<open>std::setw\<close> with \<open>std::setfill('0')\<close>.\<close>

definition zero_padded :: "nat \<Rightarrow> string \<Rightarrow> string" where
  "zero_padded width text = replicate (width - length text) (CHR ''0'') @ text"

definition device_message :: Message where
  "device_message =
     empty_Message\<lparr>command := kCnxn, arg0 := 0x01000001, arg1 := 4096, magic := compute_magic kCnxn\<rparr>"

definition sample_main :: "unit Process \<Rightarrow> (nat \<times> unit Process) option" where
  "sample_main =
     run_main
       (case session_receive mock_ops (session_new (mock_feed (encode device_message) mock_new)) of
          (Inl e, _) \<Rightarrow> fail_io e
        | (Inr frame, _) \<Rightarrow>
            bind_io (in_order
              [print (''received command: 0x'' @ zero_padded 8 (to_hex (unat (command (header frame)))) @ nl),
               print (''arg0: 0x'' @ zero_padded 8 (to_hex (unat (arg0 (header frame)))) @ nl),
               print (''arg1: '' @ to_string (unat (arg1 (header frame))) @ nl)])
              (\<lambda>_. ok_io 0))"

section \<open>The sync services (examples/sync)\<close>

definition kFirstDeviceId :: u32 where "kFirstDeviceId = 7"
definition kFirstLocalId :: u32 where "kFirstLocalId = 2"
definition kSecondDeviceId :: u32 where "kSecondDeviceId = 8"
definition kSecondLocalId :: u32 where "kSecondLocalId = 3"
definition kThirdDeviceId :: u32 where "kThirdDeviceId = 9"
definition kThirdLocalId :: u32 where "kThirdLocalId = 4"
definition kFourthDeviceId :: u32 where "kFourthDeviceId = 10"
definition kFourthLocalId :: u32 where "kFourthLocalId = 5"

definition sample_u64_le :: "u64 \<Rightarrow> byte list" where
  "sample_u64_le v = write_u32_le (ucast v) @ write_u32_le (ucast (drop_bit 32 v))"

definition device_header :: "u32 \<Rightarrow> u32 \<Rightarrow> u32 \<Rightarrow> byte list \<Rightarrow> Message" where
  "device_header cmd a0 a1 bs =
     \<lparr>command = cmd, arg0 = a0, arg1 = a1, data_length = of_nat (length bs),
      data_check = compute_checksum bs, magic = compute_magic cmd\<rparr>"

definition feed_frame :: "u32 \<Rightarrow> u32 \<Rightarrow> u32 \<Rightarrow> byte list \<Rightarrow> MockTransport \<Rightarrow> MockTransport" where
  "feed_frame cmd a0 a1 bs t =
     (let t1 = mock_feed (encode (device_header cmd a0 a1 bs)) t in if bs \<noteq> [] then mock_feed bs t1 else t1)"

definition sync_id :: "string \<Rightarrow> u32" where
  "sync_id four = make_command (four ! 0) (four ! 1) (four ! 2) (four ! 3)"

text \<open>The replies: a block of zeros with its fields written in.\<close>

definition put :: "nat \<Rightarrow> byte list \<Rightarrow> byte list \<Rightarrow> byte list" where
  "put pos bs block = take pos block @ bs @ drop (pos + length bs) block"

definition dent_v2 :: "u32 \<Rightarrow> u64 \<Rightarrow> string \<Rightarrow> byte list" where
  "dent_v2 mode sz name =
     put 76 (bytes_of_string name) (put 72 (write_u32_le (of_nat (length name)))
       (put 40 (sample_u64_le sz) (put 24 (write_u32_le mode) (put 4 (write_u32_le 0)
         (put 0 (write_u32_le (sync_id ''DNT2'')) (replicate (76 + length name) 0))))))"

definition done_v2 :: "byte list" where
  "done_v2 = put 0 (write_u32_le (sync_id ''DONE'')) (replicate 76 0)"

definition data_chunk :: "string \<Rightarrow> byte list" where
  "data_chunk text =
     put 8 (bytes_of_string text) (put 4 (write_u32_le (of_nat (length text)))
       (put 0 (write_u32_le (sync_id ''DATA'')) (replicate (8 + length text) 0)))"

definition recv_done :: "byte list" where
  "recv_done = put 4 (write_u32_le 0) (put 0 (write_u32_le (sync_id ''DONE'')) (replicate 8 0))"

definition stat_v2 :: "u32 \<Rightarrow> u32 \<Rightarrow> u64 \<Rightarrow> byte list" where
  "stat_v2 error mode sz =
     put 40 (sample_u64_le sz) (put 24 (write_u32_le mode) (put 4 (write_u32_le error)
       (put 0 (write_u32_le (sync_id ''STA2'')) (replicate 72 0))))"

definition status_reply :: "string \<Rightarrow> byte list" where
  "status_reply four = put 4 (write_u32_le 0) (put 0 (write_u32_le (sync_id four)) (replicate 8 0))"

definition bytes_text :: "string \<Rightarrow> byte list \<Rightarrow> string" where
  "bytes_text label bs =
     label @ '':'' @ concat (map (\<lambda>w. '' '' @ zero_padded 2 (to_hex (unat w))) bs) @ nl"

text \<open>The device's side of the exchange.\<close>

definition device_frames :: "(u32 \<times> u32 \<times> u32 \<times> byte list) list" where
  "device_frames =
     [(kCnxn, 0x01000001, 4096, bytes_of_string ''device::features=shell_v2,ls_v2''),
      (kOkay, kFirstDeviceId, kFirstLocalId, []),
      (kWrte, kFirstDeviceId, kFirstLocalId, dent_v2 0x41ED 4096 ''.''),
      (kWrte, kFirstDeviceId, kFirstLocalId, dent_v2 0x81A4 30 ''adb_keys''),
      (kWrte, kFirstDeviceId, kFirstLocalId, done_v2),
      (kOkay, kSecondDeviceId, kSecondLocalId, []),
      (kWrte, kSecondDeviceId, kSecondLocalId, data_chunk ''hello ''),
      (kWrte, kSecondDeviceId, kSecondLocalId, data_chunk (''world'' @ nl)),
      (kWrte, kSecondDeviceId, kSecondLocalId, recv_done),
      (kOkay, kThirdDeviceId, kThirdLocalId, []),
      (kWrte, kThirdDeviceId, kThirdLocalId, stat_v2 2 0 0),
      (kOkay, kFourthDeviceId, kFourthLocalId, []),
      (kWrte, kFourthDeviceId, kFourthLocalId, status_reply ''OKAY'')]"

definition fed_transport :: MockTransport where
  "fed_transport = fold (\<lambda>(cmd, a0, a1, bs). feed_frame cmd a0 a1 bs) device_frames mock_new"

definition listing_text :: "DirEntry list \<Rightarrow> string" where
  "listing_text entries =
     concat (map (\<lambda>e. ''  '' @ (if is_directory (de_mode e) then ''d'' else ''-'') @ '' '' @ to_string (unat (de_size e))
       @ '' '' @ de_name e @ nl) entries)"

definition request_text :: "byte list \<Rightarrow> string \<Rightarrow> string" where
  "request_text written four =
     (case str_find (write_u32_le (sync_id four)) written of
        None \<Rightarrow> []
      | Some offset \<Rightarrow> bytes_text (''the host wrote '' @ four) (take 8 (drop offset written)))"

text \<open>The three calls, on the connection.\<close>

definition sync_list_part :: "(MockTransport Connection Process, unit) io" where
  "sync_list_part =
     bind_io (print (''listing /sdcard:'' @ nl))
       (\<lambda>_. bind_io (on_core (sync_list mock_ops ''/sdcard'')) (\<lambda>entries. print (listing_text entries)))"

definition sync_pull_part :: "Build \<Rightarrow> 'd Codecs \<Rightarrow> string \<Rightarrow> (MockTransport Connection Process, unit) io" where
  "sync_pull_part b L tmp =
     (let local = path_append tmp ''adbcpp_sync_example.txt'' in
      bind_io (pull_file b L mock_ops ''/sdcard/file.txt'' local CompressAuto)
        (\<lambda>_. with_host (\<lambda>h. let contents = read_text local h in
          in_order
            [change_host (remove_file local),
             print (''pulled /sdcard/file.txt ('' @ to_string (length contents) @ '' bytes): '' @ contents)])))"

definition sync_push_part :: "Build \<Rightarrow> 'd Codecs \<Rightarrow> string \<Rightarrow> (MockTransport Connection Process, unit) io" where
  "sync_push_part b L tmp =
     (let upload = path_append tmp ''adbcpp_sync_example_upload.txt'' in
      in_order
        [change_host (write_text upload (''pushed from the host'' @ nl)),
         push_file b L mock_ops upload ''/sdcard/upload.txt'' CompressAuto,
         change_host (remove_file upload),
         print (''pushed a local file to /sdcard/upload.txt'' @ nl)])"

definition sync_requests_part :: "(MockTransport Connection Process, unit) io" where
  "sync_requests_part p =
     print (concat (map (request_text (mock_written (sess_transport (conn_session (ps_core p)))))
       [''LIS2'', ''RECV'', ''SEND''])) p"

definition sync_main :: "Build \<Rightarrow> 'd Codecs \<Rightarrow> string \<Rightarrow> unit Process \<Rightarrow> (nat \<times> unit Process) option" where
  "sync_main b L tmp =
     run_main
       (\<lambda>p. case connect b mock_ops fed_transport [] None False of
          (Inl e, _) \<Rightarrow> Some (Inl e, p)
        | (Inr _, c) \<Rightarrow>
            (case in_order [sync_list_part, sync_pull_part b L tmp, sync_push_part b L tmp, sync_requests_part] (set_core c p) of
               None \<Rightarrow> None
             | Some (r, p') \<Rightarrow> Some (map_sum id (\<lambda>_. 0) r, set_core () p')))"


section \<open>What the device's frames say\<close>

definition frame_of :: "u32 \<times> u32 \<times> u32 \<times> byte list \<Rightarrow> Frame" where
  "frame_of x = (case x of (cmd, a0, a1, bs) \<Rightarrow> \<lparr>header = device_header cmd a0 a1 bs, payload = bs\<rparr>)"

lemma frame_of_sel [simp]:
  "command (header (frame_of (cmd, a0, a1, bs))) = cmd" "arg0 (header (frame_of (cmd, a0, a1, bs))) = a0"
  "arg1 (header (frame_of (cmd, a0, a1, bs))) = a1" "payload (frame_of (cmd, a0, a1, bs)) = bs"
  by (simp_all add: frame_of_def device_header_def)

lemma valid_frame_of [simp]: "length bs \<le> 1000 \<Longrightarrow> valid_frame (frame_of (cmd, a0, a1, bs))"
  by (simp add: valid_frame_def frame_of_def device_header_def unat_of_nat)

lemma feed_frame:
  assumes "mock_good t"
  shows "mock_good (feed_frame cmd a0 a1 bs t)" "mock_written (feed_frame cmd a0 a1 bs t) = mock_written t"
    "mock_pending (feed_frame cmd a0 a1 bs t) = mock_pending t @ encode_frame (frame_of (cmd, a0, a1, bs))"
  using assms by (simp_all add: feed_frame_def Let_def mock_pending_feed frame_of_def encode_frame_def)

lemma feed_frames:
  fixes xs :: "(u32 \<times> u32 \<times> u32 \<times> byte list) list"
  assumes "mock_good t"
  shows "mock_good (fold (\<lambda>(cmd, a0, a1, bs). feed_frame cmd a0 a1 bs) xs t)
    \<and> mock_pending (fold (\<lambda>(cmd, a0, a1, bs). feed_frame cmd a0 a1 bs) xs t) =
        mock_pending t @ wire (map frame_of xs)
    \<and> mock_written (fold (\<lambda>(cmd, a0, a1, bs). feed_frame cmd a0 a1 bs) xs t) = mock_written t"
  using assms
proof (induction xs arbitrary: t)
  case (Cons x xs)
  obtain cmd a0 a1 bs where x: "x = (cmd, a0, a1, bs)" by (metis prod_cases4)
  show ?case
    using Cons.IH [OF feed_frame(1) [OF Cons.prems, of cmd a0 a1 bs]] Cons.prems
    by (simp only: x fold_simps prod.case feed_frame list.map wire_simps append_assoc simp_thms)
qed simp

lemma fed_transport:
  "mock_good fed_transport" "mock_pending fed_transport = wire (map frame_of device_frames)"
  "mock_written fed_transport = []"
  using feed_frames [of mock_new device_frames] by (simp_all add: fed_transport_def del: wire_simps)

text \<open>The replies are those of the sync protocol, in the encodings of the specifications.\<close>

definition dent :: "u32 \<Rightarrow> u64 \<Rightarrow> string \<Rightarrow> Dent" where
  "dent mode sz name =
     \<lparr>dn_error = 0, dn_dev = 0, dn_ino = 0, dn_mode = mode, dn_nlink = 0, dn_uid = 0, dn_gid = 0, dn_size = sz,
      dn_atime = 0, dn_mtime = 0, dn_ctime = 0, dn_name = name\<rparr>"

lemma replies_encoded:
  "dent_v2 0x41ED 4096 ''.'' = encode_dent True (dent 0x41ED 4096 ''.'')"
  "dent_v2 0x81A4 30 ''adb_keys'' = encode_dent True (dent 0x81A4 30 ''adb_keys'')"
  "done_v2 = write_u32_le kDone @ replicate kDentV2BodySize 0"
  "recv_done = write_u32_le kDone @ replicate 4 0"
  "stat_v2 2 0 0 = write_u32_le (sync_id ''STA2'') @ stat_fields_v1 (dent 2 0 []) @ replicate 56 0"
  "status_reply ''OKAY'' = encode_status None"
  by code_simp+

lemma data_chunk_encoded: "data_chunk text = encode_data (bytes_of_string text)"
  by (simp add: data_chunk_def put_def encode_data_def sync_id_def kData_def make_command_def)

definition listing_frames :: "Frame list" where
  "listing_frames = map frame_of
     [(kOkay, 7, 2, []), (kWrte, 7, 2, dent_v2 0x41ED 4096 ''.''), (kWrte, 7, 2, dent_v2 0x81A4 30 ''adb_keys''),
      (kWrte, 7, 2, done_v2)]"

definition file_frames :: "Frame list" where
  "file_frames = map frame_of
     [(kOkay, 8, 3, []), (kWrte, 8, 3, data_chunk ''hello ''), (kWrte, 8, 3, data_chunk (''world'' @ nl)),
      (kWrte, 8, 3, recv_done)]"

definition destination_frames :: "Frame list" where
  "destination_frames = map frame_of [(kOkay, 9, 4, []), (kWrte, 9, 4, stat_v2 2 0 0)]"

definition accepted_frames :: "Frame list" where
  "accepted_frames = map frame_of [(kOkay, 10, 5, []), (kWrte, 10, 5, status_reply ''OKAY'')]"

definition banner_frame :: Frame where
  "banner_frame = frame_of (kCnxn, 0x01000001, 4096, bytes_of_string ''device::features=shell_v2,ls_v2'')"

lemma device_frames_parts:
  "map frame_of device_frames = banner_frame # listing_frames @ file_frames @ destination_frames @ accepted_frames"
  by (simp add: device_frames_def banner_frame_def listing_frames_def file_frames_def destination_frames_def
      accepted_frames_def kFirstDeviceId_def kFirstLocalId_def kSecondDeviceId_def kSecondLocalId_def
      kThirdDeviceId_def kThirdLocalId_def kFourthDeviceId_def kFourthLocalId_def)

lemma length_put [simp]: "pos + length bs \<le> length block \<Longrightarrow> length (put pos bs block) = length block"
  by (simp add: put_def)

lemma length_replies [simp]:
  "length (dent_v2 mode sz name) = 76 + length name" "length done_v2 = 76" "length (data_chunk text) = 8 + length text"
  "length recv_done = 8" "length (stat_v2 error mode sz) = 72" "length (status_reply four) = 8"
  by (simp_all add: dent_v2_def done_v2_def data_chunk_def recv_done_def stat_v2_def status_reply_def sample_u64_le_def)

lemma valid_device_frames: "list_all valid_frame (map frame_of device_frames)"
  by (simp add: device_frames_def)

lemma frames_by_stream:
  "open_reply 2 listing_frames = (Inr 7, tl listing_frames)"
  "stream_data 2 (tl listing_frames) = encode_listing True [dent 0x41ED 4096 ''.'', dent 0x81A4 30 ''adb_keys'']"
  "open_reply 3 file_frames = (Inr 8, tl file_frames)"
  "stream_data 3 (tl file_frames) = encode_file [bytes_of_string ''hello '', bytes_of_string (''world'' @ nl)]"
  "open_reply 4 destination_frames = (Inr 9, tl destination_frames)"
  "stream_data 4 (tl destination_frames) =
     write_u32_le (sync_id ''STA2'') @ stat_fields_v1 (dent 2 0 []) @ replicate 56 0"
  "open_reply 5 accepted_frames = (Inr 10, tl accepted_frames)"
  "stream_data 5 (tl accepted_frames) = encode_status None"
  "unaddressed 3 tail listing_frames" "unaddressed 4 tail file_frames" "unaddressed 5 tail destination_frames"
  by (simp_all add: listing_frames_def file_frames_def destination_frames_def accepted_frames_def open_reply_def
      unaddressed_def encode_listing_def encode_file_def replies_encoded data_chunk_encoded)

section \<open>What the programs print\<close>

lemma hex_fields: "to_hex 0x4E584E43 = ''4e584e43''" "to_hex 0x1000001 = ''1000001''"
  by (simp_all add: to_hex.simps char_of_def bit_0)

text \<open>
  The first sample reads back the header it queued: it returns 0 and prints the command in eight
  hexadecimal digits, the version in eight with its leading zero, and the maximum payload in decimal.
\<close>

lemma sample_prints_header:
  "\<exists>p'. sample_main p = Some (0, p') \<and> ps_err p' = ps_err p
    \<and> ps_out p' = ps_out p @ ''received command: 0x4e584e43'' @ nl @ ''arg0: 0x01000001'' @ nl @ ''arg1: 4096'' @ nl"
proof -
  let ?f = "\<lparr>header = device_message, payload = []\<rparr>" and ?t = "mock_feed (encode device_message) mock_new"
  have "valid_frame ?f" by (simp add: valid_frame_def device_message_def empty_Message_def)
  then have "stage mock_good mock_pending mock_written [] (session_new ?t) [?f] []"
    by (simp add: stage_def live_def inbox_def outbox_def session_new_def mock_pending_feed encode_frame_def)
  from mock.stage_receive [OF this] obtain s' where "session_receive mock_ops (session_new ?t) = (Inr ?f, s')"
    by blast
  then show ?thesis
    by (simp add: sample_main_def run_main_def prog_simps seq_simps bind_io_def zero_padded_def device_message_def empty_Message_def kCnxn_def make_command_def
        hex_fields to_string.simps char_of_def bit_0)
qed

text \<open>The connection that the handshake leaves, and the three calls on it.\<close>

definition entries_listed :: "DirEntry list" where
  "entries_listed =
     [\<lparr>de_name = ''.'', de_mode = 0x41ED, de_size = 4096, de_mtime = 0\<rparr>,
      \<lparr>de_name = ''adb_keys'', de_mode = 0x81A4, de_size = 30, de_mtime = 0\<rparr>]"

abbreviation said where "said \<equiv> spoken mock_good mock_pending mock_written"

lemma list_call:
  fixes c :: "MockTransport Connection"
  assumes "said base (listing_frames @ tail) c q" "next_local_id c = 2" "unat (max_data c) = 4096"
    and "features c = [''shell_v2'', ''ls_v2'']"
  shows "\<exists>s. sync_list mock_ops ''/sdcard'' c = Some (Inr entries_listed, next_connection c s)
    \<and> said base tail (next_connection c s) (q @ sync_frames c 7 (path_request kListV2 ''/sdcard''))"
proof -
  have r: "plist ev True [] (stream_data 2 (tl listing_frames)) = (Inr entries_listed, [])" for ev
    using plist_encode [of "[dent 0x41ED 4096 ''.'', dent 0x81A4 30 ''adb_keys'']" ev True "[]" "[]"]
    by (simp add: frames_by_stream listed_def dent_view_def dent_def entries_listed_def kMaxNameLength_def)
  have "open_reply (next_local_id c) listing_frames = (Inr 7, tl listing_frames)"
    "unaddressed (next_local_id c + 1) tail listing_frames"
    using assms(2) by (simp_all add: frames_by_stream)
  from mock.sync_list_spec [OF assms(1) this, of "''/sdcard''"] show ?thesis
    using assms(2-4) by (auto simp: r kMaxPathLength_def)
qed

lemma create_new:
  "files h path = None \<Longrightarrow> \<not> denied h path \<Longrightarrow> create_output path (x, h) = Some (Inr (), (x, h\<lparr>files := (files h)
     (path \<mapsto> \<lparr>lf_content = [], lf_mode = 0x81A4, lf_mtime = file_clock_now h, lf_regular = True\<rparr>)\<rparr>))"
  by (simp add: create_output_def out_open_def file_content_def)

lemma write_more:
  "files h path = Some f \<Longrightarrow> length bs \<le> disk_free h \<Longrightarrow> write_output path bs (x, h) = Some (Inr (), (x,
     h\<lparr>files := (files h)(path \<mapsto> f\<lparr>lf_content := lf_content f @ bs\<rparr>), disk_free := disk_free h - length bs\<rparr>))"
  by (simp add: write_output_def out_write_def)

lemma codec_call:
  "features c = [''shell_v2'', ''ls_v2''] \<Longrightarrow> transfer_codec b c CompressAuto = Inr None"
  by (simp add: transfer_codec_def choose_codec_def supports_feature_def)

lemma pull_call:
  fixes c :: "MockTransport Connection"
  assumes "said base (file_frames @ tail) c q" "next_local_id c = 3" "unat (max_data c) = 4096"
    and "features c = [''shell_v2'', ''ls_v2'']" "files h path = None" "\<not> denied h path" "12 \<le> disk_free h"
  shows "\<exists>s f. sync_pull b L mock_ops ''/sdcard/file.txt'' path CompressAuto (c, h) =
        Some (Inr (), (next_connection c s, h\<lparr>files := (files h)(path \<mapsto> f), disk_free := disk_free h - 12\<rparr>))
    \<and> lf_content f = bytes_of_string (''hello world'' @ nl)
    \<and> said base tail (next_connection c s) (q @ sync_frames c 8 (path_request kRecvV1 ''/sdcard/file.txt''))"
proof -
  let ?f = "\<lparr>lf_content = bytes_of_string ''hello '' @ bytes_of_string (''world'' @ nl), lf_mode = 0x81A4, lf_mtime = file_clock_now h, lf_regular = True\<rparr>"
  let ?h = "h\<lparr>files := (files h)(path \<mapsto> ?f), disk_free := disk_free h - 12\<rparr>"
  have "encode_file [bytes_of_string ''hello '', bytes_of_string (''world'' @ nl)] =
      encode_data (bytes_of_string ''hello '') @ encode_data (bytes_of_string (''world'' @ nl)) @ write_u32_le kDone
        @ replicate 4 0 @ []"
    by (simp add: encode_file_def)
  then have pure: "bind_io (create_output path) (\<lambda>_. ppull ev path) (stream_data 3 (tl file_frames), h) = Some (Inr (), ([], ?h))" for ev
    using assms(5-7)
    by (simp add: frames_by_stream bind_io_def create_new write_more ppull_chunk ppull_done kMaxChunkSize_def del: append_Nil2)
  have reply: "open_reply (next_local_id c) file_frames = (Inr 8, tl file_frames)"
    "unaddressed (next_local_id c + 1) tail file_frames"
    "8 + length ''/sdcard/file.txt'' \<le> unat (max_data c)" "length ''/sdcard/file.txt'' \<le> kMaxPathLength"
    using assms(2,3) by (simp_all add: frames_by_stream kMaxPathLength_def)
  have "\<exists>c'. sync_pull b L mock_ops ''/sdcard/file.txt'' path CompressAuto (c, h) = Some (Inr (), (c', ?h))
      \<and> (Inr () = (Inr () :: unit Result) \<longrightarrow> (\<exists>s. c' = next_connection c s)
         \<and> said base tail c' (q @ sync_frames c 8 (path_request kRecvV1 ''/sdcard/file.txt'')))"
    by (rule mock.pull_service [OF assms(1) reply codec_call [OF assms(4)]]) (simp_all add: assms(2) pure)
  then obtain s where "sync_pull b L mock_ops ''/sdcard/file.txt'' path CompressAuto (c, h) =
      Some (Inr (), (next_connection c s, ?h))"
    "said base tail (next_connection c s) (q @ sync_frames c 8 (path_request kRecvV1 ''/sdcard/file.txt''))"
    by auto
  then show ?thesis by (intro exI [of _ s] exI [of _ ?f] conjI) (simp_all add: bytes_of_string_def)
qed

text \<open>
  The reply about the destination is in the v2 form, which the banner does not announce, so its error
  number is read as the mode of a file that exists. As that file is not a directory, the push goes on.
\<close>

lemma push_call:
  fixes c :: "MockTransport Connection" and L :: "'d Codecs"
  assumes "said base (destination_frames @ accepted_frames) c q" "next_local_id c = 4" "unat (max_data c) = 4096"
    and "features c = [''shell_v2'', ''ls_v2'']" "files h path = Some f" "lf_regular f" "\<not> denied h path"
    and "read_fault h path = None" "length (lf_content f) = 21" "lf_mode f = 0x81A4"
    and "\<not> delayed_ack c"
  defines "st \<equiv> opened ''sync:'' 5 10"
  shows "\<exists>c'. sync_push b L mock_ops h path ''/sdcard/upload.txt'' CompressAuto c = Some (Inr (), c')
    \<and> said base [] c' (q @ sync_frames c 9 (path_request kStatV1 ''/sdcard/upload.txt'')
        @ open_frame 5 0 ''sync:'' # push_frames st (path_request kSendV1 ''/sdcard/upload.txt,420'') [lf_content f] (local_mtime h path)
        @ [clse_frame st])"
proof -
  have h: "file_content h path = lf_content f" "is_regular_file h path" "local_mode h path = 420"
    using assms(5,6,10) by (simp_all add: file_content_def is_regular_file_def local_mode_def posix_stat_def)
  have "lf_content f \<noteq> []" using assms(9) by auto
  then have parts: "chunks kMaxChunkSize (lf_content f) = [lf_content f]"
    using assms(9) by (simp add: chunks_step kMaxChunkSize_def)
  have v1: "''stat_v2'' \<notin> set (features c)" using assms(4) by simp
  have dest: "push_destination path ''/sdcard/upload.txt'' (stat_view False (dent 2 0 [])) = ''/sdcard/upload.txt''"
    by (simp add: push_destination_def stat_view_def dent_def is_directory_def)
  have request: "push_request ''/sdcard/upload.txt'' 420 None = path_request kSendV1 ''/sdcard/upload.txt,420''"
    by (simp add: push_request_def push_spec_def to_string.simps char_of_def bit_0)
  have status: "fst (pstatus ev (encode_status None)) = Inr ()" for ev
    using pstatus_encode [of None ev "[]"] by (simp add: status_result_def)
  have one: "sendable (push_encoder b L None) (max_data c) (lf_content f)"
    "push_encoder b L None = Inr"
    using assms(3,9) by (simp_all add: sendable_def parts push_encoder_def)
  have 1: "open_reply (next_local_id c) destination_frames = (Inr 9, tl destination_frames)"
    "unaddressed (next_local_id c + 1) accepted_frames destination_frames"
    "stream_data (next_local_id c) (tl destination_frames) = write_u32_le (sync_id ''STA2'')
       @ (if ''stat_v2'' \<in> set (features c) then stat_fields (dent 2 0 []) else stat_fields_v1 (dent 2 0 [])) @ replicate 56 0"
    "length (write_u32_le (sync_id ''STA2'')) = 4" "length ''/sdcard/upload.txt'' \<le> kMaxPathLength"
    "8 + length ''/sdcard/upload.txt'' \<le> unat (max_data c)"
    "open_reply (next_local_id c + 1) accepted_frames = (Inr 10, tl accepted_frames)"
    using assms(2,3) v1 by (simp_all add: frames_by_stream kMaxPathLength_def)
  have start: "said base (destination_frames @ accepted_frames @ []) c q" using assms(1) by simp
  from 1(2) have "unaddressed (next_local_id c + 1) (accepted_frames @ []) destination_frames" by simp
  from mock.sync_push_spec [OF start h(2) assms(7,8) codec_call [OF assms(4)] 1(1) this 1(3-7) unaddressed_Nil(2),
      where L = L and b = b] show ?thesis
    using assms(2,3,11) v1 one(1) by (auto simp: h dest request one(2) parts status frames_by_stream st_def)
qed

text \<open>The parts of the program around these calls; both temporary files are gone afterwards.\<close>

definition listing_lines :: string where
  "listing_lines = ''listing /sdcard:'' @ nl @ ''  d 4096 .'' @ nl @ ''  - 30 adb_keys'' @ nl"

lemma list_part:
  assumes "sync_list mock_ops ''/sdcard'' (ps_core P) = Some (Inr entries_listed, c)"
  shows "sync_list_part P = Some (Inr (), P\<lparr>ps_core := c, ps_out := ps_out P @ listing_lines\<rparr>)"
proof -
  have "listing_text entries_listed = ''  d 4096 .'' @ nl @ ''  - 30 adb_keys'' @ nl"
    by (simp add: listing_text_def entries_listed_def is_directory_def to_string.simps char_of_def bit_0)
  with assms show ?thesis
    by (simp add: sync_list_part_def bind_io_def print_def on_core_def listing_lines_def)
qed

lemma remove_created:
  "files h path = None \<Longrightarrow> length (lf_content f) = n \<Longrightarrow> n \<le> disk_free h \<Longrightarrow>
     remove_file path (h\<lparr>files := (files h)(path \<mapsto> f), disk_free := disk_free h - n\<rparr>) = h"
  by (simp add: remove_file_def file_content_def fun_upd_idem)

lemma read_created:
  assumes "\<not> denied h path" "read_fault h path = None"
  shows "read_text path (h\<lparr>files := (files h)(path \<mapsto> f), disk_free := n\<rparr>) = string_of_bytes (lf_content f)"
  using assms by (simp add: read_text_def in_open_def in_read_def file_content_def)

lemma pull_part:
  fixes P :: "MockTransport Connection Process" and tmp :: string
  defines "path \<equiv> path_append tmp ''adbcpp_sync_example.txt''" and "h \<equiv> ps_host P"
  assumes "sync_pull b L mock_ops ''/sdcard/file.txt'' path CompressAuto (ps_core P, h) =
      Some (Inr (), (c, h\<lparr>files := (files h)(path \<mapsto> f), disk_free := disk_free h - 12\<rparr>))"
    and "lf_content f = bytes_of_string (''hello world'' @ nl)" "files h path = None" "\<not> denied h path"
    and "read_fault h path = None" "12 \<le> disk_free h"
  shows "sync_pull_part b L tmp P = Some (Inr (), P\<lparr>ps_core := c,
    ps_out := ps_out P @ ''pulled /sdcard/file.txt (12 bytes): hello world'' @ nl\<rparr>)"
proof -
  have "remove_file path (h\<lparr>files := (files h)(path \<mapsto> f), disk_free := disk_free h - 12\<rparr>) = h"
    using assms by (intro remove_created) simp_all
  moreover have "read_text path (h\<lparr>files := (files h)(path \<mapsto> f), disk_free := disk_free h - 12\<rparr>) = ''hello world'' @ nl"
    using assms(4,6,7) by (simp add: read_created)
  moreover have "to_string (length (''hello world'' @ nl)) = ''12''" by (simp add: to_string.simps char_of_def bit_0)
  ultimately show ?thesis
    using assms(3) unfolding h_def
    by (cases P) (simp add: sync_pull_part_def path_def [symmetric] pull_file_def on_core_and_host_def bind_io_def with_host_def
        change_host_def print_def Let_def seq_simps)
qed

definition uploaded :: "int \<Rightarrow> LocalFile" where
  "uploaded clock =
     \<lparr>lf_content = bytes_of_string (''pushed from the host'' @ nl), lf_mode = 0x81A4, lf_mtime = clock, lf_regular = True\<rparr>"

lemma write_created:
  "files h path = None \<Longrightarrow> \<not> denied h path \<Longrightarrow> 21 \<le> disk_free h \<Longrightarrow>
     write_text path (''pushed from the host'' @ nl) h =
       h\<lparr>files := (files h)(path \<mapsto> uploaded (file_clock_now h)), disk_free := disk_free h - 21\<rparr>"
  by (simp add: write_text_def out_open_def out_write_def file_content_def uploaded_def)

lemma push_part:
  fixes P :: "MockTransport Connection Process" and tmp :: string
  defines "path \<equiv> path_append tmp ''adbcpp_sync_example_upload.txt''" and "h \<equiv> ps_host P"
  assumes "sync_push b L mock_ops
        (h\<lparr>files := (files h)(path \<mapsto> uploaded (file_clock_now h)), disk_free := disk_free h - 21\<rparr>) path
        ''/sdcard/upload.txt'' CompressAuto (ps_core P) = Some (Inr (), c)"
    and "files h path = None" "\<not> denied h path" "21 \<le> disk_free h"
  shows "sync_push_part b L tmp P = Some (Inr (), P\<lparr>ps_core := c,
    ps_out := ps_out P @ ''pushed a local file to /sdcard/upload.txt'' @ nl\<rparr>)"
proof -
  have "remove_file path (h\<lparr>files := (files h)(path \<mapsto> uploaded (file_clock_now h)), disk_free := disk_free h - 21\<rparr>) = h"
    using assms(4,6) by (intro remove_created) (simp_all add: uploaded_def)
  then show ?thesis
    using assms(3) write_created [OF assms(4-6)] unfolding h_def
    by (cases P) (simp add: sync_push_part_def path_def [symmetric] push_file_def on_core_def bind_io_def with_host_def
        change_host_def print_def Let_def seq_simps)
qed

text \<open>A request that was sent is found among the bytes written.\<close>

lemma request_found:
  assumes "said base [] c q" "wrte_frame st (path_request (sync_id four) path) \<in> set q"
  shows "\<exists>l. request_text (mock_written (sess_transport (conn_session c))) four =
      bytes_text (''the host wrote '' @ four) (write_u32_le (sync_id four) @ l)"
proof -
  obtain rest where rest: "path_request (sync_id four) path = write_u32_le (sync_id four) @ rest"
    by (simp add: path_request_def)
  let ?id = "write_u32_le (sync_id four)" and ?w = "mock_written (sess_transport (conn_session c))"
  obtain out where out: "?w = base @ wire out" "requests out = q"
    using assms(1) by (auto simp: spoken_def stage_def outbox_def)
  then have "wrte_frame st (?id @ rest) \<in> set out" using assms(2) by (auto simp: requests_def rest)
  then obtain xs ys where "out = xs @ wrte_frame st (?id @ rest) # ys" by (auto simp: in_set_conv_decomp)
  then have "?w = (base @ wire xs @ encode (header (wrte_frame st (?id @ rest)))) @ ?id @ rest @ wire ys"
    by (simp add: out(1) encode_frame_def wrte_frame_def Let_def)
  then have "str_find ?id ?w \<noteq> None" unfolding str_find_iff by blast
  then obtain i where i: "str_find ?id ?w = Some i" by blast
  have "length ?id = 4" by simp
  then have "take 8 (drop i ?w) = ?id @ take 4 (drop (i + 4) ?w)"
    using arg_cong [OF conjunct1 [OF str_find_Some [OF i]], of "\<lambda>xs. take 8 (drop i xs)"] str_find_Some [OF i] by simp
  with i show ?thesis by (auto simp: request_text_def)
qed

lemma request_sent:
  "wrte_frame (opened ''sync:'' (next_local_id c) rid) request \<in> set (sync_frames c rid request)"
  "wrte_frame st request \<in> set (push_frames st request bs mtime)"
  by (simp_all add: sync_frames_def push_frames_def Let_def)

lemma sample_connected:
  obtains c where "connect b mock_ops fed_transport [] None False = (Inr (), c)"
    "said (wire [cnxn_frame b False]) (listing_frames @ file_frames @ destination_frames @ accepted_frames) c []"
    "next_local_id c = 2" "unat (max_data c) = 4096" "features c = [''shell_v2'', ''ls_v2'']" "\<not> delayed_ack c"
proof -
  let ?fs = "listing_frames @ file_frames @ destination_frames @ accepted_frames"
  have banner: "command (header banner_frame) = kCnxn" "arg1 (header banner_frame) = 4096"
    "string_of_bytes (payload banner_frame) = ''device::features=shell_v2,ls_v2''"
    by (simp_all add: banner_frame_def del: bytes_of_string_def)
  have features: "parse_features ''device::features=shell_v2,ls_v2'' = [''shell_v2'', ''ls_v2'']" by code_simp
  have fed: "mock_pending fed_transport = wire (banner_frame # ?fs)" "list_all valid_frame (banner_frame # ?fs)"
    using fed_transport(2) valid_device_frames by (simp_all only: device_frames_parts)
  have shake: "handshake b False [] None (banner_frame # ?fs) = (Inr banner_frame, [cnxn_frame b False], False, ?fs)"
    by (simp add: handshake_def handshake_auth_def banner)
  have "unat (arg1 (header banner_frame)) < 2 ^ 31" "fits [] None" by (simp_all add: banner fits_def)
  from mock.connect_ready [OF fed_transport(1) fed this(2) shake banner(1) this(1)] obtain c where
    c: "connect b mock_ops fed_transport [] None False = (Inr (), c)"
    "conn_stage mock_good mock_pending mock_written (mock_written fed_transport @ wire [cnxn_frame b False]) c ?fs []"
    "next_local_id c = 2" "max_data c = arg1 (header banner_frame)"
    "features c = parse_features (string_of_bytes (payload banner_frame))"
    "delayed_ack c = (False \<and> kDelayedAckFeature \<in> set (features c))"
    by blast
  have "said (wire [cnxn_frame b False]) ?fs c []"
    using spoken_start_Nil [OF c(2)] by (simp add: fed_transport(3) del: wire_simps)
  from that [OF c(1) this c(3)] c(4-6) show thesis by (simp add: banner features)
qed

text \<open>The three calls of the program, one after the other on the connection, and the requests they leave behind.\<close>

lemma sample_calls:
  fixes L :: "'d Codecs" and h :: Host
  defines "h' \<equiv> \<lambda>upload. h\<lparr>files := (files h)(upload \<mapsto> uploaded (file_clock_now h)), disk_free := disk_free h - 21\<rparr>"
  assumes "files h local = None" "\<not> denied h local" "\<not> denied h upload" "read_fault h upload = None" "12 \<le> disk_free h"
  obtains c0 c1 c2 c3 f q where "connect b mock_ops fed_transport [] None False = (Inr (), c0)"
    "sync_list mock_ops ''/sdcard'' c0 = Some (Inr entries_listed, c1)"
    "sync_pull b L mock_ops ''/sdcard/file.txt'' local CompressAuto (c1, h) =
      Some (Inr (), (c2, h\<lparr>files := (files h)(local \<mapsto> f), disk_free := disk_free h - 12\<rparr>))"
    "lf_content f = bytes_of_string (''hello world'' @ nl)"
    "sync_push b L mock_ops (h' upload) upload ''/sdcard/upload.txt'' CompressAuto c2 = Some (Inr (), c3)"
    "said (wire [cnxn_frame b False]) [] c3 q"
    "\<forall>four \<in> {''LIS2'', ''RECV'', ''SEND''}. \<exists>st path. wrte_frame st (path_request (sync_id four) path) \<in> set q"
proof -
  obtain c0 where c0: "connect b mock_ops fed_transport [] None False = (Inr (), c0)"
    "said (wire [cnxn_frame b False]) (listing_frames @ file_frames @ destination_frames @ accepted_frames) c0 []"
    "next_local_id c0 = 2" "unat (max_data c0) = 4096" "features c0 = [''shell_v2'', ''ls_v2'']" "\<not> delayed_ack c0"
    by (rule sample_connected)
  obtain s1 where 1: "sync_list mock_ops ''/sdcard'' c0 = Some (Inr entries_listed, next_connection c0 s1)"
    "said (wire [cnxn_frame b False]) (file_frames @ destination_frames @ accepted_frames) (next_connection c0 s1)
       ([] @ sync_frames c0 7 (path_request kListV2 ''/sdcard''))"
    using list_call [OF c0(2-5)] by blast
  define c1 where "c1 = next_connection c0 s1"
  obtain s2 f where 2: "sync_pull b L mock_ops ''/sdcard/file.txt'' local CompressAuto (c1, h) =
      Some (Inr (), (next_connection c1 s2, h\<lparr>files := (files h)(local \<mapsto> f), disk_free := disk_free h - 12\<rparr>))"
    "lf_content f = bytes_of_string (''hello world'' @ nl)"
    "said (wire [cnxn_frame b False]) (destination_frames @ accepted_frames) (next_connection c1 s2)
       (([] @ sync_frames c0 7 (path_request kListV2 ''/sdcard''))
          @ sync_frames c1 8 (path_request kRecvV1 ''/sdcard/file.txt''))"
    using pull_call [OF 1(2) [folded c1_def] _ _ _ assms(2,3,6), of b L] c0(3-5) by (auto simp: c1_def)
  define c2 where "c2 = next_connection c1 s2"
  have h': "files (h' upload) upload = Some (uploaded (file_clock_now h))" "\<not> denied (h' upload) upload"
    "read_fault (h' upload) upload = None"
    using assms(4,5) by (simp_all add: h'_def)
  have f: "lf_regular (uploaded clock)" "length (lf_content (uploaded clock)) = 21" "lf_mode (uploaded clock) = 0x81A4" for clock
    by (simp_all add: uploaded_def)
  define q where "q = (([] @ sync_frames c0 7 (path_request kListV2 ''/sdcard''))
        @ sync_frames c1 8 (path_request kRecvV1 ''/sdcard/file.txt''))
        @ sync_frames c2 9 (path_request kStatV1 ''/sdcard/upload.txt'')
        @ open_frame 5 0 ''sync:'' # push_frames (opened ''sync:'' 5 10)
            (path_request kSendV1 ''/sdcard/upload.txt,420'') [lf_content (uploaded (file_clock_now h))] (local_mtime (h' upload) upload)
        @ [clse_frame (opened ''sync:'' 5 10)]"
  obtain c3 where 3: "sync_push b L mock_ops (h' upload) upload ''/sdcard/upload.txt'' CompressAuto c2 = Some (Inr (), c3)"
    "said (wire [cnxn_frame b False]) [] c3 q"
    using push_call [OF 2(3) [folded c2_def] _ _ _ h'(1) f(1) h'(2,3) f(2,3), of b L] c0(3-6) by (auto simp: c1_def c2_def q_def)
  have ids: "sync_id ''LIS2'' = kListV2" "sync_id ''RECV'' = kRecvV1" "sync_id ''SEND'' = kSendV1"
    by (simp_all add: kListV2_def kRecvV1_def kSendV1_def sync_id_def make_command_def)
  have "wrte_frame (opened ''sync:'' (next_local_id c0) 7) (path_request (sync_id ''LIS2'') ''/sdcard'') \<in> set q"
    "wrte_frame (opened ''sync:'' (next_local_id c1) 8) (path_request (sync_id ''RECV'') ''/sdcard/file.txt'') \<in> set q"
    "wrte_frame (opened ''sync:'' 5 10) (path_request (sync_id ''SEND'') ''/sdcard/upload.txt,420'') \<in> set q"
    by (simp_all only: ids q_def) (simp_all add: request_sent)
  then have "\<forall>four \<in> {''LIS2'', ''RECV'', ''SEND''}. \<exists>st path. wrte_frame st (path_request (sync_id four) path) \<in> set q"
    by blast
  with c0(1) 1(1) 2(1,2) 3 show thesis by (intro that [of c0 c1 c2 f c3 q]) (simp_all only: c1_def c2_def)
qed

text \<open>
  C17. The second sample, from the queued handshake to its last line: on a host whose temporary files are
  free it returns 0 with nothing on the error stream, lists the two entries, pulls the twelve bytes of
  the file and pushes its own, leaves the host's files as they were, and finds the LIST, RECV and SEND
  requests among the bytes it wrote. Which codecs the build has makes no difference.
\<close>

theorem sync_example_runs:
  fixes p :: "unit Process" and L :: "'d Codecs" and tmp :: string
  assumes "\<forall>name \<in> {''adbcpp_sync_example.txt'', ''adbcpp_sync_example_upload.txt''}.
      files (ps_host p) (path_append tmp name) = None \<and> \<not> denied (ps_host p) (path_append tmp name)
      \<and> read_fault (ps_host p) (path_append tmp name) = None"
    and "21 \<le> disk_free (ps_host p)"
  shows "\<exists>p' l1 l2 l3. sync_main b L tmp p = Some (0, p') \<and> ps_err p' = ps_err p \<and> ps_host p' = ps_host p
    \<and> ps_out p' = ps_out p @ listing_lines @ ''pulled /sdcard/file.txt (12 bytes): hello world'' @ nl
        @ ''pushed a local file to /sdcard/upload.txt'' @ nl
        @ bytes_text ''the host wrote LIS2'' (write_u32_le (sync_id ''LIS2'') @ l1)
        @ bytes_text ''the host wrote RECV'' (write_u32_le (sync_id ''RECV'') @ l2)
        @ bytes_text ''the host wrote SEND'' (write_u32_le (sync_id ''SEND'') @ l3)"
proof -
  define h local upload where "h = ps_host p" and "local = path_append tmp ''adbcpp_sync_example.txt''"
    and "upload = path_append tmp ''adbcpp_sync_example_upload.txt''"
  have host: "files h local = None" "\<not> denied h local" "read_fault h local = None" "files h upload = None"
    "\<not> denied h upload" "read_fault h upload = None" "12 \<le> disk_free h" "21 \<le> disk_free h"
    using assms by (simp_all add: h_def local_def upload_def)
  obtain c0 c1 c2 c3 f q where calls: "connect b mock_ops fed_transport [] None False = (Inr (), c0)"
    "sync_list mock_ops ''/sdcard'' c0 = Some (Inr entries_listed, c1)"
    "sync_pull b L mock_ops ''/sdcard/file.txt'' local CompressAuto (c1, h) =
      Some (Inr (), (c2, h\<lparr>files := (files h)(local \<mapsto> f), disk_free := disk_free h - 12\<rparr>))"
    "lf_content f = bytes_of_string (''hello world'' @ nl)"
    "sync_push b L mock_ops (h\<lparr>files := (files h)(upload \<mapsto> uploaded (file_clock_now h)), disk_free := disk_free h - 21\<rparr>)
       upload ''/sdcard/upload.txt'' CompressAuto c2 = Some (Inr (), c3)"
    "said (wire [cnxn_frame b False]) [] c3 q"
    "\<forall>four \<in> {''LIS2'', ''RECV'', ''SEND''}. \<exists>st path. wrte_frame st (path_request (sync_id four) path) \<in> set q"
    by (rule sample_calls [OF host(1,2,5,6,7), of b L])
  let ?line = "\<lambda>four l. bytes_text (''the host wrote '' @ four) (write_u32_le (sync_id four) @ l)"
  let ?found = "\<lambda>four l. request_text (mock_written (sess_transport (conn_session c3))) four = ?line four l"
  obtain l1 l2 l3 where l: "?found ''LIS2'' l1" "?found ''RECV'' l2" "?found ''SEND'' l3"
    using request_found [OF calls(6)] calls(7) by (meson insertCI)
  define P where "P = set_core c0 p"
  define P1 where "P1 = P\<lparr>ps_core := c1, ps_out := ps_out P @ listing_lines\<rparr>"
  define P2 where "P2 = P1\<lparr>ps_core := c2, ps_out := ps_out P1 @ ''pulled /sdcard/file.txt (12 bytes): hello world'' @ nl\<rparr>"
  define P3 where "P3 = P2\<lparr>ps_core := c3, ps_out := ps_out P2 @ ''pushed a local file to /sdcard/upload.txt'' @ nl\<rparr>"
  define P4 where "P4 = P3\<lparr>ps_out := ps_out P3 @ ?line ''LIS2'' l1 @ ?line ''RECV'' l2 @ ?line ''SEND'' l3\<rparr>"
  note states = P_def P1_def P2_def P3_def
  have sel: "ps_host P = h" "ps_host P1 = h" "ps_host P2 = h" "ps_core P = c0" "ps_core P1 = c1" "ps_core P2 = c2"
    by (simp_all add: states h_def)
  have "sync_list_part P = Some (Inr (), P1)" using list_part [of P c1] calls(2) by (simp add: sel P1_def)
  moreover have "sync_pull_part b L tmp P1 = Some (Inr (), P2)"
    using pull_part [where tmp = tmp and b = b and L = L and P = P1 and c = c2 and f = f] calls(3,4) host(1-3,7)
    by (simp add: sel P2_def local_def)
  moreover have "sync_push_part b L tmp P2 = Some (Inr (), P3)"
    using push_part [where tmp = tmp and b = b and L = L and P = P2 and c = c3] calls(5) host(4,5,8)
    by (simp add: sel P3_def upload_def)
  moreover have "sync_requests_part P3 = Some (Inr (), P4)"
    using l by (simp add: sync_requests_part_def print_def P3_def P4_def)
  ultimately have "sync_main b L tmp p = Some (0, set_core () P4)"
    using calls(1) by (simp add: sync_main_def run_main_def bind_io_def seq_simps P_def)
  then show ?thesis by (intro exI [of _ "set_core () P4"] exI conjI) (simp_all add: states P4_def)
qed

definition fresh_host :: Host where
  "fresh_host =
     \<lparr>files = \<lambda>_. None, denied = \<lambda>_. False, disk_free = 100, read_fault = \<lambda>_. None, system_now = 0, file_clock_now = 0\<rparr>"

theorem sync_example_runs_witness:
  "\<exists>p' l1 l2 l3. sync_main sample_build sample_codecs ''/tmp''
        \<lparr>ps_core = (), ps_host = fresh_host, ps_out = [], ps_err = [], ps_pauses = []\<rparr> = Some (0, p')
    \<and> ps_host p' = fresh_host
    \<and> ps_out p' = listing_lines @ ''pulled /sdcard/file.txt (12 bytes): hello world'' @ nl
        @ ''pushed a local file to /sdcard/upload.txt'' @ nl
        @ bytes_text ''the host wrote LIS2'' (write_u32_le (sync_id ''LIS2'') @ l1)
        @ bytes_text ''the host wrote RECV'' (write_u32_le (sync_id ''RECV'') @ l2)
        @ bytes_text ''the host wrote SEND'' (write_u32_le (sync_id ''SEND'') @ l3)"
  using sync_example_runs [of "\<lparr>ps_core = (), ps_host = fresh_host, ps_out = [], ps_err = [], ps_pauses = []\<rparr>" "''/tmp''"
      sample_build sample_codecs]
  by (simp add: fresh_host_def) fast

end
