(* ===== verification/Adb_Poll.thy ===== *)
theory Adb_Poll
  imports Adb_Tools Adb_Samples
begin

text \<open>
  The program \<open>examples/poll/main.cpp\<close>: two loopback listeners stand in for devices, each served by a thread,
  and one thread drives both connections by waiting on their transports at once.

  The calls of a listening socket are the record \<open>Listening\<close>; an accepted one is used through \<open>Sockets\<close>. Every
  device has its own part of the operating system's state, since it has its own sockets. What the
  serving thread does is in the environment of the client's socket, as any peer is, and the other way round.
  \<open>std::exit\<close> in a serving thread ends the process and destroys nothing.
\<close>

section \<open>Listeners\<close>

record 'o Listening =
  ls_socket :: "'o \<Rightarrow> int \<times> 'o"
  ls_reuse :: "int \<Rightarrow> 'o \<Rightarrow> 'o"
  ls_bind :: "int \<Rightarrow> 'o \<Rightarrow> int \<times> 'o"
  ls_listen :: "int \<Rightarrow> int \<Rightarrow> 'o \<Rightarrow> int \<times> 'o"
  ls_port :: "int \<Rightarrow> 'o \<Rightarrow> nat"
  ls_accept :: "int \<Rightarrow> 'o \<Rightarrow> int \<times> 'o"
  ls_close :: "int \<Rightarrow> 'o \<Rightarrow> 'o"

definition kDeviceId :: u32 where "kDeviceId = 7"

text \<open>\<open>std::exit(1)\<close>, without a text.\<close>

definition exit_1 :: Error where "exit_1 = mk_error Io []"

record Loopback =
  lb_listener :: int
  lb_port :: nat

definition loopback_new :: "'o Listening \<Rightarrow> ('o, Loopback) st" where
  "loopback_new K os =
     (case ls_socket K os of
        (listener, o1) \<Rightarrow>
          if listener = kInvalidSocket then (Inl exit_1, o1)
          else (case ls_bind K listener (ls_reuse K listener o1) of
            (rc, o2) \<Rightarrow>
              if rc \<noteq> 0 then (Inl exit_1, o2)
              else (case ls_listen K listener 1 o2 of
                (rc, o3) \<Rightarrow>
                  if rc \<noteq> 0 then (Inl exit_1, o3)
                  else (Inr \<lparr>lb_listener = listener, lb_port = ls_port K listener o3\<rparr>, o3))))"

definition loopback_destroy :: "'o Listening \<Rightarrow> Loopback \<Rightarrow> 'o \<Rightarrow> 'o" where
  "loopback_destroy K lb os = (if lb_listener lb \<noteq> kInvalidSocket then ls_close K (lb_listener lb) os else os)"

definition loopback_endpoint :: "Loopback \<Rightarrow> string" where
  "loopback_endpoint lb = ''127.0.0.1:'' @ to_string (lb_port lb)"

definition loopback_accept :: "'o Listening \<Rightarrow> Loopback \<Rightarrow> 'o \<Rightarrow> int \<times> 'o" where
  "loopback_accept K lb os = ls_accept K (lb_listener lb) os"

section \<open>The device's side\<close>

text \<open>\<open>read_exact\<close>: \<open>acc\<close> is the part of the buffer that is filled.\<close>

function device_read_from :: "('o, 'a) Sockets \<Rightarrow> int \<Rightarrow> nat \<Rightarrow> byte list \<Rightarrow> ('o, byte list) st" where
  "device_read_from N sock n acc os =
     (if length acc < n then
        (case so_recv N sock (int_of_size (n - length acc)) os of
           (None, o1) \<Rightarrow> (Inl exit_1, o1)
         | (Some bs, o1) \<Rightarrow> if bs = [] then (Inl exit_1, o1) else device_read_from N sock n (acc @ bs) o1)
      else (Inr acc, os))"
  by pat_completeness auto
termination by (relation "measure (\<lambda>(N, sock, n, acc, os). n - length acc)")
    (auto intro!: diff_less_mono2)

declare device_read_from.simps [simp del]

definition device_read_frame :: "('o, 'a) Sockets \<Rightarrow> int \<Rightarrow> ('o, Frame) st" where
  "device_read_frame N sock =
     bind_st (device_read_from N sock kMessageHeaderSize [])
       (\<lambda>bytes. let h = decode bytes in
         bind_st (if data_length h \<noteq> 0 then device_read_from N sock (unat (data_length h)) [] else ok_st [])
           (\<lambda>p. ok_st \<lparr>header = h, payload = p\<rparr>))"

definition device_write_frame :: "('o, 'a) Sockets \<Rightarrow> int \<Rightarrow> u32 \<Rightarrow> u32 \<Rightarrow> u32 \<Rightarrow> byte list \<Rightarrow> 'o \<Rightarrow> 'o" where
  "device_write_frame N sock cmd a0 a1 bs os =
     (let h = \<lparr>command = cmd, arg0 = a0, arg1 = a1, data_length = of_nat (length bs),
                data_check = compute_checksum bs, magic = compute_magic cmd\<rparr>;
          o1 = snd (so_send N sock (encode h) (int_of_size (length (encode h))) os) in
      if bs \<noteq> [] then snd (so_send N sock bs (int_of_size (length bs)) o1) else o1)"

partial_function (option) device_drain :: "('o, 'a) Sockets \<Rightarrow> int \<Rightarrow> 'o \<Rightarrow> 'o option" where
  "device_drain N sock os =
     (case so_recv N sock 1024 os of
        (None, o1) \<Rightarrow> Some o1
      | (Some bs, o1) \<Rightarrow> if bs = [] then Some o1 else device_drain N sock o1)"

declare device_drain.simps [code]

definition serve_device :: "('o, 'a) Sockets \<Rightarrow> int \<Rightarrow> string \<Rightarrow> 'o \<Rightarrow> (unit Result \<times> 'o) option" where
  "serve_device N sock output os =
     (case device_read_frame N sock os of
        (Inl e, o1) \<Rightarrow> Some (Inl e, o1)
      | (Inr cnxn, o1) \<Rightarrow>
          if command (header cnxn) \<noteq> kCnxn then Some (Inl exit_1, o1)
          else
            (case device_read_frame N sock
                (device_write_frame N sock kCnxn 0x01000001 4096 (bytes_of_string ''device::features='') o1) of
               (Inl e, o2) \<Rightarrow> Some (Inl e, o2)
             | (Inr open, o2) \<Rightarrow>
                 let remote = arg0 (header open);
                     o3 = device_write_frame N sock kOkay kDeviceId remote [] o2;
                     o4 = device_write_frame N sock kWrte kDeviceId remote (bytes_of_string output) o3 in
                 (case device_read_frame N sock o4 of
                    (Inl e, o5) \<Rightarrow> Some (Inl e, o5)
                  | (Inr okay, o5) \<Rightarrow>
                      if command (header okay) \<noteq> kOkay then Some (Inl exit_1, o5)
                      else map_option (Pair (Inr ()))
                        (device_drain N sock (device_write_frame N sock kClse kDeviceId remote [] o5)))))"

text \<open>The body of a serving thread.\<close>

definition serving_thread ::
  "'o Listening \<Rightarrow> ('o, 'a) Sockets \<Rightarrow> Loopback \<Rightarrow> string \<Rightarrow> 'o \<Rightarrow> (unit Result \<times> 'o) option" where
  "serving_thread K N lb output os =
     (case loopback_accept K lb os of
        (sock, o1) \<Rightarrow>
          (case serve_device N sock output o1 of
             None \<Rightarrow> None
           | Some (Inl e, o2) \<Rightarrow> Some (Inl e, o2)
           | Some (Inr _, o2) \<Rightarrow> Some (Inr (), ls_close K sock o2)))"

section \<open>The client\<close>

text \<open>Opening one device: transport, connection, stream. What was opened is destroyed when a later step fails.\<close>

definition poll_service :: string where "poll_service = ''shell:echo hello''"

definition poll_connect :: "Build \<Rightarrow> 't Transport_ops \<Rightarrow> 't \<Rightarrow> ((Error \<times> 't) + 't streaming) option" where
  "poll_connect b T t =
     (case connect b T t [] None False of
        (Inl e, c) \<Rightarrow> Some (Inl (e, sess_transport (conn_session c)))
      | (Inr _, c) \<Rightarrow>
          (case stream_open T poll_service c of
             None \<Rightarrow> None
           | Some (Inl e, c') \<Rightarrow> Some (Inl (e, sess_transport (conn_session c')))
           | Some (Inr st, c') \<Rightarrow> Some (Inr (st, c'))))"

definition poll_open ::
  "Build \<Rightarrow> ('o, 'a) Sockets \<Rightarrow> string \<Rightarrow> 'o \<Rightarrow> ((Error \<times> 'o) + 'o tcp streaming) option" where
  "poll_open b N endpoint os =
     (case tcp_open N endpoint kDefaultConnectTimeoutMs kDefaultTransferTimeoutMs kDefaultTransferBudgetMs os of
        (Inl e, o1) \<Rightarrow> Some (Inl (e, o1))
      | (Inr t, o1) \<Rightarrow>
          map_option (map_sum (map_prod id (tcp_destroy N)) id) (poll_connect b (tcp_ops N) (t, o1)))"

fun poll_open_all ::
  "Build \<Rightarrow> ('o, 'a) Sockets \<Rightarrow> (string \<times> 'o) list \<Rightarrow> 'o tcp streaming list \<Rightarrow> (Error + 'o tcp streaming list) option" where
  "poll_open_all b N [] devices = Some (Inr devices)"
| "poll_open_all b N ((endpoint, os) # rest) devices =
     (case poll_open b N endpoint os of
        None \<Rightarrow> None
      | Some (Inl (e, _)) \<Rightarrow> Some (Inl e)
      | Some (Inr S) \<Rightarrow> poll_open_all b N rest (devices @ [S]))"

text \<open>
  The loop over the devices that are not done. The program has two; the model takes any number, over any
  transport. \<open>False\<close> is a \<open>return 1\<close>.
\<close>

definition transport_of :: "'t streaming \<Rightarrow> 't" where
  "transport_of S = sess_transport (conn_session (snd S))"

definition with_transport :: "'t streaming \<Rightarrow> 't \<Rightarrow> 't streaming" where
  "with_transport S t = (fst S, (snd S)\<lparr>conn_session := (conn_session (snd S))\<lparr>sess_transport := t\<rparr>\<rparr>)"

definition says :: "nat \<Rightarrow> byte list \<Rightarrow> string" where
  "says index output = ''device '' @ to_string index @ '' says: '' @ string_of_bytes output"

partial_function (option) poll_loop ::
  "'t Transport_ops \<Rightarrow> ('c \<Rightarrow> int) \<Rightarrow> (int \<Rightarrow> 'c \<Rightarrow> 'c) \<Rightarrow> bool list \<Rightarrow> 't streaming list \<Rightarrow> 'c Process
     \<Rightarrow> (bool \<times> 't streaming list \<times> 'c Process) option" where
  "poll_loop T now sleep finished devices p =
     (if False \<notin> set finished then Some (True, devices, p)
      else (case wait_readable T now sleep (map transport_of devices) 5000 (ps_core p) of
         None \<Rightarrow> None
       | Some (readable, ts, c) \<Rightarrow>
           let ds = map2 with_transport devices ts; p1 = p\<lparr>ps_core := c\<rparr> in
           (case readable of
              Inl e \<Rightarrow> Some (False, ds, p1\<lparr>ps_err := ps_err p1 @ ''error: '' @ err_message e @ nl\<rparr>)
            | Inr None \<Rightarrow> Some (False, ds, p1\<lparr>ps_err := ps_err p1 @ ''timed out waiting for a device'' @ nl\<rparr>)
            | Inr (Some index) \<Rightarrow>
                (case read_all T (ds ! index) of
                   None \<Rightarrow> None
                 | Some (Inl e, S) \<Rightarrow>
                     Some (False, ds[index := S], p1\<lparr>ps_err := ps_err p1 @ ''error: '' @ err_message e @ nl\<rparr>)
                 | Some (Inr output, S) \<Rightarrow>
                     poll_loop T now sleep (finished[index := True]) (ds[index := S])
                       (p1\<lparr>ps_out := ps_out p1 @ says index output\<rparr>)))))"

declare poll_loop.simps [code]

text \<open>What becomes of a device at the end: the connection is closed, then the objects are destroyed.\<close>

definition poll_finish :: "'o Listening \<Rightarrow> ('o, 'a) Sockets \<Rightarrow> Loopback \<Rightarrow> 'o tcp streaming \<Rightarrow> 'o" where
  "poll_finish K N lb S =
     (case S of (st, c) \<Rightarrow>
        loopback_destroy K lb
          (tcp_destroy N (transport_of (st, stream_destroy (tcp_ops N) (st, connection_close (tcp_ops N) c)))))"

text \<open>
  The program, with the state of the operating system it leaves for each device. From the start of the
  serving threads until they are joined a \<open>return 1\<close> destroys two \<open>std::thread\<close>s that are still joinable,
  which is \<open>std::terminate\<close>: the process is aborted.
\<close>

definition poll_main ::
  "Build \<Rightarrow> 'o Listening \<Rightarrow> ('o, 'a) Sockets \<Rightarrow> ('c \<Rightarrow> int) \<Rightarrow> (int \<Rightarrow> 'c \<Rightarrow> 'c) \<Rightarrow> 'o \<times> 'o \<Rightarrow> 'c Process
     \<Rightarrow> (ended \<times> 'o list \<times> 'c Process) option" where
  "poll_main b K N now sleep oss p =
     (case loopback_new K (fst oss) of
        (Inl _, o0) \<Rightarrow> Some (Exited 1, [o0, snd oss], p)
      | (Inr lb0, o0) \<Rightarrow>
          (case loopback_new K (snd oss) of
             (Inl _, o1) \<Rightarrow> Some (Exited 1, [o0, o1], p)
           | (Inr lb1, o1) \<Rightarrow>
               (case poll_open_all b N [(loopback_endpoint lb0, o0), (loopback_endpoint lb1, o1)] [] of
                  None \<Rightarrow> None
                | Some (Inl e) \<Rightarrow> Some (Aborted, [], p\<lparr>ps_err := ps_err p @ ''error: '' @ err_message e @ nl\<rparr>)
                | Some (Inr devices) \<Rightarrow>
                    (case poll_loop (tcp_ops N) now sleep [False, False] devices p of
                       None \<Rightarrow> None
                     | Some (False, ds, p') \<Rightarrow> Some (Aborted, [], p')
                     | Some (True, ds, p') \<Rightarrow> Some (Exited 0, map2 (poll_finish K N) [lb0, lb1] ds, p')))))"

end
