(* ===== verification/Adb_Poll_Spec.thy ===== *)
theory Adb_Poll_Spec
  imports Adb_Poll
begin

text \<open>
  The polling program: the two sides of an exchange fit together, and the loop serves every device, in
  whatever order they become readable.
\<close>

section \<open>The device's side\<close>

text \<open>
  A connected socket without timeouts: \<open>recv\<close> hands out a part of the bytes the peer ever sends, and nothing
  only after their end; \<open>send\<close> takes all of a small piece.
\<close>

definition blocking_socket :: "('o, 'a) Sockets \<Rightarrow> int \<Rightarrow> ('o \<Rightarrow> byte list) \<Rightarrow> ('o \<Rightarrow> byte list) \<Rightarrow> bool" where
  "blocking_socket N sock inb outb \<longleftrightarrow>
     (\<forall>os n. 0 < n \<and> n < 2 ^ 31 \<longrightarrow>
        (\<exists>bs o1. so_recv N sock (int n) os = (Some bs, o1) \<and> length bs \<le> n \<and> (inb os \<noteq> [] \<longrightarrow> bs \<noteq> [])
           \<and> inb os = bs @ inb o1 \<and> outb o1 = outb os))
     \<and> (\<forall>os bs k o1. length bs < 2 ^ 31 \<and> so_send N sock bs (int (length bs)) os = (k, o1) \<longrightarrow>
           inb o1 = inb os \<and> outb o1 = outb os @ bs)"

lemma blocking_recv:
  assumes "blocking_socket N sock inb outb" "0 < n" "n < 2 ^ 31"
  obtains bs o1 where "so_recv N sock (int_of_size n) os = (Some bs, o1)" "length bs \<le> n" "inb os \<noteq> [] \<Longrightarrow> bs \<noteq> []"
    "inb os = bs @ inb o1" "outb o1 = outb os"
  using assms unfolding blocking_socket_def int_of_size_small [OF assms(3)] by meson

lemma blocking_send:
  assumes "blocking_socket N sock inb outb" "length bs < 2 ^ 31"
  shows "inb (snd (so_send N sock bs (int_of_size (length bs)) os)) = inb os"
    "outb (snd (so_send N sock bs (int_of_size (length bs)) os)) = outb os @ bs"
  using assms unfolding blocking_socket_def int_of_size_small [OF assms(2)] by (metis prod.collapse)+

lemma device_read_data:
  assumes "blocking_socket N sock inb outb" "length acc \<le> n" "n < 2 ^ 31" "n - length acc \<le> length (inb os)"
  shows "\<exists>o1. device_read_from N sock n acc os = (Inr (acc @ take (n - length acc) (inb os)), o1)
    \<and> inb o1 = drop (n - length acc) (inb os) \<and> outb o1 = outb os"
  using assms(2,4)
proof (induction "n - length acc" arbitrary: acc os rule: less_induct)
  case less
  show ?case
  proof (cases "length acc < n")
    case False
    with less.prems show ?thesis by (simp add: device_read_from.simps)
  next
    case True
    then have "0 < n - length acc" "n - length acc < 2 ^ 31" "inb os \<noteq> []" using assms(3) less.prems by auto
    then obtain bs o1 where rd: "so_recv N sock (int_of_size (n - length acc)) os = (Some bs, o1)"
      "length bs \<le> n - length acc" "bs \<noteq> []" "inb os = bs @ inb o1" "outb o1 = outb os"
      by (metis blocking_recv [OF assms(1), of "n - length acc" os])
    have "length (acc @ bs) \<le> n" "n - length (acc @ bs) < n - length acc" "n - length (acc @ bs) \<le> length (inb o1)"
      using rd True less.prems by (simp_all add: diff_less_mono2)
    from less.hyps [OF this(2,1,3)] rd True show ?thesis
      by (auto simp: device_read_from.simps [of N sock n acc os])
  qed
qed

lemma device_read_frame_spec:
  assumes "blocking_socket N sock inb outb" "unat (data_length (header f)) = length (payload f)"
    and "length (payload f) < 2 ^ 31" "inb os = encode_frame f @ rest"
  shows "\<exists>o1. device_read_frame N sock os = (Inr f, o1) \<and> inb o1 = rest \<and> outb o1 = outb os"
proof -
  let ?h = "header f" and ?p = "payload f" and ?N = kMessageHeaderSize
  have N: "?N < 2 ^ 31" by (simp add: kMessageHeaderSize_def)
  obtain o1 where 1: "device_read_from N sock ?N [] os = (Inr (encode ?h), o1)" "inb o1 = ?p @ rest" "outb o1 = outb os"
    using device_read_data [OF assms(1), of "[]" ?N os] N assms(4) by (auto simp: encode_frame_def)
  show ?thesis
  proof (cases "data_length ?h = 0")
    case True
    then have "?p = []" using assms(2) by simp
    with 1 True show ?thesis by (auto simp: device_read_frame_def seq_simps Let_def intro: Frame_eta [of f, unfolded \<open>?p = []\<close>])
  next
    case False
    obtain o2 where "device_read_from N sock (length ?p) [] o1 = (Inr ?p, o2)" "inb o2 = rest" "outb o2 = outb o1"
      using device_read_data [OF assms(1), of "[]" "length ?p" o1] assms(3) 1(2) by auto
    with 1 False show ?thesis by (auto simp: device_read_frame_def seq_simps Let_def assms(2) Frame_eta)
  qed
qed

lemma device_write_frame_spec:
  assumes "blocking_socket N sock inb outb" "length bs < 2 ^ 31"
  shows "inb (device_write_frame N sock cmd a0 a1 bs os) = inb os"
    "outb (device_write_frame N sock cmd a0 a1 bs os) = outb os @ encode_frame (frame_of (cmd, a0, a1, bs))"
proof -
  let ?h = "device_header cmd a0 a1 bs"
  let ?o = "snd (so_send N sock (encode ?h) (int_of_size (length (encode ?h))) os)"
  have "length (encode ?h) < 2 ^ 31" by (simp add: kMessageHeaderSize_def)
  note head = blocking_send [OF assms(1) this, of os] and body = blocking_send [OF assms, of ?o]
  have eq: "device_write_frame N sock cmd a0 a1 bs os =
      (if bs \<noteq> [] then snd (so_send N sock bs (int_of_size (length bs)) ?o) else ?o)"
    by (simp only: device_write_frame_def device_header_def Let_def)
  have enc: "encode_frame (frame_of (cmd, a0, a1, bs)) = encode ?h @ bs"
    by (simp add: encode_frame_def frame_of_def)
  have "outb ?o = outb os @ encode ?h @ bs" if "bs = []"
    using head(2) that by (metis append_Nil2)
  moreover have "outb (snd (so_send N sock bs (int_of_size (length bs)) ?o)) = outb os @ encode ?h @ bs"
    by (simp only: body head append_assoc)
  ultimately show "outb (device_write_frame N sock cmd a0 a1 bs os) = outb os @ encode_frame (frame_of (cmd, a0, a1, bs))"
    unfolding eq enc by (split if_split) blast
  show "inb (device_write_frame N sock cmd a0 a1 bs os) = inb os"
    unfolding eq using head(1) trans [OF body(1) head(1)] by (split if_split) blast
qed

lemma device_drain_spec:
  assumes "blocking_socket N sock inb outb"
  shows "\<exists>o1. device_drain N sock os = Some o1 \<and> inb o1 = [] \<and> outb o1 = outb os"
proof (induction "length (inb os)" arbitrary: os rule: less_induct)
  case less
  have n: "0 < (1024 :: nat)" "(1024 :: nat) < 2 ^ 31" by simp_all
  obtain bs o1 where rd: "so_recv N sock (int_of_size 1024) os = (Some bs, o1)" "length bs \<le> 1024"
    "inb os \<noteq> [] \<Longrightarrow> bs \<noteq> []" "inb os = bs @ inb o1" "outb o1 = outb os"
    by (rule blocking_recv [OF assms n, of os]) (rule that)
  then have rd': "so_recv N sock 1024 os = (Some bs, o1)" by (simp add: int_of_size_small)
  show ?case
  proof (cases "bs = []")
    case True
    with rd rd' show ?thesis by (subst device_drain.simps) auto
  next
    case False
    then have "length (inb o1) < length (inb os)" using rd(4) by simp
    from less [OF this] rd(5) rd' False show ?thesis by (subst device_drain.simps) simp
  qed
qed

text \<open>What the client of the program writes and what the device answers to it.\<close>

definition poll_requests :: "Build \<Rightarrow> Frame list" where
  "poll_requests b = [cnxn_frame b False, open_frame 2 0 poll_service, okay_frame (opened poll_service 2 kDeviceId)]"

definition poll_replies :: "string \<Rightarrow> Frame list" where
  "poll_replies output = map frame_of
     [(kCnxn, 0x01000001, 4096, bytes_of_string ''device::features=''), (kOkay, kDeviceId, 2, []),
      (kWrte, kDeviceId, 2, bytes_of_string output), (kClse, kDeviceId, 2, [])]"

lemma poll_requests_sizes:
  "f \<in> set (poll_requests b) \<Longrightarrow> unat (data_length (header f)) = length (payload f) \<and> length (payload f) < 2 ^ 31"
  using length_host_identity [of b False]
  by (auto simp: poll_requests_def cnxn_frame_def cnxn_message_def open_frame_def okay_frame_def make_empty_message_def
      empty_Message_def poll_service_def Let_def unat_of_nat)

lemma serve_device_spec:
  assumes "blocking_socket N sock inb outb" "inb os = wire (poll_requests b)" "length output < 2 ^ 31"
  shows "\<exists>os'. serve_device N sock output os = Some (Inr (), os') \<and> outb os' = outb os @ wire (poll_replies output)"
proof -
  have ins: "inb os = encode_frame (cnxn_frame b False) @ encode_frame (open_frame 2 0 poll_service)
      @ encode_frame (okay_frame (opened poll_service 2 kDeviceId))"
    using assms(2) by (simp add: poll_requests_def)
  have size: "unat (data_length (header f)) = length (payload f)" "length (payload f) < 2 ^ 31"
    if "f \<in> set (poll_requests b)" for f
    using poll_requests_sizes [OF that] by simp_all
  have read: "\<exists>o1. device_read_frame N sock o0 = (Inr f, o1) \<and> inb o1 = rest \<and> outb o1 = outb o0"
    if "f \<in> set (poll_requests b)" "inb o0 = encode_frame f @ rest" for f o0 rest
    by (rule device_read_frame_spec [OF assms(1) size [OF that(1)] that(2)])
  note sent = device_write_frame_spec [OF assms(1)]
  obtain o1 where 1: "device_read_frame N sock os = (Inr (cnxn_frame b False), o1)" "outb o1 = outb os"
    "inb o1 = encode_frame (open_frame 2 0 poll_service) @ encode_frame (okay_frame (opened poll_service 2 kDeviceId))"
    using read [OF _ ins] by (auto simp: poll_requests_def)
  define w1 where "w1 = device_write_frame N sock kCnxn 0x01000001 4096 (bytes_of_string ''device::features='') o1"
  have w1: "inb w1 = inb o1" "outb w1 = outb os @ encode_frame (frame_of (kCnxn, 0x01000001, 4096, bytes_of_string ''device::features=''))"
    by (simp_all add: w1_def sent 1(2) del: bytes_of_string_def)
  obtain o2 where 2: "device_read_frame N sock w1 = (Inr (open_frame 2 0 poll_service), o2)" "outb o2 = outb w1"
    "inb o2 = encode_frame (okay_frame (opened poll_service 2 kDeviceId)) @ []"
    using read [of "open_frame 2 0 poll_service" w1] 1(3) w1(1) by (auto simp: poll_requests_def)
  define w2 where "w2 = device_write_frame N sock kWrte kDeviceId 2 (bytes_of_string output)
      (device_write_frame N sock kOkay kDeviceId 2 [] o2)"
  have w2: "inb w2 = inb o2" "outb w2 = outb o2 @ encode_frame (frame_of (kOkay, kDeviceId, 2, []))
      @ encode_frame (frame_of (kWrte, kDeviceId, 2, bytes_of_string output))"
    using assms(3) by (simp_all add: w2_def sent)
  obtain o3 where 3: "device_read_frame N sock w2 = (Inr (okay_frame (opened poll_service 2 kDeviceId)), o3)" "outb o3 = outb w2"
    using read [of "okay_frame (opened poll_service 2 kDeviceId)" w2 "[]"] 2(3) w2(1) by (auto simp: poll_requests_def)
  obtain o4 where 4: "device_drain N sock (device_write_frame N sock kClse kDeviceId 2 [] o3) = Some o4"
    "outb o4 = outb o3 @ encode_frame (frame_of (kClse, kDeviceId, 2, []))"
    using device_drain_spec [OF assms(1), of "device_write_frame N sock kClse kDeviceId 2 [] o3"] by (auto simp: sent)
  have cmds: "command (header (cnxn_frame b False)) = kCnxn" "arg0 (header (open_frame 2 0 poll_service)) = 2"
    "command (header (okay_frame (opened poll_service 2 kDeviceId))) = kOkay"
    by (simp_all add: cnxn_frame_def cnxn_message_def open_frame_def okay_frame_def make_empty_message_def Let_def empty_Message_def)
  have "serve_device N sock output os = Some (Inr (), o4)"
    by (simp add: serve_device_def 1(1) w1_def [symmetric] 2(1) w2_def [symmetric] 3(1) 4(1) cmds Let_def)
  moreover have "outb o4 = outb os @ wire (poll_replies output)"
    by (simp add: 4(2) 3(2) w2(2) 2(2) w1(2) poll_replies_def)
  ultimately show ?thesis by blast
qed

section \<open>The client's side\<close>

definition poll_banner :: Frame where
  "poll_banner = frame_of (kCnxn, 0x01000001, 4096, bytes_of_string ''device::features='')"

definition poll_stream :: "string \<Rightarrow> Frame list" where
  "poll_stream output = map frame_of
     [(kWrte, kDeviceId, 2, bytes_of_string output), (kClse, kDeviceId, 2, [])]"

lemma valid_frame_of_max: "length bs \<le> unat kMaxData \<Longrightarrow> valid_frame (frame_of (cmd, a0, a1, bs))"
  by (simp add: valid_frame_def frame_of_def device_header_def unat_of_nat kMaxData_def)

lemma poll_replies_parts:
  "poll_replies output = poll_banner # frame_of (kOkay, kDeviceId, 2, []) # poll_stream output"
  by (simp add: poll_replies_def poll_banner_def poll_stream_def)

lemma valid_poll_replies: "length output \<le> unat kMaxData \<Longrightarrow> list_all valid_frame (poll_replies output)"
  by (simp add: poll_replies_def valid_frame_of_max)

lemma poll_stream_events:
  "stream_data 2 (poll_stream output) = bytes_of_string output" "stream_end 2 (poll_stream output) = Closed"
  "stream_end 2 (butlast (poll_stream output)) = End"
  by (simp_all add: poll_stream_def)

lemma poll_shake: "handshake b False [] None (poll_replies output) =
    (Inr poll_banner, [cnxn_frame b False], False, frame_of (kOkay, kDeviceId, 2, []) # poll_stream output)"
  by (simp add: poll_replies_parts handshake_def handshake_auth_def poll_banner_def)

lemma poll_banner_sel: "command (header poll_banner) = kCnxn" "arg1 (header poll_banner) = 4096"
  by (simp_all add: poll_banner_def)

text \<open>A stream that ends with the last of the device's frames is read to that frame.\<close>

lemma closed_by_last:
  assumes "stream_end lid (used @ gs) = Closed" "stream_end lid used = Closed" "stream_end lid (butlast (used @ gs)) = End"
  shows "gs = []"
proof (rule ccontr)
  assume "gs \<noteq> []"
  then have "stream_end lid (used @ butlast gs) = End" using assms(3) by (simp add: butlast_append)
  with assms(2) show False by (simp add: stream_end_append)
qed

context byte_channel
begin

lemma read_whole:
  assumes "conn_stage good pending sent base c fs out" "stream_end (local_id st) fs = Closed"
    and "stream_end (local_id st) (butlast fs) = End"
  obtains st' s' where "read_all T (st, c) = Some (Inr (view st fs), (st', c\<lparr>conn_session := s'\<rparr>))"
    "stage good pending sent base s' [] (out @ acks st fs)"
proof -
  have fs: "conn_stage good pending sent base c (fs @ []) out" using assms(1) by simp
  obtain st' s' used gs where r: "read_all T (st, c) =
      Some (if stream_end (local_id st) fs = Closed then Inr (view st fs)
            else Inl (end_error (stream_end (local_id st) fs)), (st', c\<lparr>conn_session := s'\<rparr>))"
    "fs = used @ gs" "stage good pending sent base s' (gs @ []) (out @ acks st used)"
    "stream_end (local_id st) fs = Closed \<longrightarrow> stream_end (local_id st) used = Closed"
    using read_all_spec [OF fs disjI1 [OF refl], of st] by (elim exE conjE)
  have "gs = []"
    using assms(2,3) r(4) closed_by_last [of "local_id st" used gs] by (simp add: r(2))
  with r assms(2) show thesis by (intro that [of st' s']) simp_all
qed

text \<open>Opening a device leaves its output to be read; reading it completes what the client writes.\<close>

lemma poll_opened:
  assumes "good t" "pending t = wire (poll_replies output)" "length output \<le> unat kMaxData"
  obtains c where "poll_connect b T t = Some (Inr (opened poll_service 2 kDeviceId, c))"
    "conn_stage good pending sent (sent t @ wire [cnxn_frame b False]) c (poll_stream output) [open_frame 2 0 poll_service]"
proof -
  have "fits [] None" by (simp add: fits_def)
  moreover have "unat (arg1 (header poll_banner)) < 2 ^ 31" by (simp add: poll_banner_sel)
  ultimately obtain c where c: "connect b T t [] None False = (Inr (), c)"
    "conn_stage good pending sent (sent t @ wire [cnxn_frame b False]) c
       (frame_of (kOkay, kDeviceId, 2, []) # poll_stream output) []" "next_local_id c = 2"
    "delayed_ack c = (False \<and> kDelayedAckFeature \<in> set (features c))"
    using connect_ready [OF assms(1,2) valid_poll_replies [OF assms(3)] _ poll_shake poll_banner_sel(1)] by metis
  have reply: "open_reply 2 (frame_of (kOkay, kDeviceId, 2, []) # poll_stream output) = (Inr kDeviceId, poll_stream output)"
    by (simp add: open_reply_def)
  obtain s1 where o: "stream_open T poll_service c =
      Some (Inr (opened poll_service 2 kDeviceId), c\<lparr>next_local_id := 3, conn_session := s1\<rparr>)"
    "stage good pending sent (sent t @ wire [cnxn_frame b False]) s1 (poll_stream output) [open_frame 2 0 poll_service]"
    using stream_open_spec [OF c(2), of poll_service] by (auto simp: c(3,4) reply poll_service_def)
  show thesis
    by (rule that [of "c\<lparr>next_local_id := 3, conn_session := s1\<rparr>"]) (use c(2) o in \<open>simp_all add: poll_connect_def c(1)\<close>)
qed

lemma poll_client:
  assumes "good t" "pending t = wire (poll_replies output)" "length output \<le> unat kMaxData"
  shows "\<exists>S S'. poll_connect b T t = Some (Inr S) \<and> read_all T S = Some (Inr (bytes_of_string output), S')
    \<and> sent (transport_of S') = sent t @ wire (poll_requests b)"
proof -
  let ?st = "opened poll_service 2 kDeviceId"
  obtain c where c: "poll_connect b T t = Some (Inr (?st, c))"
    "conn_stage good pending sent (sent t @ wire [cnxn_frame b False]) c (poll_stream output) [open_frame 2 0 poll_service]"
    by (rule poll_opened [OF assms])
  obtain st' s' where r: "read_all T (?st, c) = Some (Inr (view ?st (poll_stream output)), (st', c\<lparr>conn_session := s'\<rparr>))"
    "stage good pending sent (sent t @ wire [cnxn_frame b False]) s' [] ([open_frame 2 0 poll_service] @ acks ?st (poll_stream output))"
    by (rule read_whole [OF c(2), of ?st]) (simp_all add: poll_stream_events)
  have "acks ?st (poll_stream output) = [okay_frame ?st]"
    by (simp add: acks_def writes_for_def poll_stream_def)
  then have "sent (transport_of (st', c\<lparr>conn_session := s'\<rparr>)) = sent t @ wire (poll_requests b)"
    using r(2) by (simp add: stage_def outbox_def transport_of_def poll_requests_def)
  moreover have "view ?st (poll_stream output) = bytes_of_string output"
    by (simp add: view_def poll_stream_events)
  ultimately show ?thesis
    using r(1) c(1) by (intro exI conjI) simp_all
qed

end

section \<open>The loop\<close>

text \<open>
  What the loop needs of the wait: when some transport still has bytes to come, one of those is reported
  within the five seconds, and asking changes no transport.
\<close>

definition fair_wait ::
  "'t Transport_ops \<Rightarrow> ('c \<Rightarrow> int) \<Rightarrow> (int \<Rightarrow> 'c \<Rightarrow> 'c) \<Rightarrow> ('t \<Rightarrow> bool) \<Rightarrow> ('t \<Rightarrow> byte list) \<Rightarrow> ('t \<Rightarrow> byte list) \<Rightarrow> bool" where
  "fair_wait T now sleep good pending sent \<longleftrightarrow>
     (\<forall>ts c. (\<forall>t \<in> set ts. good t) \<and> (\<exists>t \<in> set ts. pending t \<noteq> []) \<longrightarrow>
        (\<exists>i us c'. wait_readable T now sleep ts 5000 c = Some (Inr (Some i), us, c')
           \<and> i < length ts \<and> pending (ts ! i) \<noteq> []
           \<and> list_all2 (\<lambda>t u. good u \<and> pending u = pending t \<and> sent u = sent t) ts us))"

text \<open>A device that is still to be read, to the end of the frames it sends, and one that has been.\<close>

definition serving ::
  "('t \<Rightarrow> bool) \<Rightarrow> ('t \<Rightarrow> byte list) \<Rightarrow> ('t \<Rightarrow> byte list) \<Rightarrow> 't streaming \<Rightarrow> byte list \<Rightarrow> bool" where
  "serving good pending sent S d \<longleftrightarrow>
     (\<exists>base fs out. conn_stage good pending sent base (snd S) fs out \<and> view (fst S) fs = d
        \<and> stream_end (local_id (fst S)) fs = Closed \<and> stream_end (local_id (fst S)) (butlast fs) = End)"

lemma servingI:
  "conn_stage good pending sent base (snd S) fs out \<Longrightarrow> view (fst S) fs = d \<Longrightarrow> stream_end (local_id (fst S)) fs = Closed
    \<Longrightarrow> stream_end (local_id (fst S)) (butlast fs) = End \<Longrightarrow> serving good pending sent S d"
  unfolding serving_def by blast

definition served :: "('t \<Rightarrow> bool) \<Rightarrow> ('t \<Rightarrow> byte list) \<Rightarrow> 't streaming \<Rightarrow> bool" where
  "served good pending S \<longleftrightarrow> good (transport_of S) \<and> pending (transport_of S) = []"

lemma with_transport_sel [simp]: "transport_of (with_transport S t) = t" "fst (with_transport S t) = fst S"
  by (simp_all add: transport_of_def with_transport_def)

lemma encode_frame_not_Nil: "encode_frame f \<noteq> []"
  using length_encode [of "header f"] by (auto simp: encode_frame_def kMessageHeaderSize_def simp del: length_encode)

lemma serving_waiting:
  assumes "serving good pending sent S d"
  shows "good (transport_of S)" "pending (transport_of S) \<noteq> []"
proof -
  obtain base fs out where st: "conn_stage good pending sent base (snd S) fs out"
    and cl: "stream_end (local_id (fst S)) fs = Closed"
    using assms unfolding serving_def by blast
  then have p: "good (transport_of S)" "pending (transport_of S) = wire fs"
    by (simp_all add: stage_def live_def inbox_def transport_of_def)
  moreover have "wire fs \<noteq> []" using cl by (cases fs) (auto simp: encode_frame_not_Nil)
  ultimately show "good (transport_of S)" "pending (transport_of S) \<noteq> []" by simp_all
qed

lemma serving_asked:
  assumes "serving good pending sent S d" "good t" "pending t = pending (transport_of S)" "sent t = sent (transport_of S)"
  shows "serving good pending sent (with_transport S t) d"
  using assms by (fastforce simp: serving_def stage_def live_def inbox_def outbox_def transport_of_def with_transport_def)

context byte_channel
begin

lemma serving_read:
  assumes "serving good pending sent S d"
  shows "\<exists>S'. read_all T S = Some (Inr d, S') \<and> served good pending S'"
proof -
  obtain base fs out where st: "conn_stage good pending sent base (snd S) fs out" "view (fst S) fs = d"
    "stream_end (local_id (fst S)) fs = Closed" "stream_end (local_id (fst S)) (butlast fs) = End"
    using assms unfolding serving_def by blast
  obtain st' s' where r: "read_all T (fst S, snd S) = Some (Inr (view (fst S) fs), (st', (snd S)\<lparr>conn_session := s'\<rparr>))"
    "stage good pending sent base s' [] (out @ acks (fst S) fs)"
    by (rule read_whole [OF st(1,3,4)])
  then have "served good pending (st', (snd S)\<lparr>conn_session := s'\<rparr>)"
    by (simp add: served_def transport_of_def stage_def live_def inbox_def)
  with r st(2) show ?thesis by auto
qed

end

text \<open>The invariant of the loop.\<close>

definition devices_at ::
  "('t \<Rightarrow> bool) \<Rightarrow> ('t \<Rightarrow> byte list) \<Rightarrow> ('t \<Rightarrow> byte list) \<Rightarrow> byte list list \<Rightarrow> bool list \<Rightarrow> 't streaming list \<Rightarrow> bool" where
  "devices_at good pending sent outputs finished devices \<longleftrightarrow>
     length finished = length outputs \<and> length devices = length outputs
     \<and> (\<forall>i < length outputs. if finished ! i then served good pending (devices ! i)
          else serving good pending sent (devices ! i) (outputs ! i))"

lemma devices_asked:
  assumes "devices_at good pending sent outputs finished devices"
    and "list_all2 (\<lambda>t u. good u \<and> pending u = pending t \<and> sent u = sent t) (map transport_of devices) ts"
  shows "devices_at good pending sent outputs finished (map2 with_transport devices ts)"
proof -
  have len: "length ts = length devices" using list_all2_lengthD [OF assms(2)] by simp
  have same: "good (ts ! i)" "pending (ts ! i) = pending (transport_of (devices ! i))" "sent (ts ! i) = sent (transport_of (devices ! i))"
    if "i < length devices" for i
    using list_all2_nthD [OF assms(2), of i] that by simp_all
  have "if finished ! i then served good pending (with_transport (devices ! i) (ts ! i))
      else serving good pending sent (with_transport (devices ! i) (ts ! i)) (outputs ! i)" if "i < length devices" for i
    using assms(1) that same [OF that] serving_asked [of good pending sent "devices ! i" "outputs ! i" "ts ! i"]
    by (cases "finished ! i") (auto simp: devices_at_def served_def)
  with assms(1) len show ?thesis by (simp add: devices_at_def)
qed

lemma devices_open:
  "devices_at good pending sent outputs finished devices \<Longrightarrow> i < length outputs \<Longrightarrow> \<not> finished ! i \<Longrightarrow>
     serving good pending sent (devices ! i) (outputs ! i)"
  by (simp add: devices_at_def)

lemma devices_read:
  assumes "devices_at good pending sent outputs finished devices" "served good pending S"
  shows "devices_at good pending sent outputs (finished[i := True]) (devices[i := S])"
  unfolding devices_at_def
proof (intro conjI allI impI)
  fix j assume "j < length outputs"
  with assms show "if finished[i := True] ! j then served good pending (devices[i := S] ! j)
      else serving good pending sent (devices[i := S] ! j) (outputs ! j)"
    by (cases "j = i") (simp_all add: devices_at_def)
qed (use assms in \<open>simp_all add: devices_at_def\<close>)

lemma devices_good:
  assumes "devices_at good pending sent outputs finished devices" "i < length outputs"
  shows "good (transport_of (devices ! i))" "pending (transport_of (devices ! i)) \<noteq> [] \<longleftrightarrow> \<not> finished ! i"
proof -
  have at: "if finished ! i then served good pending (devices ! i) else serving good pending sent (devices ! i) (outputs ! i)"
    using assms by (simp add: devices_at_def)
  show "good (transport_of (devices ! i))"
    using at serving_waiting(1) [of good pending sent "devices ! i"] by (cases "finished ! i") (auto simp: served_def)
  show "pending (transport_of (devices ! i)) \<noteq> [] \<longleftrightarrow> \<not> finished ! i"
    using at serving_waiting(2) [of good pending sent "devices ! i"] by (cases "finished ! i") (auto simp: served_def)
qed

context byte_channel
begin

lemma poll_round:
  fixes p :: "'c Process"
  assumes "fair_wait T now sleep good pending sent" "devices_at good pending sent outputs finished devices"
    and "False \<in> set finished"
  shows "\<exists>i ds c. poll_loop T now sleep finished devices p =
      poll_loop T now sleep (finished[i := True]) ds
        (p\<lparr>ps_core := c, ps_out := ps_out p @ says i (outputs ! i)\<rparr>)
    \<and> i < length outputs \<and> \<not> finished ! i \<and> devices_at good pending sent outputs (finished[i := True]) ds"
proof -
  let ?ts = "map transport_of devices"
  have len: "length finished = length outputs" "length devices = length outputs"
    using assms(2) by (simp_all add: devices_at_def)
  have "\<forall>t \<in> set ?ts. good t" using devices_good [OF assms(2)] by (simp add: all_set_conv_all_nth len)
  moreover have "\<exists>t \<in> set ?ts. pending t \<noteq> []"
    using assms(3) devices_good [OF assms(2)] by (fastforce simp: in_set_conv_nth len)
  ultimately obtain i us c where w: "wait_readable T now sleep ?ts 5000 (ps_core p) = Some (Inr (Some i), us, c)"
    "i < length ?ts" "pending (?ts ! i) \<noteq> []"
    "list_all2 (\<lambda>t u. good u \<and> pending u = pending t \<and> sent u = sent t) ?ts us"
    using assms(1) unfolding fair_wait_def by meson
  let ?ds = "map2 with_transport devices us"
  have at: "devices_at good pending sent outputs finished ?ds" by (rule devices_asked [OF assms(2) w(4)])
  have i: "i < length outputs" "\<not> finished ! i" using w(2,3) devices_good [OF assms(2), of i] by (simp_all add: len)
  from serving_read [OF devices_open [OF at this]] obtain S where r: "read_all T (?ds ! i) = Some (Inr (outputs ! i), S)" "served good pending S"
    by blast
  have "poll_loop T now sleep finished devices p = poll_loop T now sleep (finished[i := True]) (?ds[i := S])
      (p\<lparr>ps_core := c, ps_out := ps_out p @ says i (outputs ! i)\<rparr>)"
    using assms(3) by (subst poll_loop.simps) (simp add: w(1) r(1) Let_def)
  with i devices_read [OF at r(2)] show ?thesis by blast
qed

lemma poll_loop_rounds:
  fixes p :: "'c Process"
  assumes "fair_wait T now sleep good pending sent" "devices_at good pending sent outputs finished devices"
  shows "\<exists>order ds p'. poll_loop T now sleep finished devices p = Some (True, ds, p')
    \<and> distinct order \<and> set order = {i. i < length outputs \<and> \<not> finished ! i}
    \<and> ps_out p' = ps_out p @ concat (map (\<lambda>i. says i (outputs ! i)) order) \<and> ps_err p' = ps_err p
    \<and> length ds = length outputs \<and> (\<forall>S \<in> set ds. served good pending S)"
  using assms(2)
proof (induction "card {i. i < length outputs \<and> \<not> finished ! i}" arbitrary: finished devices p rule: less_induct)
  case less
  let ?open = "\<lambda>fin. {i. i < length outputs \<and> \<not> fin ! i}"
  have len: "length finished = length outputs" "length devices = length outputs"
    using less.prems by (simp_all add: devices_at_def)
  show ?case
  proof (cases "False \<in> set finished")
    case False
    then have all: "finished ! i" if "i < length outputs" for i using that len by (metis nth_mem)
    then have "\<forall>S \<in> set devices. served good pending S"
      using less.prems by (simp add: devices_at_def all_set_conv_all_nth)
    with all False len show ?thesis by (intro exI [of _ "[]"] exI conjI) (auto simp: poll_loop.simps)
  next
    case True
    obtain i ds c where r: "poll_loop T now sleep finished devices p =
        poll_loop T now sleep (finished[i := True]) ds (p\<lparr>ps_core := c, ps_out := ps_out p @ says i (outputs ! i)\<rparr>)"
      "i < length outputs" "\<not> finished ! i" "devices_at good pending sent outputs (finished[i := True]) ds"
      using poll_round [OF assms(1) less.prems True] by blast
    have rest: "?open finished = insert i (?open (finished[i := True]))" "i \<notin> ?open (finished[i := True])"
      using r(2,3) len by (auto simp: nth_list_update)
    then have "card (?open (finished[i := True])) < card (?open finished)" by simp
    from less.hyps [OF this r(4), of "p\<lparr>ps_core := c, ps_out := ps_out p @ says i (outputs ! i)\<rparr>"]
    obtain order ds' p' where IH: "poll_loop T now sleep finished devices p = Some (True, ds', p')"
      "distinct order" "set order = ?open (finished[i := True])"
      "ps_out p' = (ps_out p @ says i (outputs ! i)) @ concat (map (\<lambda>i. says i (outputs ! i)) order)" "ps_err p' = ps_err p"
      "length ds' = length outputs" "\<forall>S \<in> set ds'. served good pending S"
      unfolding r(1) by auto
    have "distinct (i # order)" "set (i # order) = ?open finished"
      using IH(2,3) rest by simp_all
    moreover have "ps_out p' = ps_out p @ concat (map (\<lambda>i. says i (outputs ! i)) (i # order))" using IH(4) by simp
    ultimately show ?thesis using IH(1,5-7) by blast
  qed
qed

text \<open>Devices that are opened on transports where the answers are to come are ready for the loop.\<close>

lemma poll_opened_serving:
  assumes "good t" "pending t = wire (poll_replies output)" "length output \<le> unat kMaxData"
  shows "\<exists>S. poll_connect b T t = Some (Inr S) \<and> serving good pending sent S (bytes_of_string output)"
proof -
  let ?st = "opened poll_service 2 kDeviceId"
  obtain c where c: "poll_connect b T t = Some (Inr (?st, c))"
    "conn_stage good pending sent (sent t @ wire [cnxn_frame b False]) c (poll_stream output) [open_frame 2 0 poll_service]"
    by (rule poll_opened [OF assms])
  have "serving good pending sent (?st, c) (bytes_of_string output)"
    using servingI [of good pending sent "sent t @ wire [cnxn_frame b False]" "(?st, c)" "poll_stream output"
        "[open_frame 2 0 poll_service]"] c(2)
    by (simp add: view_def poll_stream_events del: wire_simps)
  with c(1) show ?thesis by blast
qed

lemma poll_opened_all:
  assumes "length ts = length outputs"
    and "\<And>i. i < length outputs \<Longrightarrow> good (ts ! i) \<and> pending (ts ! i) = wire (poll_replies (outputs ! i))
      \<and> length (outputs ! i) \<le> unat kMaxData"
  obtains devices where "map (poll_connect b T) ts = map (\<lambda>S. Some (Inr S)) devices"
    "devices_at good pending sent (map bytes_of_string outputs) (replicate (length outputs) False) devices"
proof -
  have "\<forall>i < length outputs. \<exists>S. poll_connect b T (ts ! i) = Some (Inr S)
      \<and> serving good pending sent S (bytes_of_string (outputs ! i))"
    using assms(2) poll_opened_serving by blast
  then obtain f where f: "\<forall>i < length outputs. poll_connect b T (ts ! i) = Some (Inr (f i))
      \<and> serving good pending sent (f i) (bytes_of_string (outputs ! i))"
    by metis
  show thesis
  proof (rule that)
    show "map (poll_connect b T) ts = map (\<lambda>S. Some (Inr S)) (map f [0..<length outputs])"
      by (rule nth_equalityI) (simp_all add: assms(1) f)
    show "devices_at good pending sent (map bytes_of_string outputs) (replicate (length outputs) False) (map f [0..<length outputs])"
      by (simp add: devices_at_def f del: bytes_of_string_def)
  qed
qed

end

text \<open>The mock transports are ready exactly when bytes are left, so waiting on them is fair.\<close>

lemma mock_wait_pass:
  "\<exists>t \<in> set ts. mock_pending t \<noteq> [] \<Longrightarrow>
     \<exists>i. wait_pass mock_ops ts = (Inr (Some i), ts) \<and> i < length ts \<and> mock_pending (ts ! i) \<noteq> []"
proof (induction ts)
  case (Cons t ts)
  show ?case
  proof (cases "mock_pending t = []")
    case True
    with Cons obtain i where "wait_pass mock_ops ts = (Inr (Some i), ts)" "i < length ts" "mock_pending (ts ! i) \<noteq> []"
      by auto
    with True show ?thesis by (intro exI [of _ "Suc i"]) (simp add: mock_wait_readable_def mock_pending_def)
  next
    case False
    then show ?thesis by (intro exI [of _ 0]) (simp add: mock_wait_readable_def mock_pending_def)
  qed
qed simp

lemma mock_fair_wait: "fair_wait mock_ops now sleep mock_good mock_pending mock_written"
  unfolding fair_wait_def
proof (intro allI impI, elim conjE)
  fix ts c
  assume "\<forall>t \<in> set ts. mock_good t" "\<exists>t \<in> set ts. mock_pending t \<noteq> []"
  moreover from this(2) obtain i where
    "wait_pass mock_ops ts = (Inr (Some i), ts)" "i < length ts" "mock_pending (ts ! i) \<noteq> []"
    using mock_wait_pass by blast
  ultimately show "\<exists>i us c'. wait_readable mock_ops now sleep ts 5000 c = Some (Inr (Some i), us, c')
      \<and> i < length ts \<and> mock_pending (ts ! i) \<noteq> []
      \<and> list_all2 (\<lambda>t u. mock_good u \<and> mock_pending u = mock_pending t \<and> mock_written u = mock_written t) ts us"
    by (intro exI [of _ i] exI [of _ ts] exI [of _ c] conjI)
      (auto simp: wait_readable_def wait_loop.simps list_all2_conv_all_nth)
qed

section \<open>Properties\<close>

text \<open>
  C19. The two sides of the polling program fit together. When the bytes that arrive at the device's side are
  those the client writes, the device sends its CNXN, an OKAY, its output and a CLOSE and comes back;
  when the bytes that arrive at the client are those, the client's connection, stream and
  read return exactly the output, and the client has then written exactly what the device was assumed to
  read. So the frames each side waits for are the frames the other sends.
\<close>

theorem poll_exchange:
  assumes "blocking_socket N sock inb outb" "inb os = wire (poll_requests b)"
    and "byte_channel T good pending sent" "good t" "pending t = wire (poll_replies output)"
    and "length output \<le> unat kMaxData"
  shows "\<exists>os' S S'. serve_device N sock output os = Some (Inr (), os') \<and> outb os' = outb os @ wire (poll_replies output)
    \<and> poll_connect b T t = Some (Inr S) \<and> read_all T S = Some (Inr (bytes_of_string output), S')
    \<and> sent (transport_of S') = sent t @ wire (poll_requests b)"
proof -
  have "length output < 2 ^ 31" using assms(6) by (simp add: kMaxData_def)
  from serve_device_spec [OF assms(1,2) this] byte_channel.poll_client [OF assms(3-6), of b] show ?thesis by blast
qed

definition loopback_net :: "(byte list \<times> byte list, unit) Sockets" where
  "loopback_net =
     \<lparr>so_getaddrinfo = (\<lambda>host port os. (Inr [()], os)), so_socket = (\<lambda>a os. (3, os)),
      so_get_flags = (\<lambda>s os. (2, os)), so_set_flags = (\<lambda>s f os. (0, os)), so_nonblock = 0x800,
      so_connect = (\<lambda>s a os. (0, os)), so_select_write = (\<lambda>s tv os. (1, os)), so_select_read = (\<lambda>s tv os. (1, os)),
      so_socket_error = (\<lambda>s os. ((0, 0), os)), so_set_nodelay = (\<lambda>s os. os),
      so_set_receive_timeout = (\<lambda>s tv os. os), so_set_send_timeout = (\<lambda>s tv os. os),
      so_recv = (\<lambda>s n (i, x). (Some (take (min (nat n) 7) i), (drop (min (nat n) 7) i, x))),
      so_send = (\<lambda>s bs n (i, x). (n, (i, x @ bs))),
      so_close = (\<lambda>s os. os), so_errno = (\<lambda>os. EAGAIN), so_strerror = (\<lambda>e. ''try again''), so_now = (\<lambda>os. 0)\<rparr>"

lemma loopback_net_blocking: "blocking_socket loopback_net 4 fst snd"
  by (auto simp: blocking_socket_def loopback_net_def)

theorem poll_exchange_witness:
  "\<exists>os' S S'. serve_device loopback_net 4 ''first'' (wire (poll_requests sample_build), []) = Some (Inr (), os')
    \<and> snd os' = wire (poll_replies ''first'')
    \<and> poll_connect sample_build mock_ops (mock_feed (wire (poll_replies ''first'')) mock_new) = Some (Inr S)
    \<and> read_all mock_ops S = Some (Inr (bytes_of_string ''first''), S')
    \<and> mock_written (transport_of S') = wire (poll_requests sample_build)"
  using poll_exchange [OF loopback_net_blocking _ mock.byte_channel_axioms, of
      "(wire (poll_requests sample_build), [])" sample_build "mock_feed (wire (poll_replies ''first'')) mock_new" "''first''"]
  by (simp add: mock_pending_feed kMaxData_def del: wire_simps)



end
