(* ===== verification/Spec2Isabelle.thy ===== *)
theory Spec2Isabelle
  imports Adb_Client Adb_App Adb_Log Adb_Key Adb_Tcp Adb_Usb Adb_Retry
    Adb_Tour_Spec Adb_Tools_Spec Adb_Samples Adb_Poll_Spec
begin

text \<open>
  Verification of adbcpp, a C++ client library for the Android Debug Bridge. The program is a stack: a
  transport carries bytes (TCP, USB, or memory for tests); a session cuts them into frames; a
  connection performs the handshake and keeps what was negotiated; streams are multiplexed on the
  connection; the services (shell commands, file synchronisation, applications) talk over streams. Keys,
  compression and logging stand beside the stack. Calls go downwards only, every object but the logger is used by
  one thread, and all state is in the objects that are passed down, so an operation is modelled as a
  function from the state of its object, with that of the layers below inside, to its outcome and the
  new state.

  \<^bold>\<open>Theories and sources\<close> (paths under \<open>src/\<close>; headers under \<open>include/adbcpp/\<close>)

  \<^item> \<open>Adb_Prelude\<close>: machine types, the error values of \<open>error.hpp\<close>, the sequencing combinators
    (\<open>bind_st\<close> for operations that return, \<open>bind_io\<close> for those that may not), words, lists, strings.
  \<^item> \<open>Adb_Message\<close>: \<open>protocol/byte_order.hpp\<close>, \<open>protocol/commands.hpp\<close>, \<open>protocol/message.cpp\<close>.
  \<^item> \<open>Adb_Transport\<close>: \<open>transport.hpp\<close>, \<open>transport.cpp\<close>, \<open>testing/mock_transport.hpp\<close>; the locales
    \<open>link\<close> and \<open>byte_channel\<close>, the contracts the upper layers rely on.
  \<^item> \<open>Adb_Session\<close>: \<open>session.cpp\<close>. \<open>Adb_Connection\<close>: \<open>connection.cpp\<close>. \<open>Adb_Retry\<close>: the template
    \<open>connect_with_retry\<close> of \<open>connection.hpp\<close>.
  \<^item> \<open>Adb_Stream\<close>, \<open>Adb_Stream_Spec\<close>: \<open>stream.cpp\<close>, and what its operations do by frames.
    \<open>Adb_Dialogue\<close>: the view a service has of its stream, without the frames. \<open>Adb_Client\<close>: any calls in
    any order, as a step relation with an invariant.
  \<^item> \<open>Adb_Shell\<close>: \<open>shell.cpp\<close>. \<open>Adb_App\<close>: \<open>app.cpp\<close>.
  \<^item> \<open>Adb_Host\<close>: the host's files. \<open>Adb_Compression\<close>: \<open>compression.cpp\<close>. \<open>Adb_Sync\<close>: \<open>sync.cpp\<close>;
    \<open>Adb_Sync_Spec\<close>, \<open>Adb_Pull_Spec\<close> and \<open>Adb_Push_Spec\<close> specify listing and metadata, pulling, pushing.
  \<^item> \<open>Adb_Tcp\<close>: \<open>tcp/tcp_transport.cpp\<close>. \<open>Adb_Usb\<close>: \<open>usb/usb_transport.cpp\<close>. \<open>Adb_Key\<close>:
    \<open>crypto/adb_key.cpp\<close>. \<open>Adb_Log\<close>: \<open>log.cpp\<close>.
  \<^item> The example programs, under \<open>examples/\<close>: \<open>Adb_Program\<close> has the surroundings of a program (what it
    prints, its pauses, the host's files, its exit status), \<open>Adb_Requests\<close> what a program asks of a device.
    \<open>Adb_Tour\<close> and \<open>Adb_Tour_Spec\<close>: \<open>demo/main.cpp\<close>, \<open>demo_multi/main.cpp\<close>. \<open>Adb_Tools\<close> and \<open>Adb_Tools_Spec\<close>: \<open>usb/main.cpp\<close>,
    \<open>tcp/main.cpp\<close>, \<open>multi/main.cpp\<close>. \<open>Adb_Samples\<close>: \<open>sample/main.cpp\<close>, \<open>sync/main.cpp\<close>. \<open>Adb_Poll\<close> and
    \<open>Adb_Poll_Spec\<close>: \<open>poll/main.cpp\<close>.
  \<^item> This theory: properties of the whole stack, from the first byte of a transport to a service.

  \<^bold>\<open>State and errors.\<close> A class is a record of its members, with their names where they are free
  (\<open>sess_closed\<close>, \<open>max_data\<close>, \<open>incoming_offset\<close>); an operation keeps its name, with the class in front
  where names clash (\<open>session_receive\<close>, \<open>stream_read\<close>, \<open>tcp_open\<close>). \<open>tl::expected\<close> is a sum, \<open>Inl\<close> the
  error with its code and text. A reference to another object is that object's state in the record; a
  destructor is a function called on each way out of the scope that owns the object.

  \<^bold>\<open>The specifications and the lemmas over them.\<close>
  \<^item> \<open>parse_frame\<close> says which frame a sequence of bytes holds. A session computes it over any byte
    channel, and carries frames over any link.
  \<^item> \<open>handshake\<close> is the CNXN/AUTH exchange as a function of the device's frames. \<open>connect\<close> implements it.
  \<^item> \<open>view\<close>, \<open>stream_data\<close> and \<open>stream_end\<close> say what the frames carry for one stream and how it ends.
    Reading, writing, opening and closing are stated over them.
  \<^item> \<open>dialogue\<close> relates a stream to the bytes still to come and to the frames the host has sent; \<open>meets\<close>
    and \<open>meets_on\<close> say that an operation on a stream does what a reader of pure bytes does. The
    rules of both follow the sequencing combinators. \<open>keeps\<close> and \<open>talks\<close> say what holds whatever the
    device sends.
  \<^item> The formats the device writes are encoders (\<open>encode_packets\<close>, \<open>encode_listing\<close>, \<open>encode_file\<close>); reading
    them back is the round trip of each reply.
  \<^item> \<open>sh_words\<close> is how \<open>sh\<close> cuts a command line into words, the specification of quoting.
  \<^item> \<open>asks\<close> says what a program returns and which services it opens, whatever the device answers; \<open>touches\<close>,
    \<open>comes_back\<close> and \<open>careful\<close> say which files it leaves alone, that it returns and how long it pauses; \<open>closing\<close>
    that it leaves its session closed. Their rules follow the statements of a program.
  \<^item> \<open>devices_at\<close> is the invariant of the polling loop; \<open>poll_requests\<close> and \<open>poll_replies\<close> are the frames
    that the two sides of its sockets exchange.
  \<^item> \<open>client_trace\<close> and \<open>client_inv\<close>: the states a client can reach.

  \<^bold>\<open>Interfaces.\<close> \<open>link\<close>: bytes arrive in order, those written are sent. \<open>byte_channel\<close> extends it: the end
  of the stream is reported. \<open>bounded_reads\<close>: a read keeps to its buffer. \<open>mock\<close> interprets the first two
  for the in-memory transport, \<open>mock_reads\<close> and \<open>usb_reads\<close> the third. \<open>tcp_byte_channel\<close> shows that the TCP
  transport is a byte channel over a socket with the documented behaviour, \<open>usb_link\<close> that the USB
  transport is a link over a documented pipe. What is proved over a byte channel therefore holds over
  TCP; a silent USB device makes a read fail where a byte channel ends, so over USB the frames are
  carried but the ends of streams that are never closed differ.

  \<^bold>\<open>Parameters.\<close> Code that is not in the repository is an argument: libusb (\<open>Libusb\<close>), the sockets and the
  clock of the operating system (\<open>Sockets\<close>), mbedTLS (\<open>Mbedtls\<close>), the zstd, lz4 and brotli libraries
  (\<open>Codec_lib\<close>), the environment of the retry loop (\<open>Retry_env\<close>), the calls of a listening socket
  (\<open>Listening\<close>), the clock of \<open>wait_readable\<close>. The
  documented behaviour that a theorem needs of them is one of the predicates \<open>documented_socket\<close>,
  \<open>documented_pipe\<close>, \<open>documented_mpi\<close>, \<open>documented_base64\<close>, \<open>decodes\<close>, \<open>observes\<close>, \<open>usb_accounts\<close>,
  \<open>blocking_socket\<close> and \<open>fair_wait\<close>, each shown to hold of a concrete instance.

  \<^bold>\<open>Bounds and loops.\<close> There is no fuel. Loops with a measure are functions with a termination proof. Loops
  that may run for ever, because a peer may send frames for other streams for ever or a clock may
  stand still, are partial functions whose value \<open>None\<close> is a call that does not return; the theorems
  about them say that they return. Sizes handed to the operating system as \<open>int\<close> are below \<open>2 ^ 31\<close>,
  and so is the maximum payload a device announces wherever something is sent after the handshake
  (\<open>conn_stage\<close>); a session itself accepts no payload above 1 MiB.

  \<^bold>\<open>Not modelled.\<close> The Windows branches and the platform set-up behind \<open>ensure_sockets\<close>; the calls of the
  logger inside the operations, which write to the application's sink and change nothing an operation
  reads; the mutex of the logger beyond making each of its operations one step; allocation failure;
  the interleaving of the threads of the example programs, each of which works on a device of its own and is run
  to its end; tests, build files and export macros.
\<close>

section \<open>From the handshake to a service\<close>

context byte_channel
begin

lemma connect_then_run:
  fixes protocol :: ShellProtocol and adv :: bool and f :: Frame
  assumes "good t" "pending t = wire frames" "list_all valid_frame frames" "fits pk signer"
    and "handshake b adv pk signer frames = (Inr f, out, asked, fs)" "command (header f) = kCnxn"
    and "unat (arg1 (header f)) < 2 ^ 31" "length cmd < 2 ^ 31 - 20"
    and "open_reply 2 fs = (Inr rid, gs)" "stream_end 2 gs = Closed"
  defines "offered \<equiv> set (parse_features (string_of_bytes (payload f)))"
  defines "v2 \<equiv> protocol = ShellV2 \<or> protocol = ShellAuto \<and> ''shell_v2'' \<in> offered"
    and "window \<equiv> if adv \<and> kDelayedAckFeature \<in> offered then kInitialDelayedAckBytes else 0"
  shows "\<exists>c c'. connect b T t pk signer adv = (Inr (), c)
    \<and> shell_run T cmd protocol c = Some (Inr (command_result v2 (stream_data 2 gs)), c')
    \<and> spoken good pending sent (sent t @ wire out) [] c' [open_frame 2 window (shell_service v2 cmd)]"
proof -
  obtain c where c: "connect b T t pk signer adv = (Inr (), c)"
    "conn_stage good pending sent (sent t @ wire out) c fs []" "next_local_id c = 2"
    "features c = parse_features (string_of_bytes (payload f))"
    "delayed_ack c = (adv \<and> kDelayedAckFeature \<in> set (features c))"
    by (rule connect_ready [OF assms(1-7)])
  then have offered: "set (features c) = offered" by (simp add: offered_def)
  have v2: "uses_v2 protocol c = v2" by (simp add: uses_v2_def v2_def offered)
  have request: "(if delayed_ack c then kInitialDelayedAckBytes else 0) = window"
    by (simp add: c(5) window_def offered)
  have "open_reply (next_local_id c) fs = (Inr rid, gs)" "stream_end (next_local_id c) gs = Closed"
    using assms(9,10) by (simp_all add: c(3))
  note run = shell_run_spec [OF spoken_start_Nil [OF c(2)] assms(8) this(1) unaddressed_Nil(2) this(2), of protocol,
      unfolded v2 append_Nil c(3) request]
  obtain c' where "shell_run T cmd protocol c = Some (Inr (command_result v2 (stream_data 2 gs)), c')"
    "spoken good pending sent (sent t @ wire out) [] c' [open_frame 2 window (shell_service v2 cmd)]"
    by (rule exE [OF run], erule conjE)
  with c(1) show ?thesis by (intro exI conjI)
qed

lemma connect_then_pull:
  assumes "good t" "pending t = wire frames" "list_all valid_frame frames" "fits pk signer"
    and "handshake b adv pk signer frames = (Inr f, out, asked, fs)" "command (header f) = kCnxn"
    and "unat (arg1 (header f)) < 2 ^ 31" "open_reply 2 fs = (Inr rid, gs)"
    and "8 + length remote \<le> unat (arg1 (header f))" "length remote \<le> kMaxPathLength"
    and "stream_data 2 gs = encode_file parts @ rest" "\<forall>chunk \<in> set parts. length chunk \<le> kMaxChunkSize"
    and "writable h path" "length (concat parts) \<le> disk_free h"
  shows "\<exists>c c' h'. connect b T t pk signer adv = (Inr (), c)
    \<and> sync_pull b L T remote path CompressNone (c, h) = Some (Inr (), (c', h'))
    \<and> file_content h' path = concat parts \<and> (\<forall>p. p \<noteq> path \<longrightarrow> files h' p = files h p)"
proof -
  obtain c where c: "connect b T t pk signer adv = (Inr (), c)"
    "conn_stage good pending sent (sent t @ wire out) c fs []" "next_local_id c = 2" "max_data c = arg1 (header f)"
    by (rule connect_ready [OF assms(1-7)])
  have "transfer_codec b c CompressNone = Inr None" by (simp add: transfer_codec_def choose_codec_def)
  moreover have "open_reply (next_local_id c) fs = (Inr rid, gs)" "8 + length remote \<le> unat (max_data c)"
    "stream_data (next_local_id c) gs = encode_file parts @ rest"
    using assms(8,9,11) by (simp_all add: c(3,4))
  ultimately show ?thesis
    using pull_file [OF spoken_start_Nil [OF c(2)] _ unaddressed_Nil(2) _ _ assms(10) _ assms(12-14)] c(1) by blast
qed

end

text \<open>The handshake leaves the counter of stream ids alone, whatever the transport does.\<close>

definition keeps_id :: "('t Connection, 'a) st \<Rightarrow> bool" where
  "keeps_id m \<longleftrightarrow> (\<forall>c. next_local_id (snd (m c)) = next_local_id c)"

lemma keeps_id_bind: "keeps_id m \<Longrightarrow> (\<And>a. keeps_id (f a)) \<Longrightarrow> keeps_id (bind_st m f)"
  by (simp add: keeps_id_def bind_st_def split: prod.splits sum.splits) (metis snd_conv)

lemma keeps_id_basic [simp]:
  "keeps_id (ok_st a)" "keeps_id (fail_st e)" "keeps_id (connection_send T h p)" "keeps_id (connection_receive T)"
  by (simp_all add: keeps_id_def seq_simps connection_send_def connection_receive_def split: prod.splits)

lemma keeps_id_finish: "keeps_id (finish_connect adv f)"
  by (simp add: keeps_id_def finish_connect_def Let_def)

lemma keeps_id_authenticate: "keeps_id (authenticate T pk signer f)"
proof -
  have "keeps_id (bind_st (connection_send T h p) (\<lambda>_. connection_receive T))" for h p
    by (intro keeps_id_bind) simp_all
  then have "keeps_id (answer_with_signature T sign f)" "keeps_id (request_authorization T pk)" for sign f
    by (auto simp: answer_with_signature_def request_authorization_def keeps_id_def Let_def seq_simps split: sum.splits)
  then show ?thesis
    by (auto simp: authenticate_def split: option.splits intro!: keeps_id_bind)
qed

lemma connect_local_id: "next_local_id (snd (connect b T t pk signer adv)) = 2"
proof -
  have "keeps_id (bind_st (connection_send T h p) (\<lambda>_. bind_st (connection_receive T)
      (\<lambda>f. bind_st (authenticate T pk signer f) (finish_connect adv))))" for h p
    by (intro keeps_id_bind keeps_id_authenticate keeps_id_finish) simp_all
  then show ?thesis
    by (auto simp: connect_def keeps_id_def Let_def connection_new_def split: sum.splits)
qed

section \<open>Properties\<close>

text \<open>
  C5. A whole session, from the first byte: over any byte channel on which the device goes through the
  handshake, accepts the stream and closes it after the output, connecting succeeds and the command
  run on that connection returns the result its output stands for. The host has then sent the frames
  of the handshake, one OPEN with the command line, in the protocol and with the window that the
  device's banner calls for, and acknowledgements.
\<close>

theorem session_runs_command:
  fixes protocol :: ShellProtocol and adv :: bool and banner :: Frame
  assumes "byte_channel T good pending sent" "good t" "pending t = wire frames" "list_all valid_frame frames"
    and "fits pk signer" "handshake b adv pk signer frames = (Inr banner, out, asked, fs)"
    and "command (header banner) = kCnxn" "unat (arg1 (header banner)) < 2 ^ 31" "length cmd < 2 ^ 31 - 20"
    and "open_reply 2 fs = (Inr rid, gs)" "stream_end 2 gs = Closed"
  defines "offered \<equiv> set (parse_features (string_of_bytes (payload banner)))"
  defines "v2 \<equiv> protocol = ShellV2 \<or> protocol = ShellAuto \<and> ''shell_v2'' \<in> offered"
    and "window \<equiv> if adv \<and> kDelayedAckFeature \<in> offered then kInitialDelayedAckBytes else 0"
  shows "\<exists>c c'. connect b T t pk signer adv = (Inr (), c)
    \<and> shell_run T cmd protocol c = Some (Inr (command_result v2 (stream_data 2 gs)), c')
    \<and> spoken good pending sent (sent t @ wire out) [] c' [open_frame 2 window (shell_service v2 cmd)]"
  unfolding v2_def window_def offered_def by (rule byte_channel.connect_then_run [OF assms(1-11)])

theorem session_runs_command_witness:
  "\<exists>c c'. connect sample_build mock_ops (mock_feed (wire [sample_banner, device_frame kOkay 2 [],
        device_frame kWrte 2 (bytes_of_string ''ok''), device_frame kClse 2 []]) mock_new) [] None False = (Inr (), c)
    \<and> shell_run mock_ops ''id'' ShellV1 c = Some (Inr (command_result False (bytes_of_string ''ok'')), c')
    \<and> spoken mock_good mock_pending mock_written (wire [cnxn_frame sample_build False]) [] c'
        [open_frame 2 0 (shell_service False ''id'')]"
  using session_runs_command [OF mock.byte_channel_axioms _ _ _ _ sample_handshake, of
      "mock_feed (wire [sample_banner, device_frame kOkay 2 [], device_frame kWrte 2 (bytes_of_string ''ok''),
         device_frame kClse 2 []]) mock_new"
      "[device_frame kOkay 2 [], device_frame kWrte 2 (bytes_of_string ''ok''), device_frame kClse 2 []]" "''id''" 9
      "[device_frame kWrte 2 (bytes_of_string ''ok''), device_frame kClse 2 []]" ShellV1]
  by (simp add: mock_pending_feed fits_def open_reply_def del: wire_simps)

text \<open>
  C6. Pulling a file over TCP, from the handshake to the disk: on a socket with the documented behaviour
  whose peer is never silent for longer than the transfer budget, when the peer goes through the
  handshake and sends the file in pieces of at most 64 KiB, connecting and pulling both return and
  succeed, and the local file ends up with exactly the device's bytes, however the network cuts
  and delays them. No other local file changes.
\<close>

theorem pull_over_tcp:
  fixes X :: "'o tcp"
  assumes "documented_socket N sock budget alive inb outb due" "tcp_good sock budget alive X"
    and "inb (snd X) = wire frames" "list_all valid_frame frames" "fits pk signer"
    and "handshake b adv pk signer frames = (Inr banner, out, asked, fs)" "command (header banner) = kCnxn"
    and "unat (arg1 (header banner)) < 2 ^ 31" "open_reply 2 fs = (Inr rid, gs)"
    and "8 + length remote \<le> unat (arg1 (header banner))" "length remote \<le> kMaxPathLength"
    and "stream_data 2 gs = encode_file parts @ rest" "\<forall>part \<in> set parts. length part \<le> kMaxChunkSize"
    and "writable h path" "length (concat parts) \<le> disk_free h"
  shows "\<exists>c c' h'. connect b (tcp_ops N) X pk signer adv = (Inr (), c)
    \<and> sync_pull b L (tcp_ops N) remote path CompressNone (c, h) = Some (Inr (), (c', h'))
    \<and> file_content h' path = concat parts \<and> (\<forall>p. p \<noteq> path \<longrightarrow> files h' p = files h p)"
proof -
  have "on_os inb X = wire frames" using assms(3) by (simp add: on_os_def)
  from byte_channel.connect_then_pull [OF tcp_byte_channel [OF assms(1)] assms(2) this assms(4-15)] show ?thesis .
qed

theorem pull_over_tcp_witness:
  "\<exists>c c' h'. connect sample_build (tcp_ops sample_net)
        (sample_tcp (wire (sample_banner # reply_frames (encode_file [[1, 2], [3]])))) [] None False = (Inr (), c)
    \<and> sync_pull sample_build sample_codecs (tcp_ops sample_net) ''/f'' ''old'' CompressNone (c, sample_host) =
        Some (Inr (), (c', h'))
    \<and> file_content h' ''old'' = [1, 2, 3] \<and> (\<forall>p. p \<noteq> ''old'' \<longrightarrow> files h' p = files sample_host p)"
  using pull_over_tcp [OF sample_net_documented _ _ _ _ sample_handshake, of
      "sample_tcp (wire (sample_banner # reply_frames (encode_file [[1, 2], [3]])))" "reply_frames (encode_file [[1, 2], [3]])" 9
      "tl (reply_frames (encode_file [[1, 2], [3]]))" "''/f''" "[[1, 2], [3]]" "[]" sample_host "''old''" sample_codecs]
  by (simp add: tcp_good_def sample_tcp_def fits_def kMaxPathLength_def kMaxChunkSize_def
      del: wire_simps)



end
